(* ===== verification/Prelude.thy ===== *)
theory Prelude
  imports Main "HOL-Library.Sublist" "HOL-Library.List_Lexorder" "HOL-Library.Char_ord"
begin

text \<open>
  Shared vocabulary of the development: the shape of a Go result, the collections that the
  component theories fill, and generic facts on lists, maps and sets that more than one
  component uses. Nothing here models a line of the program.
\<close>

section \<open>Collections\<close>

text \<open>
  \<open>go_simps\<close> rewrites the Go string and path functions, \<open>frame_simps\<close> says which
  fields an operation leaves alone, \<open>wf_intros\<close> holds the preservation of the components'
  invariants.
\<close>

named_theorems go_simps
named_theorems frame_simps
named_theorems wf_intros

section \<open>Results\<close>

text \<open>
  A Go function that returns \<open>(value, error)\<close> returns a sum here, with the error on the left.
\<close>

type_synonym ('e, 'a) result = "'e + 'a"

abbreviation Err :: "'e \<Rightarrow> ('e, 'a) result" where
  "Err \<equiv> Inl"

abbreviation Ok :: "'a \<Rightarrow> ('e, 'a) result" where
  "Ok \<equiv> Inr"

definition is_ok :: "('e, 'a) result \<Rightarrow> bool" where
  "is_ok r \<longleftrightarrow> (case r of Err _ \<Rightarrow> False | Ok _ \<Rightarrow> True)"

lemma is_ok_simps [simp]: "is_ok (Ok x)" "\<not> is_ok (Err e)"
  by (simp_all add: is_ok_def)

lemma is_ok_iff: "is_ok r \<longleftrightarrow> (\<exists>x. r = Ok x)"
  by (cases r) auto

text \<open>Time and durations are nanoseconds, as \<open>time.Duration\<close> counts them.\<close>

type_synonym time = int
type_synonym duration = int

definition millisecond :: duration where
  "millisecond = 1000000"

definition second :: duration where
  "second = 1000 * millisecond"

definition minute :: duration where
  "minute = 60 * second"

section \<open>Lists\<close>

lemma find_first_prefers_head: "P x \<Longrightarrow> List.find P (x # xs) = Some x"
  by simp

lemma find_None_all: "List.find P xs = None \<longleftrightarrow> (\<forall>x\<in>set xs. \<not> P x)"
  by (induction xs) auto

lemma find_exists: "(\<exists>x\<in>set xs. P x) \<longleftrightarrow> (\<exists>x. List.find P xs = Some x \<and> P x)"
  by (induction xs) auto

lemma filter_inj_on_distinct_map:
  "distinct (map f xs) \<Longrightarrow> distinct (map f (filter P xs))"
  by (induction xs) auto

lemma distinct_map_eq: "distinct (map f xs) \<Longrightarrow> x \<in> set xs \<Longrightarrow> y \<in> set xs \<Longrightarrow> f x = f y \<Longrightarrow> x = y"
  by (induction xs) (auto simp: rev_image_eqI)

section \<open>Maps\<close>

lemma map_add_Some_right: "n k = Some v \<Longrightarrow> (m ++ n) k = Some v"
  by simp

lemma dom_keys_iff: "k \<in> dom m \<longleftrightarrow> m k \<noteq> None"
  by auto

end
