(* ===== verification/Go_Path.thy ===== *)
theory Go_Path
  imports Go_Strings
begin

text \<open>
  Go's \<open>path.Clean\<close> and \<open>path.Join\<close>, as a left fold over the segments of a slash separated
  path with the kept segments on a stack, and the two facts the proxy's containment argument
  needs: what a rooted path that is its own \<open>Clean\<close> looks like, and what joining such a path
  onto a base gives.
\<close>

abbreviation slash :: char where
  "slash \<equiv> CHR ''/''"

definition dot_seg :: string where
  "dot_seg = ''.''"

definition dotdot_seg :: string where
  "dotdot_seg = ''..''"

text \<open>
  One lexical step of \<open>path.Clean\<close>: empty and dot segments go, a dot-dot removes the segment
  before it, is dropped at the root, and is kept at the start of a relative path.
\<close>

definition clean_step :: "bool \<Rightarrow> string list \<Rightarrow> string \<Rightarrow> string list" where
  "clean_step rooted stack seg =
     (if seg = [] \<or> seg = dot_seg then stack
      else if seg = dotdot_seg then
        (case stack of
           [] \<Rightarrow> (if rooted then [] else [dotdot_seg])
         | prev # below \<Rightarrow> (if prev = dotdot_seg then dotdot_seg # stack else below))
      else seg # stack)"

definition clean_stack :: "bool \<Rightarrow> string list \<Rightarrow> string list" where
  "clean_stack rooted segs = foldl (clean_step rooted) [] segs"

definition path_clean :: "string \<Rightarrow> string" where
  "path_clean p =
     (if p = [] then dot_seg
      else let rooted = has_prefix p [slash];
               out = (if rooted then [slash] else [])
                       @ join [slash] (rev (clean_stack rooted (split_on slash p)))
           in if out = [] then dot_seg else out)"

definition join_step :: "string \<Rightarrow> string \<Rightarrow> string" where
  "join_step buf e =
     (if buf \<noteq> [] \<or> e \<noteq> [] then (if buf \<noteq> [] then buf @ [slash] else buf) @ e else buf)"

definition path_join :: "string list \<Rightarrow> string" where
  "path_join elems =
     (if concat elems = [] then [] else path_clean (foldl join_step [] elems))"

section \<open>Normal segments\<close>

definition normal_seg :: "string \<Rightarrow> bool" where
  "normal_seg s \<longleftrightarrow> s \<noteq> [] \<and> s \<noteq> dot_seg \<and> s \<noteq> dotdot_seg \<and> slash \<notin> set s"

lemma clean_step_normal: "normal_seg s \<Longrightarrow> clean_step r st s = s # st"
  by (simp add: clean_step_def normal_seg_def)

lemma foldl_clean_normal:
  "\<forall>s\<in>set ss. normal_seg s \<Longrightarrow> foldl (clean_step r) st ss = rev ss @ st"
  by (induction ss arbitrary: st) (auto simp: clean_step_normal)

lemma clean_step_keeps_normal:
  "\<forall>s\<in>set st. normal_seg s \<Longrightarrow> slash \<notin> set seg \<Longrightarrow> \<forall>s\<in>set (clean_step True st seg). normal_seg s"
proof (cases "normal_seg seg")
  case True
  then show "\<forall>s\<in>set st. normal_seg s \<Longrightarrow> \<forall>s\<in>set (clean_step True st seg). normal_seg s"
    by (simp add: clean_step_normal)
next
  case False
  assume st: "\<forall>s\<in>set st. normal_seg s" and "slash \<notin> set seg"
  with False have "seg = [] \<or> seg = dot_seg \<or> seg = dotdot_seg" by (auto simp: normal_seg_def)
  moreover have "hd st \<noteq> dotdot_seg \<or> st = []"
    using st by (cases st) (auto simp: normal_seg_def)
  ultimately show ?thesis
    using st by (cases st) (auto simp: clean_step_def)
qed

lemma foldl_clean_keeps_normal:
  "\<forall>s\<in>set st. normal_seg s \<Longrightarrow> \<forall>s\<in>set ss. slash \<notin> set s \<Longrightarrow>
   \<forall>s\<in>set (foldl (clean_step True) st ss). normal_seg s"
proof (induction ss arbitrary: st)
  case Nil
  then show ?case by simp
next
  case (Cons seg ss)
  then have "\<forall>s\<in>set (clean_step True st seg). normal_seg s"
    by (intro clean_step_keeps_normal) auto
  with Cons show ?case by simp
qed

lemma clean_stack_rooted_normal: "\<forall>s\<in>set (clean_stack True (split_on slash p)). normal_seg s"
  unfolding clean_stack_def using split_on_no_sep by (intro foldl_clean_keeps_normal) auto

definition rooted_path :: "string list \<Rightarrow> string" where
  "rooted_path ss = slash # join [slash] ss"

lemma path_clean_rooted:
  "path_clean (slash # p) = rooted_path (rev (clean_stack True (split_on slash (slash # p))))"
  by (simp add: path_clean_def has_prefix_def rooted_path_def)

lemma rooted_path_cases:
  "has_prefix t [slash] \<Longrightarrow> path_clean t = t \<Longrightarrow> \<exists>ss. (\<forall>s\<in>set ss. normal_seg s) \<and> t = rooted_path ss"
proof -
  assume root: "has_prefix t [slash]" and canon: "path_clean t = t"
  from root obtain p where t: "t = slash # p"
    by (cases t) (auto simp: has_prefix_def)
  let ?ss = "rev (clean_stack True (split_on slash t))"
  have "t = rooted_path ?ss"
    using canon path_clean_rooted t by metis
  moreover have "\<forall>s\<in>set ?ss. normal_seg s"
    using clean_stack_rooted_normal by simp
  ultimately show ?thesis by blast
qed

lemma join_append_seg:
  "xs \<noteq> [] \<Longrightarrow> ys \<noteq> [] \<Longrightarrow> join sep (xs @ ys) = join sep xs @ sep @ join sep ys"
  by (induction sep xs rule: join.induct) (auto simp: neq_Nil_conv)

lemma rooted_path_append:
  "xs \<noteq> [] \<Longrightarrow> ys \<noteq> [] \<Longrightarrow> rooted_path (xs @ ys) = rooted_path xs @ rooted_path ys"
  by (simp add: rooted_path_def join_append_seg)

lemma split_rooted_path:
  "ss \<noteq> [] \<Longrightarrow> \<forall>s\<in>set ss. normal_seg s \<Longrightarrow> split_on slash (rooted_path ss) = [] # ss"
  by (simp add: rooted_path_def split_on_join normal_seg_def)

lemma path_clean_rooted_path:
  "\<forall>s\<in>set ss. normal_seg s \<Longrightarrow> path_clean (rooted_path ss) = rooted_path ss"
proof (cases "ss = []")
  case True
  then show ?thesis
    by (simp add: rooted_path_def path_clean_def has_prefix_def clean_stack_def clean_step_def)
next
  case False
  assume n: "\<forall>s\<in>set ss. normal_seg s"
  have "split_on slash (rooted_path ss) = [] # ss"
    using False n by (rule split_rooted_path)
  moreover have "clean_stack True ([] # ss) = rev ss"
    using n foldl_clean_normal[of ss True "[]"] by (simp add: clean_stack_def clean_step_def)
  ultimately show ?thesis
    using path_clean_rooted[of "join [slash] ss"] by (simp add: rooted_path_def)
qed

section \<open>Joining a canonical path onto a base\<close>

lemma path_join_pair: "a \<noteq> [] \<Longrightarrow> path_join [a, b] = path_clean (a @ slash # b)"
  by (simp add: path_join_def join_step_def)

lemma path_join_empty_base: "b \<noteq> [] \<Longrightarrow> path_join [[], b] = path_clean b"
  by (simp add: path_join_def join_step_def)

lemma path_join_rooted:
  assumes "has_prefix base [slash]" and "ss \<noteq> []" and "\<forall>s\<in>set ss. normal_seg s"
  shows "path_join [base, rooted_path ss] =
         (if path_clean base = [slash] then rooted_path ss else path_clean base @ rooted_path ss)"
proof -
  from assms(1) obtain b where base: "base = slash # b"
    by (cases base) (auto simp: has_prefix_def)
  let ?segs = "rev (clean_stack True (split_on slash base))"
  have clean_base: "path_clean base = rooted_path ?segs"
    using base path_clean_rooted by metis
  have "split_on slash (base @ slash # rooted_path ss) = split_on slash base @ [] # ss"
    using split_on_append split_rooted_path[OF assms(2,3)] by metis
  moreover have "clean_stack True (split_on slash base @ [] # ss) = rev ss @ rev ?segs"
    using assms(3) foldl_clean_normal[of ss True "clean_stack True (split_on slash base)"]
    by (simp add: clean_stack_def clean_step_def)
  ultimately have "path_clean (base @ slash # rooted_path ss) = rooted_path (?segs @ ss)"
    using path_clean_rooted[of "b @ slash # rooted_path ss"] base by simp
  then have joined: "path_join [base, rooted_path ss] = rooted_path (?segs @ ss)"
    using path_join_pair[of base] base by simp
  show ?thesis
  proof (cases "?segs = []")
    case True
    then have "path_clean base = [slash]" using clean_base by (simp add: rooted_path_def)
    with joined True show ?thesis by simp
  next
    case False
    then have "normal_seg (hd ?segs)"
      using clean_stack_rooted_normal[of base] by (metis hd_in_set set_rev)
    then have "path_clean base \<noteq> [slash]"
      using False clean_base
      by (cases ?segs; cases "tl ?segs") (auto simp: rooted_path_def normal_seg_def)
    with joined clean_base False assms(2) show ?thesis by (simp add: rooted_path_append)
  qed
qed

end
