(* ===== verification/K8s.thy ===== *)
theory K8s
  imports Go_Path "HOL-Library.Word"
begin

text \<open>
  The Kubernetes vocabulary the components share: group versions, the API discovery types the
  program reads (only the fields it reads), the snapshot of a workspace's API surface, and objects
  as far as the program looks into them. These are data of the Kubernetes API, not code.
\<close>

section \<open>Names\<close>

datatype group_version = GV (gv_Group: string) (gv_Version: string)
datatype group_kind = GK (gk_Group: string) (gk_Kind: string)
datatype group_version_kind = GVK (gvk_Group: string) (gvk_Version: string) (gvk_Kind: string)
datatype group_version_resource = GVR (gvr_Group: string) (gvr_Version: string) (gvr_Resource: string)

definition gvk_gv :: "group_version_kind \<Rightarrow> group_version" where
  "gvk_gv k = GV (gvk_Group k) (gvk_Version k)"

text \<open>\<open>GroupVersion.String\<close>: the core group has no slash.\<close>

definition gv_String :: "group_version \<Rightarrow> string" where
  "gv_String gv = (if gv_Group gv = [] then gv_Version gv else gv_Group gv @ [slash] @ gv_Version gv)"

text \<open>Group versions in the order of their group, then of their version.\<close>

instantiation group_version :: linorder
begin

definition less_eq_group_version :: "group_version \<Rightarrow> group_version \<Rightarrow> bool" where
  "less_eq_group_version a b \<longleftrightarrow>
     gv_Group a < gv_Group b \<or> gv_Group a = gv_Group b \<and> gv_Version a \<le> gv_Version b"

definition less_group_version :: "group_version \<Rightarrow> group_version \<Rightarrow> bool" where
  "less_group_version a b \<longleftrightarrow>
     gv_Group a < gv_Group b \<or> gv_Group a = gv_Group b \<and> gv_Version a < gv_Version b"

instance
proof
  fix a b c :: group_version
  show "(a < b) = (a \<le> b \<and> \<not> b \<le> a)"
    by (cases a; cases b) (auto simp: less_eq_group_version_def less_group_version_def)
  show "a \<le> a" by (simp add: less_eq_group_version_def)
  show "a \<le> b \<Longrightarrow> b \<le> c \<Longrightarrow> a \<le> c"
    by (cases a; cases b; cases c) (auto simp: less_eq_group_version_def)
  show "a \<le> b \<Longrightarrow> b \<le> a \<Longrightarrow> a = b"
    by (cases a; cases b) (auto simp: less_eq_group_version_def)
  show "a \<le> b \<or> b \<le> a"
    by (cases a; cases b) (auto simp: less_eq_group_version_def)
qed

end

section \<open>Discovery\<close>

record api_version =
  av_GroupVersion :: string
  av_Version :: string

record api_group =
  ag_Name :: string
  ag_Versions :: "api_version list"
  ag_Preferred :: api_version

record api_resource =
  ar_Name :: string
  ar_SingularName :: string
  ar_Namespaced :: bool
  ar_Group :: string
  ar_Version :: string
  ar_Kind :: string
  ar_Verbs :: "string list"
  ar_ShortNames :: "string list"
  ar_Categories :: "string list"

record Snapshot =
  sn_Groups :: "string \<rightharpoonup> api_group"
  sn_Resources :: "group_version \<rightharpoonup> api_resource list"

definition empty_snapshot :: Snapshot where
  "empty_snapshot = \<lparr>sn_Groups = Map.empty, sn_Resources = Map.empty\<rparr>"

lemma empty_snapshot_simps [simp]:
  "sn_Groups empty_snapshot = Map.empty" "sn_Resources empty_snapshot = Map.empty"
  by (simp_all add: empty_snapshot_def)

text \<open>
  What every consumer of a snapshot may rely on: a version that has resources belongs to a group
  that is there.
\<close>

definition coherent :: "Snapshot \<Rightarrow> bool" where
  "coherent s \<longleftrightarrow> (\<forall>gv\<in>dom (sn_Resources s). gv_Group gv \<in> dom (sn_Groups s))"

section \<open>Objects\<close>

record owner_reference =
  or_APIVersion :: string
  or_Kind :: string
  or_Name :: string

text \<open>
  An unstructured object: its kind, its metadata as far as the program reads it, and the rest.
\<close>

record k8s_object =
  ob_gvk :: group_version_kind
  ob_name :: string
  ob_resourceVersion :: string
  ob_owners :: "owner_reference list"
  ob_content :: string

section \<open>Custom resource definitions\<close>

record crd_version =
  cv_Name :: string
  cv_Served :: bool

record crd =
  crd_Name :: string
  crd_Group :: string
  crd_Kind :: string
  crd_Versions :: "crd_version list"
  crd_Conversion :: "string option"

end
