(* ===== verification/Group_Matcher.thy ===== *)
theory Group_Matcher
  imports Go_Strings "HOL-Library.Multiset"
begin

text \<open>
  \<open>pkg/kcp/groups.go\<close>: which API groups a workspace serves. A \<open>GroupMatcher\<close> is built by
  \<open>ParseGroupMatcher\<close> from the \<open>--api-group\<close> entries (exact names, domain wildcards,
  exclusions) and asked by \<open>Matches\<close>. The lemmas characterise \<open>Matches\<close> by the entries
  alone and show the restrictions on wildcards to be effective.
\<close>

section \<open>The matcher\<close>

record group_matcher =
  gm_exact :: "string set"
  gm_suffixes :: "string list"
  gm_excludedExact :: "string set"
  gm_excludedSuffixes :: "string list"

definition new_matcher :: group_matcher where
  "new_matcher = \<lparr>gm_exact = {}, gm_suffixes = [], gm_excludedExact = {}, gm_excludedSuffixes = []\<rparr>"

definition reservedSuffix :: string where
  "reservedSuffix = ''.k8s.io''"

datatype group_error =
    EmptyGroup
  | GroupWithVersion string
  | NotADomainWildcard string
  | SecondWildcard string
  | TooBroad string
  | CoversKubernetes string
  | NothingServed
  | EmptyExclusion
  | ExclusionWithVersion string
  | BadExclusion string

definition exclude :: "group_matcher \<Rightarrow> string \<Rightarrow> (group_error, group_matcher) result" where
  "exclude m pattern =
     (if pattern = [] then Err EmptyExclusion
      else if str_contains pattern ''/'' then Err (ExclusionWithVersion pattern)
      else if \<not> str_contains pattern ''*'' then
        Ok (m\<lparr>gm_excludedExact := insert pattern (gm_excludedExact m)\<rparr>)
      else if has_prefix pattern ''*.'' \<and> \<not> str_contains (drop 2 pattern) ''*'' then
        Ok (m\<lparr>gm_excludedSuffixes := gm_excludedSuffixes m @ [drop 1 pattern]\<rparr>)
      else Err (BadExclusion pattern))"

text \<open>The body of \<open>ParseGroupMatcher\<close>'s loop.\<close>

definition parse_pattern :: "group_matcher \<Rightarrow> string \<Rightarrow> (group_error, group_matcher) result" where
  "parse_pattern m pattern =
     (case cut_prefix pattern ''!'' of
        Some excluded \<Rightarrow> exclude m excluded
      | None \<Rightarrow>
          if pattern = [] then Err EmptyGroup
          else if str_contains pattern ''/'' then Err (GroupWithVersion pattern)
          else if \<not> str_contains pattern ''*'' then
            Ok (m\<lparr>gm_exact := insert pattern (gm_exact m)\<rparr>)
          else if \<not> has_prefix pattern ''*.'' then Err (NotADomainWildcard pattern)
          else
            let suffix = drop 1 pattern in
            if str_contains (drop 1 suffix) ''*'' then Err (SecondWildcard pattern)
            else if count_char suffix (CHR ''.'') < 2 then Err (TooBroad pattern)
            else if suffix = reservedSuffix \<or> has_suffix suffix reservedSuffix
              then Err (CoversKubernetes pattern)
            else Ok (m\<lparr>gm_suffixes := gm_suffixes m @ [suffix]\<rparr>))"

fun parse_patterns :: "group_matcher \<Rightarrow> string list \<Rightarrow> (group_error, group_matcher) result" where
  "parse_patterns m [] = Ok m"
| "parse_patterns m (p # ps) =
     (case parse_pattern m p of Err e \<Rightarrow> Err e | Ok m' \<Rightarrow> parse_patterns m' ps)"

text \<open>The methods take a pointer that may be nil, \<open>None\<close> here.\<close>

definition Empty :: "group_matcher option \<Rightarrow> bool" where
  "Empty mo = (case mo of None \<Rightarrow> True | Some m \<Rightarrow> gm_exact m = {} \<and> gm_suffixes m = [])"

definition ParseGroupMatcher :: "string list \<Rightarrow> (group_error, group_matcher) result" where
  "ParseGroupMatcher patterns =
     (case parse_patterns new_matcher patterns of
        Err e \<Rightarrow> Err e
      | Ok m \<Rightarrow> if Empty (Some m) then Err NothingServed else Ok m)"

fun suffix_hit :: "string \<Rightarrow> string list \<Rightarrow> bool" where
  "suffix_hit g [] = False"
| "suffix_hit g (s # rest) =
     (if has_suffix g s \<and> length s < length g then True
      else suffix_hit g rest)"

definition excluded :: "group_matcher \<Rightarrow> string \<Rightarrow> bool" where
  "excluded m g =
     (if g \<in> gm_excludedExact m then True else suffix_hit g (gm_excludedSuffixes m))"

definition Matches :: "group_matcher option \<Rightarrow> string \<Rightarrow> bool" where
  "Matches mo g =
     (case mo of None \<Rightarrow> False
      | Some m \<Rightarrow>
          if excluded m g then False
          else if g \<in> gm_exact m then True
          else suffix_hit g (gm_suffixes m))"

definition Exact :: "group_matcher option \<Rightarrow> string list" where
  "Exact mo =
     (case mo of None \<Rightarrow> []
      | Some m \<Rightarrow> filter (\<lambda>g. \<not> excluded m g) (sorted_list_of_set (gm_exact m)))"

definition matcher_parts :: "group_matcher \<Rightarrow> string list" where
  "matcher_parts m =
     sorted_list_of_set (gm_exact m)
     @ map (\<lambda>s. ''*'' @ s) (gm_suffixes m)
     @ map (\<lambda>g. ''!'' @ g) (sorted_list_of_set (gm_excludedExact m))
     @ map (\<lambda>s. ''!*'' @ s) (gm_excludedSuffixes m)"

definition matcher_String :: "group_matcher option \<Rightarrow> string" where
  "matcher_String mo = (case mo of None \<Rightarrow> [] | Some m \<Rightarrow> join '','' (matcher_parts m))"

section \<open>What an entry covers\<close>

text \<open>
  The specification: an entry covers a group by name, or by being a wildcard over a domain the
  group is strictly inside. A group is served when some inclusion covers it and no exclusion does.
\<close>

definition covers :: "string \<Rightarrow> string \<Rightarrow> bool" where
  "covers entry g \<longleftrightarrow>
     (if CHR ''*'' \<in> set entry
      then has_suffix g (drop 1 entry) \<and> length (drop 1 entry) < length g
      else entry = g)"

definition is_exclusion :: "string \<Rightarrow> bool" where
  "is_exclusion entry \<longleftrightarrow> has_prefix entry ''!''"

definition served_by :: "string set \<Rightarrow> string \<Rightarrow> bool" where
  "served_by entries g \<longleftrightarrow>
     (\<exists>e\<in>entries. \<not> is_exclusion e \<and> covers e g) \<and>
     \<not> (\<exists>e\<in>entries. is_exclusion e \<and> covers (drop 1 e) g)"

text \<open>Whether an entry is accepted does not depend on the entries before it.\<close>

definition entry_ok :: "string \<Rightarrow> bool" where
  "entry_ok e = is_ok (parse_pattern new_matcher e)"

lemma suffix_hit_iff:
  "suffix_hit g ss \<longleftrightarrow> (\<exists>s\<in>set ss. has_suffix g s \<and> length s < length g)"
  by (induction ss) auto

lemma cut_prefix_bang [simp]:
  "cut_prefix e ''!'' = (if is_exclusion e then Some (drop 1 e) else None)"
  by (simp add: cut_prefix_def is_exclusion_def)

lemma is_exclusion_Cons [simp]: "is_exclusion (c # cs) \<longleftrightarrow> c = CHR ''!''"
  by (auto simp: is_exclusion_def has_prefix_def)

lemma is_exclusion_Nil [simp]: "\<not> is_exclusion []"
  by (simp add: is_exclusion_def has_prefix_def)

lemma has_prefix_wild: "has_prefix e ''*.'' \<longleftrightarrow> (\<exists>s. e = CHR ''*'' # CHR ''.'' # s)"
  unfolding has_prefix_iff prefix_def by auto

text \<open>
  One successful step adds exactly one member to one of the four parts; which one is read off the
  entry.
\<close>

definition add_entry :: "string \<Rightarrow> group_matcher \<Rightarrow> group_matcher" where
  "add_entry e m =
     (if is_exclusion e then
        (if CHR ''*'' \<in> set e
         then m\<lparr>gm_excludedSuffixes := gm_excludedSuffixes m @ [drop 2 e]\<rparr>
         else m\<lparr>gm_excludedExact := insert (drop 1 e) (gm_excludedExact m)\<rparr>)
      else if CHR ''*'' \<in> set e then m\<lparr>gm_suffixes := gm_suffixes m @ [drop 1 e]\<rparr>
      else m\<lparr>gm_exact := insert e (gm_exact m)\<rparr>)"

lemma parse_pattern_ok: "parse_pattern m e = Ok m' \<Longrightarrow> m' = add_entry e m"
  by (cases e)
     (auto simp: parse_pattern_def exclude_def add_entry_def Let_def split: if_splits)

lemma parse_pattern_uniform:
  "is_ok (parse_pattern m e) \<longleftrightarrow> entry_ok e"
  by (auto simp: entry_ok_def parse_pattern_def exclude_def Let_def)

lemma parse_pattern_eq: "entry_ok e \<Longrightarrow> parse_pattern m e = Ok (add_entry e m)"
  using parse_pattern_uniform[of m e] parse_pattern_ok[of m e] by (auto simp: is_ok_iff)

lemma parse_patterns_ok_iff:
  "is_ok (parse_patterns m es) \<longleftrightarrow> (\<forall>e\<in>set es. entry_ok e)"
proof (induction es arbitrary: m)
  case Nil
  then show ?case by simp
next
  case (Cons e es)
  then show ?case
    using parse_pattern_uniform[of m e] by (cases "parse_pattern m e") auto
qed

lemma parse_patterns_fold:
  "\<forall>e\<in>set es. entry_ok e \<Longrightarrow> parse_patterns m es = Ok (fold add_entry es m)"
  by (induction es arbitrary: m) (auto simp: parse_pattern_eq)

lemma entry_ok_wild_inclusion:
  "entry_ok e \<Longrightarrow> \<not> is_exclusion e \<Longrightarrow> CHR ''*'' \<in> set e \<Longrightarrow>
   \<exists>s. e = CHR ''*'' # CHR ''.'' # s \<and> CHR ''*'' \<notin> set s \<and> 1 \<le> count_list s (CHR ''.'') \<and>
       \<not> has_suffix (CHR ''.'' # s) reservedSuffix"
  by (auto simp: entry_ok_def parse_pattern_def Let_def count_char_def has_prefix_wild split: if_splits)

lemma entry_ok_wild_exclusion:
  "entry_ok e \<Longrightarrow> is_exclusion e \<Longrightarrow> CHR ''*'' \<in> set e \<Longrightarrow>
   \<exists>s. e = CHR ''!'' # CHR ''*'' # CHR ''.'' # s \<and> CHR ''*'' \<notin> set s"
  by (cases e)
     (auto simp: entry_ok_def parse_pattern_def exclude_def has_prefix_wild split: if_splits)

section \<open>The parts of a parsed matcher\<close>

lemma fold_add_entry_parts:
  "gm_exact (fold add_entry es m) =
     gm_exact m \<union> {e \<in> set es. \<not> is_exclusion e \<and> CHR ''*'' \<notin> set e}"
  "gm_suffixes (fold add_entry es m) =
     gm_suffixes m @ map (drop 1) (filter (\<lambda>e. \<not> is_exclusion e \<and> CHR ''*'' \<in> set e) es)"
  "gm_excludedExact (fold add_entry es m) =
     gm_excludedExact m \<union> drop 1 ` {e \<in> set es. is_exclusion e \<and> CHR ''*'' \<notin> set e}"
  "gm_excludedSuffixes (fold add_entry es m) =
     gm_excludedSuffixes m @ map (drop 2) (filter (\<lambda>e. is_exclusion e \<and> CHR ''*'' \<in> set e) es)"
  by (induction es arbitrary: m) (auto simp: add_entry_def)

lemma ParseGroupMatcher_fold:
  "ParseGroupMatcher es = Ok m \<Longrightarrow>
   (\<forall>e\<in>set es. entry_ok e) \<and> m = fold add_entry es new_matcher \<and> \<not> Empty (Some m)"
  using parse_patterns_ok_iff[of new_matcher es] parse_patterns_fold[of es new_matcher]
  by (auto simp: ParseGroupMatcher_def split: sum.splits if_splits)

lemma ParseGroupMatcher_ok_iff:
  "is_ok (ParseGroupMatcher es) \<longleftrightarrow>
     (\<forall>e\<in>set es. entry_ok e) \<and> (\<exists>e\<in>set es. \<not> is_exclusion e)"
proof (cases "\<forall>e\<in>set es. entry_ok e")
  case True
  then have "ParseGroupMatcher es =
    (if Empty (Some (fold add_entry es new_matcher)) then Err NothingServed
     else Ok (fold add_entry es new_matcher))"
    by (simp add: ParseGroupMatcher_def parse_patterns_fold)
  moreover have "Empty (Some (fold add_entry es new_matcher)) \<longleftrightarrow> (\<forall>e\<in>set es. is_exclusion e)"
    by (auto simp: Empty_def fold_add_entry_parts new_matcher_def filter_empty_conv)
  ultimately show ?thesis using True by auto
next
  case False
  then have "\<not> is_ok (parse_patterns new_matcher es)"
    by (simp add: parse_patterns_ok_iff)
  then obtain e where "parse_patterns new_matcher es = Err e"
    by (cases "parse_patterns new_matcher es") auto
  with False show ?thesis by (auto simp: ParseGroupMatcher_def)
qed

lemma covers_exclusion:
  "is_exclusion e \<Longrightarrow> covers (drop (Suc 0) e) g \<longleftrightarrow>
     (if CHR ''*'' \<in> set e then has_suffix g (drop 2 e) \<and> length (drop 2 e) < length g
      else drop (Suc 0) e = g)"
  by (cases e) (auto simp: covers_def numeral_2_eq_2)

lemma exclusion_members:
  assumes "\<forall>e\<in>set es. entry_ok e"
  shows "excluded (fold add_entry es new_matcher) g \<longleftrightarrow>
         (\<exists>e\<in>set es. is_exclusion e \<and> covers (drop 1 e) g)"
proof -
  let ?E = "{e \<in> set es. is_exclusion e}"
  have "excluded (fold add_entry es new_matcher) g \<longleftrightarrow>
    (\<exists>e\<in>?E. CHR ''*'' \<notin> set e \<and> drop 1 e = g) \<or>
    (\<exists>e\<in>?E. CHR ''*'' \<in> set e \<and> has_suffix g (drop 2 e) \<and> length (drop 2 e) < length g)"
    by (auto simp: excluded_def suffix_hit_iff fold_add_entry_parts new_matcher_def)
  also have "\<dots> \<longleftrightarrow> (\<exists>e\<in>?E. covers (drop 1 e) g)"
    by (auto simp: covers_exclusion simp del: drop_drop split: if_splits)
  finally show ?thesis by auto
qed

lemma Matches_served_by:
  assumes "ParseGroupMatcher es = Ok m"
  shows "Matches (Some m) g \<longleftrightarrow> served_by (set es) g"
proof -
  from ParseGroupMatcher_fold[OF assms]
  have ok: "\<forall>e\<in>set es. entry_ok e" and m: "m = fold add_entry es new_matcher" by auto
  have "g \<in> gm_exact m \<or> suffix_hit g (gm_suffixes m) \<longleftrightarrow>
        (\<exists>e\<in>set es. \<not> is_exclusion e \<and> covers e g)"
    by (auto simp: m suffix_hit_iff fold_add_entry_parts new_matcher_def covers_def)
  then show ?thesis
    using exclusion_members[OF ok, of g] by (auto simp: Matches_def served_by_def m)
qed

lemma ParseGroupMatcher_set_cong:
  "set es = set fs \<Longrightarrow> is_ok (ParseGroupMatcher es) = is_ok (ParseGroupMatcher fs)"
  by (simp add: ParseGroupMatcher_ok_iff)

lemma finite_matcher:
  "ParseGroupMatcher es = Ok m \<Longrightarrow> finite (gm_exact m) \<and> finite (gm_excludedExact m)"
  using ParseGroupMatcher_fold[of es m] by (auto simp: fold_add_entry_parts new_matcher_def)


section \<open>Rendering and re-reading\<close>

definition wf_matcher :: "group_matcher \<Rightarrow> bool" where
  "wf_matcher m \<longleftrightarrow>
     finite (gm_exact m) \<and> finite (gm_excludedExact m) \<and>
     (\<forall>e\<in>gm_exact m. \<not> is_exclusion e \<and> CHR ''*'' \<notin> set e) \<and>
     (\<forall>e\<in>gm_excludedExact m. CHR ''*'' \<notin> set e)"

lemma parsed_wf [wf_intros]: "ParseGroupMatcher es = Ok m \<Longrightarrow> wf_matcher m"
proof -
  assume "ParseGroupMatcher es = Ok m"
  from ParseGroupMatcher_fold[OF this] have "m = fold add_entry es new_matcher" by simp
  moreover have "CHR ''*'' \<notin> set e \<Longrightarrow> CHR ''*'' \<notin> set (drop (Suc 0) e)" for e
    by (cases e) auto
  ultimately show ?thesis
    by (auto simp: wf_matcher_def fold_add_entry_parts new_matcher_def)
qed

lemma filter_matcher_parts:
  assumes "wf_matcher m"
  shows "filter (\<lambda>e. \<not> is_exclusion e \<and> CHR ''*'' \<in> set e) (matcher_parts m) = map (\<lambda>s. ''*'' @ s) (gm_suffixes m)"
    and "filter (\<lambda>e. is_exclusion e \<and> CHR ''*'' \<in> set e) (matcher_parts m) = map (\<lambda>s. ''!*'' @ s) (gm_excludedSuffixes m)"
    and "{e \<in> set (matcher_parts m). \<not> is_exclusion e \<and> CHR ''*'' \<notin> set e} = gm_exact m"
    and "{e \<in> set (matcher_parts m). is_exclusion e \<and> CHR ''*'' \<notin> set e} = (\<lambda>g. CHR ''!'' # g) ` gm_excludedExact m"
  using assms by (auto simp: matcher_parts_def wf_matcher_def filter_empty_conv filter_id_conv image_iff)

lemma fold_matcher_parts: "wf_matcher m \<Longrightarrow> fold add_entry (matcher_parts m) new_matcher = m"
  by (rule group_matcher.equality)
     (simp_all add: fold_add_entry_parts new_matcher_def filter_matcher_parts comp_def image_image)

lemma set_matcher_parts:
  assumes "ParseGroupMatcher es = Ok m"
  shows "set (matcher_parts m) = set es"
proof -
  from ParseGroupMatcher_fold[OF assms]
  have ok: "\<forall>e\<in>set es. entry_ok e" and m: "m = fold add_entry es new_matcher" by auto
  have fin: "finite (gm_exact m)" "finite (gm_excludedExact m)"
    using finite_matcher[OF assms] by auto
  have wild: "''*'' @ drop (Suc 0) e = e" if "e \<in> set es" "\<not> is_exclusion e" "CHR ''*'' \<in> set e" for e
    using entry_ok_wild_inclusion[of e] ok that by auto
  have notwild: "''!*'' @ drop 2 e = e" if "e \<in> set es" "is_exclusion e" "CHR ''*'' \<in> set e" for e
    using entry_ok_wild_exclusion[of e] ok that by auto
  have bang: "CHR ''!'' # drop (Suc 0) e = e" if "is_exclusion e" for e
    using that by (cases e) auto
  have "set (matcher_parts m) =
      {e \<in> set es. \<not> is_exclusion e \<and> CHR ''*'' \<notin> set e}
    \<union> (\<lambda>e. ''*'' @ drop (Suc 0) e) ` {e \<in> set es. \<not> is_exclusion e \<and> CHR ''*'' \<in> set e}
    \<union> (\<lambda>e. CHR ''!'' # drop (Suc 0) e) ` {e \<in> set es. is_exclusion e \<and> CHR ''*'' \<notin> set e}
    \<union> (\<lambda>e. ''!*'' @ drop 2 e) ` {e \<in> set es. is_exclusion e \<and> CHR ''*'' \<in> set e}"
    using fin by (auto simp: matcher_parts_def m fold_add_entry_parts new_matcher_def)
  also have "\<dots> = set es"
    using wild notwild bang by (auto simp: image_iff)
  finally show ?thesis .
qed

lemma reparse_parts:
  "ParseGroupMatcher es = Ok m \<Longrightarrow> ParseGroupMatcher (matcher_parts m) = Ok m"
proof -
  assume p: "ParseGroupMatcher es = Ok m"
  from ParseGroupMatcher_fold[OF p] have ne: "\<not> Empty (Some m)" by blast
  have "\<forall>e\<in>set (matcher_parts m). entry_ok e"
    using ParseGroupMatcher_fold[OF p] set_matcher_parts[OF p] by simp
  then have "parse_patterns new_matcher (matcher_parts m) = Ok m"
    using parse_patterns_fold fold_matcher_parts[OF parsed_wf[OF p]] by metis
  with ne show ?thesis by (simp add: ParseGroupMatcher_def)
qed

lemma wildcard_avoids_reserved:
  assumes "entry_ok e" and "\<not> is_exclusion e" and "CHR ''*'' \<in> set e"
  shows "\<not> (has_suffix g (drop 1 e) \<and> has_suffix g reservedSuffix)"
proof
  assume h: "has_suffix g (drop 1 e) \<and> has_suffix g reservedSuffix"
  from entry_ok_wild_inclusion[OF assms] obtain s where
    e: "drop 1 e = CHR ''.'' # s" and two: "1 \<le> count_list s (CHR ''.'')" and
    nres: "\<not> has_suffix (CHR ''.'' # s) reservedSuffix" by auto
  show False
  proof (cases "length reservedSuffix \<le> length (CHR ''.'' # s)")
    case True
    with h e nres show ?thesis using has_suffix_linear[of g reservedSuffix] by auto
  next
    case False
    with h e have "has_suffix reservedSuffix (CHR ''.'' # s)"
      using has_suffix_linear[of g "CHR ''.'' # s" reservedSuffix] by auto
    then have "s = ''k8s.io'' \<or> s = ''io''"
      by (auto simp: has_suffix_iff reservedSuffix_def suffix_Cons)
    with two nres show ?thesis by (auto simp: reservedSuffix_def has_suffix_def)
  qed
qed

section \<open>Properties\<close>

text \<open>
  What is served is decided by the entries alone: a group is matched exactly when some
  inclusion (an exact name, or a wildcard over a domain strictly above it) covers it and no
  exclusion does.
\<close>
theorem Matches_by_entries:
  assumes "ParseGroupMatcher es = Ok m"
  shows "Matches (Some m) g \<longleftrightarrow> served_by (set es) g"
  using assms by (rule Matches_served_by)

theorem Matches_by_entries_witness:
  "\<exists>m. ParseGroupMatcher [''*.example.com'', ''!*.in.example.com''] = Ok m \<and>
       Matches (Some m) ''a.example.com'' = served_by {''*.example.com'', ''!*.in.example.com''} ''a.example.com'' \<and>
       Matches (Some m) ''a.example.com'' \<and> \<not> Matches (Some m) ''a.in.example.com''"
proof -
  let ?m = "\<lparr>gm_exact = {}, gm_suffixes = [''.example.com''], gm_excludedExact = {},
             gm_excludedSuffixes = [''.in.example.com'']\<rparr>"
  have p: "ParseGroupMatcher [''*.example.com'', ''!*.in.example.com''] = Ok ?m" by code_simp
  have "Matches (Some ?m) ''a.example.com''" and "\<not> Matches (Some ?m) ''a.in.example.com''"
    by code_simp+
  with p Matches_by_entries[OF p, of "''a.example.com''"] show ?thesis by auto
qed

text \<open>
  The order of the entries does not matter, and neither does repeating one: two lists with the
  same entries are both accepted or both refused, and serve the same groups.
\<close>
theorem entry_order_irrelevant:
  assumes "set es = set fs" and "ParseGroupMatcher es = Ok m"
  shows "\<exists>m'. ParseGroupMatcher fs = Ok m' \<and> Matches (Some m') = Matches (Some m)"
proof -
  have "is_ok (ParseGroupMatcher fs)"
    using ParseGroupMatcher_set_cong[OF assms(1)] assms(2) by simp
  then obtain m' where m': "ParseGroupMatcher fs = Ok m'" by (auto simp: is_ok_iff)
  have "Matches (Some m') = Matches (Some m)"
    using Matches_served_by[OF m'] Matches_served_by[OF assms(2)] assms(1) by auto
  with m' show ?thesis by blast
qed

theorem entry_order_irrelevant_witness:
  "\<exists>m m'. ParseGroupMatcher [''!b.c.d'', ''*.c.d''] = Ok m \<and>
          ParseGroupMatcher [''*.c.d'', ''!b.c.d'', ''*.c.d''] = Ok m' \<and>
          Matches (Some m') = Matches (Some m)"
proof -
  let ?m = "\<lparr>gm_exact = {}, gm_suffixes = [''.c.d''], gm_excludedExact = {''b.c.d''},
             gm_excludedSuffixes = []\<rparr>"
  have p: "ParseGroupMatcher [''!b.c.d'', ''*.c.d''] = Ok ?m" by code_simp
  have s: "set [''!b.c.d'', ''*.c.d''] = set [''*.c.d'', ''!b.c.d'', ''*.c.d'']" by auto
  show ?thesis using entry_order_irrelevant[OF s p] p by blast
qed

text \<open>
  C31. No wildcard reaches Kubernetes' own API groups: a group under \<open>.k8s.io\<close> is served only
  when the configuration names it outright, whatever wildcards it holds.
\<close>
theorem kubernetes_groups_only_by_name:
  assumes "ParseGroupMatcher es = Ok m" and "has_suffix g reservedSuffix" and "Matches (Some m) g"
  shows "g \<in> set es"
proof -
  from Matches_served_by[OF assms(1)] assms(3) obtain e where
    e: "e \<in> set es" "\<not> is_exclusion e" "covers e g" by (auto simp: served_by_def)
  have "entry_ok e" using ParseGroupMatcher_fold[OF assms(1)] e(1) by auto
  then have "CHR ''*'' \<notin> set e"
    using wildcard_avoids_reserved[OF _ e(2)] assms(2) e(3) by (auto simp: covers_def)
  with e show ?thesis by (simp add: covers_def)
qed

theorem kubernetes_groups_only_by_name_witness:
  "\<exists>m. ParseGroupMatcher [''x.k8s.io'', ''*.example.com''] = Ok m \<and>
       Matches (Some m) ''x.k8s.io'' \<and> ''x.k8s.io'' \<in> set [''x.k8s.io'', ''*.example.com'']"
proof -
  let ?m = "\<lparr>gm_exact = {''x.k8s.io''}, gm_suffixes = [''.example.com''], gm_excludedExact = {},
             gm_excludedSuffixes = []\<rparr>"
  have p: "ParseGroupMatcher [''x.k8s.io'', ''*.example.com''] = Ok ?m" by code_simp
  have k: "has_suffix ''x.k8s.io'' reservedSuffix" and q: "Matches (Some ?m) ''x.k8s.io''"
    by code_simp+
  show ?thesis using kubernetes_groups_only_by_name[OF p k q] p q by blast
qed

lemma split_matcher_String:
  assumes "ParseGroupMatcher es = Ok m" and "\<forall>e\<in>set es. CHR '','' \<notin> set e"
  shows "split_on (CHR '','') (matcher_String (Some m)) = matcher_parts m"
proof -
  have s: "set (matcher_parts m) = set es" using assms(1) by (rule set_matcher_parts)
  have "es \<noteq> []" using ParseGroupMatcher_ok_iff[of es] assms(1) by auto
  with s have "matcher_parts m \<noteq> []" by auto
  with s assms(2) show ?thesis by (simp add: matcher_String_def split_on_join)
qed



text \<open>
  The groups whose absence is reported are exactly the ones named outright and not excluded:
  the list is sorted, without repetition, and everything on it is matched.
\<close>
theorem Exact_reports_named_groups:
  assumes "ParseGroupMatcher es = Ok m"
  shows "sorted (Exact (Some m)) \<and> distinct (Exact (Some m)) \<and>
         set (Exact (Some m)) = {g \<in> gm_exact m. Matches (Some m) g}"
  using finite_matcher[OF assms] by (auto simp: Exact_def Matches_def sorted_wrt_filter)

theorem Exact_reports_named_groups_witness:
  "\<exists>m. ParseGroupMatcher [''b'', ''a'', ''c'', ''!c''] = Ok m \<and> Exact (Some m) = [''a'', ''b''] \<and>
       set (Exact (Some m)) = {g \<in> gm_exact m. Matches (Some m) g}"
proof -
  let ?m = "\<lparr>gm_exact = {''a'', ''b'', ''c''}, gm_suffixes = [], gm_excludedExact = {''c''},
             gm_excludedSuffixes = []\<rparr>"
  have p: "ParseGroupMatcher [''b'', ''a'', ''c'', ''!c''] = Ok ?m" by code_simp
  have "Exact (Some ?m) = [''a'', ''b'']" by code_simp
  then show ?thesis using Exact_reports_named_groups[OF p] p by blast
qed

end
