(* ===== verification/Watch.thy ===== *)
theory Watch
  imports K8s Group_Matcher
begin

text \<open>
  \<open>pkg/kcp/watch.go\<close>: the signal that a workspace's API surface may have changed. The informers
  and the clients are client-go's; here they are a record of what building each one answers, and
  the sequence of events they deliver. The channel has room for one signal.
\<close>

section \<open>Events and the channel\<close>

datatype informer_obj = CRDObj crd | Tombstone informer_obj | OtherObj

fun crdFrom :: "informer_obj \<Rightarrow> crd option" where
  "crdFrom (CRDObj c) = Some c"
| "crdFrom (Tombstone obj) = (case obj of CRDObj c \<Rightarrow> Some c | _ \<Rightarrow> None)"
| "crdFrom OtherObj = None"

record signal_chan =
  ch_cap :: nat
  ch_pending :: nat

definition make_chan :: signal_chan where
  "make_chan = \<lparr>ch_cap = 1, ch_pending = 0\<rparr>"

text \<open>A send with a default branch: nothing happens when the channel is full.\<close>

definition try_send :: "signal_chan \<Rightarrow> signal_chan" where
  "try_send ch = (if ch_pending ch < ch_cap ch then ch\<lparr>ch_pending := ch_pending ch + 1\<rparr> else ch)"

definition receive :: "signal_chan \<Rightarrow> signal_chan option" where
  "receive ch = (if ch_pending ch = 0 then None else Some (ch\<lparr>ch_pending := ch_pending ch - 1\<rparr>))"

definition crd_notify :: "group_matcher \<Rightarrow> informer_obj \<Rightarrow> signal_chan \<Rightarrow> signal_chan" where
  "crd_notify owned obj ch =
     (case crdFrom obj of None \<Rightarrow> ch
      | Some c \<Rightarrow> if \<not> Matches (Some owned) (crd_Group c) then ch else try_send ch)"

definition binding_notify :: "informer_obj \<Rightarrow> signal_chan \<Rightarrow> signal_chan" where
  "binding_notify obj ch = try_send ch"

text \<open>
  What can happen to the channel: an event of either informer, or \<open>Run\<close> taking the signal (which
  it can only do when there is one).
\<close>

datatype watch_event = CRDEvent informer_obj | BindingEvent informer_obj | Taken

definition watch_step :: "group_matcher \<Rightarrow> watch_event \<Rightarrow> signal_chan \<Rightarrow> signal_chan" where
  "watch_step owned e ch =
     (case e of CRDEvent obj \<Rightarrow> crd_notify owned obj ch
      | BindingEvent obj \<Rightarrow> binding_notify obj ch
      | Taken \<Rightarrow> (case receive ch of None \<Rightarrow> ch | Some ch' \<Rightarrow> ch'))"

section \<open>Setting the watches up\<close>

definition bindingsResource :: group_version_resource where
  "bindingsResource = GVR ''apis.kcp.io'' ''v1alpha2'' ''apibindings''"

text \<open>What client-go answers when asked for each client and handler: an error, or nothing.\<close>

record watch_clients =
  wc_extensions :: "string option"
  wc_crdHandler :: "string option"
  wc_dynamic :: "string option"
  wc_discovery :: "string option"
  wc_resources :: "string \<Rightarrow> (string, api_resource list) result"
  wc_bindingHandler :: "string option"

datatype watch_error =
    ExtensionsClient string
  | WatchingCRDs string
  | DynamicClient string
  | DiscoveryClient string
  | LookingForBindings string
  | BindingsNotServed
  | WatchingBindings string

definition watchBindings :: "watch_clients \<Rightarrow> (watch_error, unit) result" where
  "watchBindings wc =
     (case wc_dynamic wc of Some e \<Rightarrow> Err (DynamicClient e)
      | None \<Rightarrow>
     (case wc_discovery wc of Some e \<Rightarrow> Err (DiscoveryClient e)
      | None \<Rightarrow>
     (case wc_resources wc (gv_String (GV (gvr_Group bindingsResource) (gvr_Version bindingsResource))) of
        Err e \<Rightarrow> Err (LookingForBindings e)
      | Ok rs \<Rightarrow>
          if \<not> (\<exists>r\<in>set rs. ar_Name r = gvr_Resource bindingsResource) then Err BindingsNotServed
          else (case wc_bindingHandler wc of Some e \<Rightarrow> Err (WatchingBindings e) | None \<Rightarrow> Ok ()))))"

definition watchCRDs :: "watch_clients \<Rightarrow> (watch_error, signal_chan) result" where
  "watchCRDs wc =
     (case wc_crdHandler wc of Some e \<Rightarrow> Err (WatchingCRDs e) | None \<Rightarrow> Ok make_chan)"

text \<open>The channel, and whether bindings are watched as well.\<close>

definition WatchCRDs :: "watch_clients \<Rightarrow> (watch_error, signal_chan \<times> bool) result" where
  "WatchCRDs wc =
     (case wc_extensions wc of Some e \<Rightarrow> Err (ExtensionsClient e)
      | None \<Rightarrow>
     (case watchCRDs wc of Err e \<Rightarrow> Err e
      | Ok ch \<Rightarrow> (case watchBindings wc of Err _ \<Rightarrow> Ok (ch, False) | Ok _ \<Rightarrow> Ok (ch, True))))"

section \<open>Facts\<close>

definition concerns :: "group_matcher \<Rightarrow> watch_event \<Rightarrow> bool" where
  "concerns owned e \<longleftrightarrow>
     (case e of
        CRDEvent obj \<Rightarrow>
          (\<exists>c. Matches (Some owned) (crd_Group c) \<and> (obj = CRDObj c \<or> obj = Tombstone (CRDObj c)))
      | BindingEvent _ \<Rightarrow> True
      | Taken \<Rightarrow> False)"

lemma crdFrom_iff: "crdFrom obj = Some c \<longleftrightarrow> obj = CRDObj c \<or> obj = Tombstone (CRDObj c)"
  by (induction obj rule: crdFrom.induct) (auto split: informer_obj.splits)

lemma crd_notify_concerns:
  "crd_notify owned obj ch = (if concerns owned (CRDEvent obj) then try_send ch else ch)"
proof (cases "crdFrom obj")
  case None
  then have "\<not> concerns owned (CRDEvent obj)"
    using crdFrom_iff[of obj] by (auto simp: concerns_def)
  with None show ?thesis by (simp add: crd_notify_def)
next
  case (Some c)
  then have "concerns owned (CRDEvent obj) \<longleftrightarrow> Matches (Some owned) (crd_Group c)"
    using crdFrom_iff[of obj] by (auto simp: concerns_def)
  with Some show ?thesis by (simp add: crd_notify_def)
qed

lemma watch_step_spec:
  "ch_cap ch = 1 \<Longrightarrow> ch_pending ch \<le> 1 \<Longrightarrow>
   watch_step owned e ch =
     ch\<lparr>ch_pending := (if e = Taken then 0 else if concerns owned e then 1 else ch_pending ch)\<rparr>"
  by (cases e)
     (auto simp: watch_step_def crd_notify_concerns binding_notify_def try_send_def receive_def
        concerns_def)

definition since_taken :: "watch_event list \<Rightarrow> watch_event list" where
  "since_taken es = rev (takeWhile (\<lambda>e. e \<noteq> Taken) (rev es))"

lemma watch_run:
  "fold (watch_step owned) es make_chan =
     make_chan\<lparr>ch_pending := (if \<exists>e\<in>set (since_taken es). concerns owned e then 1 else 0)\<rparr>"
proof (induction es rule: rev_induct)
  case Nil
  then show ?case by (simp add: since_taken_def make_chan_def)
next
  case (snoc e es)
  then show ?case
    using watch_step_spec[of "fold (watch_step owned) es make_chan" owned e]
    by (cases "e = Taken") (auto simp: since_taken_def make_chan_def)
qed

section \<open>Properties\<close>

text \<open>
  C35. A burst of events is one refresh and no event is lost: whatever the informers deliver and
  whenever the signal is taken, at most one signal is pending, and one is pending exactly when,
  since it was last taken, some APIBinding moved or some definition (or its tombstone) of an owned
  group did.
\<close>
theorem signals_coalesce_without_loss:
  "ch_pending (fold (watch_step owned) es make_chan) =
     (if \<exists>e\<in>set (since_taken es). concerns owned e then 1 else 0)"
  by (simp add: watch_run)

text \<open>
  Being unable to watch APIBindings never stops a workspace: the watch is set up exactly when
  the definitions can be watched, and bindings are watched as well exactly when the workspace
  serves them and their informer can be had.
\<close>
theorem bindings_are_optional:
  "(is_ok (WatchCRDs wc) \<longleftrightarrow> wc_extensions wc = None \<and> wc_crdHandler wc = None) \<and>
   ((\<exists>ch. WatchCRDs wc = Ok (ch, True)) \<longleftrightarrow>
      is_ok (WatchCRDs wc) \<and> wc_dynamic wc = None \<and> wc_discovery wc = None \<and>
      wc_bindingHandler wc = None \<and>
      (\<exists>rs. wc_resources wc ''apis.kcp.io/v1alpha2'' = Ok rs \<and> (\<exists>r\<in>set rs. ar_Name r = ''apibindings'')))"
proof -
  have gv: "gv_String (GV (gvr_Group bindingsResource) (gvr_Version bindingsResource)) =
      ''apis.kcp.io/v1alpha2''" and nm: "gvr_Resource bindingsResource = ''apibindings''"
    by (simp_all add: bindingsResource_def gv_String_def)
  have w: "is_ok (WatchCRDs wc) \<longleftrightarrow> wc_extensions wc = None \<and> wc_crdHandler wc = None"
    by (auto simp: WatchCRDs_def watchCRDs_def split: option.splits sum.splits)
  have b: "watchBindings wc = Ok () \<longleftrightarrow>
      wc_dynamic wc = None \<and> wc_discovery wc = None \<and> wc_bindingHandler wc = None \<and>
      (\<exists>rs. wc_resources wc ''apis.kcp.io/v1alpha2'' = Ok rs \<and> (\<exists>r\<in>set rs. ar_Name r = ''apibindings''))"
    by (auto simp: watchBindings_def gv nm split: option.splits sum.splits)
  have "(\<exists>ch. WatchCRDs wc = Ok (ch, True)) \<longleftrightarrow> is_ok (WatchCRDs wc) \<and> watchBindings wc = Ok ()"
    by (auto simp: WatchCRDs_def watchCRDs_def split: option.splits sum.splits)
  with w b show ?thesis by simp
qed

end
