(* ===== verification/Metrics.thy ===== *)
theory Metrics
  imports Prelude
begin

text \<open>
  \<open>pkg/kcp/metrics.go\<close>: the metric vectors as one record, a counter as a total function of
  its labels, a gauge as a partial one (a series exists once it is set), a histogram as the list of
  what was observed. The registry they are registered with is the component-base library's: its
  \<open>MustRegister\<close> is a parameter, that panics or answers the registry it leaves.
\<close>

record metrics =
  refreshTotal :: "string \<times> string \<Rightarrow> nat"
  refreshDuration :: "string \<Rightarrow> duration list"
  lastSuccessTimestamp :: "string \<rightharpoonup> time"
  groupServed :: "string \<rightharpoonup> nat"
  proxyRequests :: "string \<times> string \<times> string \<times> string \<Rightarrow> nat"
  proxyDuration :: "string \<times> string \<times> string \<Rightarrow> duration list"
  proxyErrors :: "string \<times> string \<times> string \<times> string \<Rightarrow> nat"
  proxyRetries :: "string \<Rightarrow> nat"
  apiServiceSyncs :: "string \<Rightarrow> nat"
  apiServicesManaged :: nat
  credentialReloads :: "string \<times> string \<Rightarrow> nat"
  workspaceReloads :: "string \<Rightarrow> nat"
  circuitStates :: "string \<times> string \<rightharpoonup> nat"

definition no_metrics :: metrics where
  "no_metrics = \<lparr>refreshTotal = (\<lambda>_. 0), refreshDuration = (\<lambda>_. []),
     lastSuccessTimestamp = Map.empty, groupServed = Map.empty,
     proxyRequests = (\<lambda>_. 0), proxyDuration = (\<lambda>_. []), proxyErrors = (\<lambda>_. 0),
     proxyRetries = (\<lambda>_. 0), apiServiceSyncs = (\<lambda>_. 0), apiServicesManaged = 0,
     credentialReloads = (\<lambda>_. 0), workspaceReloads = (\<lambda>_. 0), circuitStates = Map.empty\<rparr>"

text \<open>\<open>WithLabelValues(..).Inc()\<close> and \<open>WithLabelValues(..).Observe(..)\<close>.\<close>

definition inc :: "'l \<Rightarrow> ('l \<Rightarrow> nat) \<Rightarrow> 'l \<Rightarrow> nat" where
  "inc l c = c(l := c l + 1)"

definition observe :: "'l \<Rightarrow> 'v \<Rightarrow> ('l \<Rightarrow> 'v list) \<Rightarrow> 'l \<Rightarrow> 'v list" where
  "observe l v h = h(l := h l @ [v])"

lemma inc_apply [simp]: "inc l c k = (if k = l then c k + 1 else c k)"
  by (simp add: inc_def)

definition ObserveProxyRequest ::
    "string \<Rightarrow> string \<Rightarrow> string \<Rightarrow> string \<Rightarrow> duration \<Rightarrow> metrics \<Rightarrow> metrics" where
  "ObserveProxyRequest ws verb res code d mx =
     mx\<lparr>proxyRequests := inc (ws, verb, res, code) (proxyRequests mx),
        proxyDuration := observe (ws, verb, res) d (proxyDuration mx)\<rparr>"

definition ObserveProxyError :: "string \<Rightarrow> string \<Rightarrow> string \<Rightarrow> string \<Rightarrow> metrics \<Rightarrow> metrics" where
  "ObserveProxyError ws reason verb res mx =
     mx\<lparr>proxyErrors := inc (ws, reason, verb, res) (proxyErrors mx)\<rparr>"

definition ObserveProxyRetry :: "string \<Rightarrow> metrics \<Rightarrow> metrics" where
  "ObserveProxyRetry ws mx = mx\<lparr>proxyRetries := inc ws (proxyRetries mx)\<rparr>"

definition ObserveAPIServiceSync :: "string \<Rightarrow> nat \<Rightarrow> metrics \<Rightarrow> metrics" where
  "ObserveAPIServiceSync result managed mx =
     (let mx' = mx\<lparr>apiServiceSyncs := inc result (apiServiceSyncs mx)\<rparr>
      in if result = ''success'' then mx'\<lparr>apiServicesManaged := managed\<rparr> else mx')"

definition ObserveCredentialReload :: "string \<Rightarrow> string \<Rightarrow> metrics \<Rightarrow> metrics" where
  "ObserveCredentialReload ws result mx =
     mx\<lparr>credentialReloads := inc (ws, result) (credentialReloads mx)\<rparr>"

definition ObserveWorkspaceReload :: "string \<Rightarrow> metrics \<Rightarrow> metrics" where
  "ObserveWorkspaceReload result mx =
     mx\<lparr>workspaceReloads := inc result (workspaceReloads mx)\<rparr>"

fun set_states :: "string \<Rightarrow> string \<Rightarrow> string list \<Rightarrow> metrics \<Rightarrow> metrics" where
  "set_states ws state [] mx = mx"
| "set_states ws state (known # rest) mx =
     set_states ws state rest
       (mx\<lparr>circuitStates := (circuitStates mx)((ws, known) \<mapsto> (if known = state then 1 else 0))\<rparr>)"

definition SetCircuitState :: "string \<Rightarrow> string \<Rightarrow> metrics \<Rightarrow> metrics" where
  "SetCircuitState ws state mx = set_states ws state [''closed'', ''open'', ''half-open''] mx"

definition PublishWorkspace :: "string \<Rightarrow> metrics \<Rightarrow> metrics" where
  "PublishWorkspace ws mx = SetCircuitState ws ''closed'' mx"

text \<open>The gauge of a workspace shows exactly the state named.\<close>

definition gauge_shows :: "string \<Rightarrow> string \<Rightarrow> metrics \<Rightarrow> bool" where
  "gauge_shows ws state mx \<longleftrightarrow>
     (\<forall>known\<in>{''closed'', ''open'', ''half-open''}.
        circuitStates mx (ws, known) = Some (if known = state then 1 else 0))"

lemma gauge_after_set [simp]: "gauge_shows ws state (SetCircuitState ws state mx)"
  by (simp add: gauge_shows_def SetCircuitState_def)

lemma gauge_after_publish [simp]: "gauge_shows ws ''closed'' (PublishWorkspace ws mx)"
  by (simp add: PublishWorkspace_def)

lemma gauge_other_workspace [simp]:
  "ws \<noteq> ws' \<Longrightarrow> gauge_shows ws state (SetCircuitState ws' s mx) = gauge_shows ws state mx"
  by (simp add: gauge_shows_def SetCircuitState_def)

lemma gauge_frame [frame_simps]:
  "gauge_shows ws s (ObserveProxyRequest a b c d e mx) = gauge_shows ws s mx"
  "gauge_shows ws s (ObserveProxyError a b c f mx) = gauge_shows ws s mx"
  "gauge_shows ws s (ObserveProxyRetry a mx) = gauge_shows ws s mx"
  "gauge_shows ws s (ObserveAPIServiceSync a n mx) = gauge_shows ws s mx"
  "gauge_shows ws s (ObserveCredentialReload a b mx) = gauge_shows ws s mx"
  "gauge_shows ws s (ObserveWorkspaceReload a mx) = gauge_shows ws s mx"
  by (simp_all add: gauge_shows_def ObserveProxyRequest_def ObserveProxyError_def
      ObserveProxyRetry_def ObserveAPIServiceSync_def ObserveCredentialReload_def
      ObserveWorkspaceReload_def Let_def)

section \<open>Registration\<close>

text \<open>Each vector's subsystem, name and labels; the namespace is the same for all.\<close>

record metric_vector =
  mv_Subsystem :: string
  mv_Name :: string
  mv_labels :: "string list"

definition metric_vectors :: "metric_vector list" where
  "metric_vectors =
     [\<lparr>mv_Subsystem = ''kcp_discovery'', mv_Name = ''refresh_total'', mv_labels = [''workspace'', ''result'']\<rparr>,
      \<lparr>mv_Subsystem = ''kcp_discovery'', mv_Name = ''refresh_duration_seconds'', mv_labels = [''workspace'']\<rparr>,
      \<lparr>mv_Subsystem = ''kcp_discovery'', mv_Name = ''last_success_timestamp_seconds'', mv_labels = [''workspace'']\<rparr>,
      \<lparr>mv_Subsystem = ''kcp'', mv_Name = ''group_served'', mv_labels = [''group'']\<rparr>,
      \<lparr>mv_Subsystem = ''proxy'', mv_Name = ''requests_total'', mv_labels = [''workspace'', ''verb'', ''resource'', ''code'']\<rparr>,
      \<lparr>mv_Subsystem = ''proxy'', mv_Name = ''duration_seconds'', mv_labels = [''workspace'', ''verb'', ''resource'']\<rparr>,
      \<lparr>mv_Subsystem = ''proxy'', mv_Name = ''errors_total'', mv_labels = [''workspace'', ''reason'', ''verb'', ''resource'']\<rparr>,
      \<lparr>mv_Subsystem = ''proxy'', mv_Name = ''retries_total'', mv_labels = [''workspace'']\<rparr>,
      \<lparr>mv_Subsystem = ''kcp'', mv_Name = ''circuit_state'', mv_labels = [''workspace'', ''state'']\<rparr>,
      \<lparr>mv_Subsystem = ''apiservice'', mv_Name = ''sync_total'', mv_labels = [''result'']\<rparr>,
      \<lparr>mv_Subsystem = ''apiservice'', mv_Name = ''managed'', mv_labels = []\<rparr>,
      \<lparr>mv_Subsystem = ''kcp'', mv_Name = ''credential_reload_total'', mv_labels = [''workspace'', ''result'']\<rparr>,
      \<lparr>mv_Subsystem = ''workspaces'', mv_Name = ''reload_total'', mv_labels = [''result'']\<rparr>]"

definition series_name :: "metric_vector \<Rightarrow> string" where
  "series_name v = ''spillway_'' @ mv_Subsystem v @ ''_'' @ mv_Name v"

text \<open>\<open>registerOnce\<close> is whether the function has run. The loop stops where a registration panics.\<close>

fun must_register_all :: "(metric_vector \<Rightarrow> 'g \<Rightarrow> (string, 'g) result) \<Rightarrow> metric_vector list \<Rightarrow> 'g \<Rightarrow> (string, 'g) result" where
  "must_register_all must_register [] registry = Ok registry"
| "must_register_all must_register (v # vs) registry =
     (case must_register v registry of
        Err panic \<Rightarrow> Err panic | Ok registry' \<Rightarrow> must_register_all must_register vs registry')"

definition RegisterMetrics :: "(metric_vector \<Rightarrow> 'g \<Rightarrow> (string, 'g) result) \<Rightarrow> bool \<times> 'g \<Rightarrow> (string, bool \<times> 'g) result" where
  "RegisterMetrics must_register st =
     (if fst st then Ok st
      else (case must_register_all must_register metric_vectors (snd st) of
              Err panic \<Rightarrow> Err panic | Ok registry \<Rightarrow> Ok (True, registry)))"

text \<open>
  Safe to call more than once; and with a registry that refuses only a name it already has, a first
  call succeeds exactly when none of the names is taken, for no two of them are the same.
\<close>

lemma RegisterMetrics_again: "RegisterMetrics must_register st = Ok st' \<Longrightarrow> RegisterMetrics must_register st' = Ok st'"
  by (auto simp: RegisterMetrics_def split: if_splits sum.splits)

lemma series_names_distinct: "distinct (map series_name metric_vectors)"
  by code_simp

definition refuse_taken :: "metric_vector \<Rightarrow> string set \<Rightarrow> (string, string set) result" where
  "refuse_taken v registry =
     (if series_name v \<in> registry then Err (series_name v) else Ok (insert (series_name v) registry))"

lemma must_register_all_taken:
  "must_register_all refuse_taken vs registry = Ok registry' \<longleftrightarrow>
     distinct (map series_name vs) \<and> series_name ` set vs \<inter> registry = {} \<and> registry' = series_name ` set vs \<union> registry"
  by (induction vs arbitrary: registry) (auto simp: refuse_taken_def)

lemma RegisterMetrics_first:
  "RegisterMetrics refuse_taken (False, registry) = Ok (once, registry') \<longleftrightarrow>
     once \<and> series_name ` set metric_vectors \<inter> registry = {} \<and> registry' = series_name ` set metric_vectors \<union> registry"
proof (cases "must_register_all refuse_taken metric_vectors registry")
  case (Inl panic)
  with must_register_all_taken[of metric_vectors registry "series_name ` set metric_vectors \<union> registry"]
    series_names_distinct show ?thesis by (auto simp: RegisterMetrics_def)
next
  case (Inr left)
  with must_register_all_taken[of metric_vectors registry left] show ?thesis by (auto simp: RegisterMetrics_def)
qed

end
