(* ===== verification/Loops.thy ===== *)
theory Loops
  imports Prelude
begin

text \<open>
  The background loops of the program: \<open>for { select { ... } }\<close> over a context, a ticker and possibly
  more. Which case a select takes is up to the scheduler, so a loop is given the cases it takes, turn
  by turn, without end. What it leaves behind is an option: a loop that is never told to return does not.
\<close>

section \<open>Tickers\<close>

text \<open>\<open>time.NewTicker\<close> panics unless the interval is positive.\<close>

definition NewTicker :: "duration \<Rightarrow> (string, unit) result" where
  "NewTicker d = (if d \<le> 0 then Err ''non-positive interval for NewTicker'' else Ok ())"

text \<open>The two cases of a loop that only waits for its ticker.\<close>

datatype tick_case = Ended | Tick

section \<open>Loops\<close>

text \<open>A turn is \<open>None\<close> when it returns from the loop; the state is then what it was before the turn.\<close>

partial_function (option) select_loop :: "('e \<Rightarrow> 's \<Rightarrow> 's option) \<Rightarrow> (nat \<Rightarrow> 'e) \<Rightarrow> nat \<Rightarrow> 's \<Rightarrow> 's option" where
  "select_loop turn chosen i s =
     (case turn (chosen i) s of
        None \<Rightarrow> Some s
      | Some s' \<Rightarrow> select_loop turn chosen (Suc i) s')"

text \<open>The first turns of a loop, as far as it gets.\<close>

fun take_turns :: "('e \<Rightarrow> 's \<Rightarrow> 's option) \<Rightarrow> 'e list \<Rightarrow> 's \<Rightarrow> 's" where
  "take_turns turn [] s = s"
| "take_turns turn (e # es) s = (case turn e s of None \<Rightarrow> s | Some s' \<Rightarrow> take_turns turn es s')"

text \<open>A goroutine that takes a ticker and loops: a panic, or what the loop leaves when it returns.\<close>

definition ticking :: "duration \<Rightarrow> ('e \<Rightarrow> 's \<Rightarrow> 's option) \<Rightarrow> (nat \<Rightarrow> 'e) \<Rightarrow> 's \<Rightarrow> (string, 's) result option" where
  "ticking period turn chosen s =
     (case NewTicker period of
        Err panic \<Rightarrow> Some (Err panic)
      | Ok _ \<Rightarrow> map_option Ok (select_loop turn chosen 0 s))"

section \<open>When a loop returns, and with what\<close>

text \<open>
  What the scheduler owes a loop: the case of a context is taken only when the context is over, and
  once it is over, some time.
\<close>

definition heeds :: "('e \<Rightarrow> bool) \<Rightarrow> (nat \<Rightarrow> bool) \<Rightarrow> (nat \<Rightarrow> 'e) \<Rightarrow> bool" where
  "heeds ends over chosen \<longleftrightarrow>
     (\<forall>i. ends (chosen i) \<longrightarrow> over i) \<and> ((\<exists>i. over i) \<longrightarrow> (\<exists>i. ends (chosen i)))"

text \<open>
  The goroutine returns when its context is over and only then, never by a panic, and leaves what the
  turns before left.
\<close>

definition returns_when :: "(nat \<Rightarrow> bool) \<Rightarrow> (string, 's) result option \<Rightarrow> (nat \<Rightarrow> 's) \<Rightarrow> bool" where
  "returns_when over out after \<longleftrightarrow>
     (case out of
        None \<Rightarrow> \<forall>i. \<not> over i
      | Some (Err _) \<Rightarrow> False
      | Some (Ok s) \<Rightarrow> \<exists>n. over n \<and> s = after n)"

lemma returned_by_a_turn:
  assumes "select_loop turn chosen i s = Some s'"
  shows "\<exists>n t. turn (chosen n) t = None"
proof (rule select_loop.raw_induct[where P = "\<lambda>turn chosen i s s'. \<exists>n t. turn (chosen n) t = None", OF _ assms])
  fix f turn chosen i s s'
  assume step: "\<And>turn chosen i s s'. f turn chosen i s = Some s' \<Longrightarrow> \<exists>n t. turn (chosen n) t = None"
    and "(case turn (chosen i) s of None \<Rightarrow> Some s | Some s' \<Rightarrow> f turn chosen (Suc i) s') = Some s'"
  then show "\<exists>n t. turn (chosen n) t = None" by (cases "turn (chosen i) s") auto
qed

text \<open>The interface of a loop: whether a turn returns is up to the case taken, not to the state.\<close>

locale context_loop =
  fixes turn :: "'e \<Rightarrow> 's \<Rightarrow> 's option" and ends :: "'e \<Rightarrow> bool"
  assumes returns: "turn e s = None \<longleftrightarrow> ends e"
begin

lemma goes_on: "\<not> ends e \<Longrightarrow> \<exists>s'. turn e s = Some s'"
  using returns[of e s] by auto

lemma returns_at:
  assumes "ends (chosen (i + n))" and "\<forall>j<n. \<not> ends (chosen (i + j))"
  shows "select_loop turn chosen i s = Some (take_turns turn (map (\<lambda>j. chosen (i + j)) [0..<n]) s)"
  using assms
proof (induction n arbitrary: i s)
  case 0
  then show ?case using returns[of "chosen i" s] by (simp add: select_loop.simps)
next
  case (Suc n)
  from Suc.prems(2) have "\<not> ends (chosen i)" by (metis add_0_right zero_less_Suc)
  then obtain s' where s': "turn (chosen i) s = Some s'" using goes_on by blast
  have rest: "select_loop turn chosen (Suc i) s' = Some (take_turns turn (map (\<lambda>j. chosen (Suc i + j)) [0..<n]) s')"
    using Suc.prems by (intro Suc.IH) auto
  have "map (\<lambda>j. chosen (i + j)) [0..<Suc n] = chosen i # map (\<lambda>j. chosen (Suc i + j)) [0..<n]"
    by (simp add: upt_conv_Cons map_Suc_upt[symmetric] del: upt_Suc)
  with s' rest show ?case by (simp add: select_loop.simps[of turn chosen i s])
qed

lemma returned: "select_loop turn chosen i s = Some s' \<Longrightarrow> \<exists>n. ends (chosen n)"
  using returned_by_a_turn[of turn chosen i s s'] returns by blast

text \<open>The goroutine, with a ticker that can be had.\<close>

lemma ticking_cases:
  assumes "heeds ends over chosen" and "0 < period"
  obtains "\<forall>i. \<not> over i" "ticking period turn chosen s = None"
  | n where "over n" "\<forall>j<n. \<not> ends (chosen j)"
      "ticking period turn chosen s = Some (Ok (take_turns turn (map chosen [0..<n]) s))"
proof (cases "\<exists>i. over i")
  case True
  with assms(1) obtain k where "ends (chosen k)" by (auto simp: heeds_def)
  then obtain n where n: "ends (chosen n)" "\<forall>j<n. \<not> ends (chosen j)"
    using exists_least_iff[of "\<lambda>k. ends (chosen k)"] by blast
  then have "select_loop turn chosen 0 s = Some (take_turns turn (map chosen [0..<n]) s)"
    using returns_at[of chosen 0 n s] by simp
  moreover have "over n" using n(1) assms(1) by (simp add: heeds_def)
  ultimately show ?thesis using that(2)[OF _ n(2)] assms(2) by (simp add: ticking_def NewTicker_def)
next
  case False
  with assms(1) have "\<not> ends (chosen n)" for n by (auto simp: heeds_def)
  then have "select_loop turn chosen 0 s = None" using returned[of chosen 0 s] by fastforce
  with False that(1) assms(2) show ?thesis by (simp add: ticking_def NewTicker_def)
qed

lemma ticking_returns:
  assumes "heeds ends over chosen" and "0 < period"
  shows "returns_when over (ticking period turn chosen s) (\<lambda>n. take_turns turn (map chosen [0..<n]) s)"
  by (rule ticking_cases[OF assms, of s]) (auto simp: returns_when_def)

end

section \<open>Loops that only wait for their ticker\<close>

definition tick_turn :: "('s \<Rightarrow> 's) \<Rightarrow> tick_case \<Rightarrow> 's \<Rightarrow> 's option" where
  "tick_turn body e s = (case e of Ended \<Rightarrow> None | Tick \<Rightarrow> Some (body s))"

interpretation ticker: context_loop "tick_turn body" "\<lambda>e. e = Ended" for body
  by unfold_locales (simp add: tick_turn_def split: tick_case.split)

lemma all_ticks: "\<forall>e\<in>set es. e \<noteq> Ended \<Longrightarrow> take_turns (tick_turn body) es s = (body ^^ length es) s"
  by (induction es arbitrary: s) (simp_all add: tick_turn_def funpow_swap1 split: tick_case.split)

lemma ticker_returns:
  assumes "heeds (\<lambda>e. e = Ended) over chosen" and "0 < period"
  shows "returns_when over (ticking period (tick_turn body) chosen s) (\<lambda>n. (body ^^ n) s)"
proof (rule ticker.ticking_cases[OF assms, of body s])
  fix n assume "over n" "\<forall>j<n. chosen j \<noteq> Ended"
    "ticking period (tick_turn body) chosen s = Some (Ok (take_turns (tick_turn body) (map chosen [0..<n]) s))"
  moreover from this(2) have "take_turns (tick_turn body) (map chosen [0..<n]) s = (body ^^ n) s"
    using all_ticks[of "map chosen [0..<n]" body s] by auto
  ultimately show ?thesis by (auto simp: returns_when_def)
qed (simp add: returns_when_def)

end
