(* ===== verification/Resource_Cache.thy ===== *)
theory Resource_Cache
  imports K8s Group_Matcher Metrics Loops
begin

text \<open>
  \<open>pkg/kcp/discovery.go\<close>: the cache of what a kcp workspace offers for the groups it is
  configured to serve. The discovery client is two state passing functions over a world \<open>'w\<close>
  (what kcp answers may change from call to call), and \<open>schema.ParseGroupVersion\<close> of apimachinery
  is a parameter.
\<close>

section \<open>State\<close>

record 'w discovery_client =
  dc_ServerGroups :: "'w \<Rightarrow> (string, api_group list) result \<times> 'w"
  dc_ServerResources :: "string \<Rightarrow> 'w \<Rightarrow> (string, api_resource list) result \<times> 'w"

datatype refresh_error =
    ListingGroups string
  | ParsingGroupVersion string string
  | ListingResources string string

record ResourceCache =
  rc_workspace :: string
  rc_owned :: group_matcher
  rc_snapshot :: Snapshot
  rc_synced :: bool
  rc_matched :: "string set option"
  rc_generation :: "64 word"

definition NewResourceCache :: "string \<Rightarrow> group_matcher \<Rightarrow> ResourceCache" where
  "NewResourceCache ws owned =
     \<lparr>rc_workspace = ws, rc_owned = owned, rc_snapshot = empty_snapshot, rc_synced = False,
      rc_matched = None, rc_generation = 0\<rparr>"

definition groupNames :: "Snapshot \<Rightarrow> string set" where
  "groupNames s = dom (sn_Groups s)"

definition ServedGroups :: "ResourceCache \<Rightarrow> string set" where
  "ServedGroups c = groupNames (rc_snapshot c)"

definition cache_Owns :: "ResourceCache \<Rightarrow> string \<Rightarrow> bool" where
  "cache_Owns c g = Matches (Some (rc_owned c)) g"

section \<open>Refreshing\<close>

text \<open>The inner loop of \<open>refresh\<close>, over the versions of one group.\<close>

fun refresh_versions :: "(string \<Rightarrow> (string, group_version) result) \<Rightarrow> 'w discovery_client \<Rightarrow>
    api_version list \<Rightarrow> Snapshot \<Rightarrow> 'w \<Rightarrow> (refresh_error, Snapshot) result \<times> 'w" where
  "refresh_versions parse_gv client [] acc w = (Ok acc, w)"
| "refresh_versions parse_gv client (v # vs) acc w =
     (case parse_gv (av_GroupVersion v) of
        Err e \<Rightarrow> (Err (ParsingGroupVersion (av_GroupVersion v) e), w)
      | Ok gv \<Rightarrow>
          (case dc_ServerResources client (av_GroupVersion v) w of
             (Err e, w') \<Rightarrow> (Err (ListingResources (av_GroupVersion v) e), w')
           | (Ok rs, w') \<Rightarrow>
               refresh_versions parse_gv client vs
                 (acc\<lparr>sn_Resources := (sn_Resources acc)(gv \<mapsto> rs)\<rparr>) w'))"

fun refresh_groups :: "(string \<Rightarrow> (string, group_version) result) \<Rightarrow> 'w discovery_client \<Rightarrow>
    group_matcher \<Rightarrow> api_group list \<Rightarrow> Snapshot \<Rightarrow> 'w \<Rightarrow> (refresh_error, Snapshot) result \<times> 'w" where
  "refresh_groups parse_gv client owned [] acc w = (Ok acc, w)"
| "refresh_groups parse_gv client owned (g # gs) acc w =
     (if \<not> Matches (Some owned) (ag_Name g) then refresh_groups parse_gv client owned gs acc w
      else (case refresh_versions parse_gv client (ag_Versions g)
                   (acc\<lparr>sn_Groups := (sn_Groups acc)(ag_Name g \<mapsto> g)\<rparr>) w of
              (Err e, w') \<Rightarrow> (Err e, w')
            | (Ok acc', w') \<Rightarrow> refresh_groups parse_gv client owned gs acc' w'))"

definition refresh :: "(string \<Rightarrow> (string, group_version) result) \<Rightarrow> 'w discovery_client \<Rightarrow>
    ResourceCache \<Rightarrow> 'w \<Rightarrow> (refresh_error, ResourceCache) result \<times> 'w" where
  "refresh parse_gv client c w =
     (case dc_ServerGroups client w of
        (Err e, w') \<Rightarrow> (Err (ListingGroups e), w')
      | (Ok gs, w') \<Rightarrow>
          (case refresh_groups parse_gv client (rc_owned c) gs empty_snapshot w' of
             (Err e, w'') \<Rightarrow> (Err e, w'')
           | (Ok snap, w'') \<Rightarrow>
               (Ok (c\<lparr>rc_snapshot := snap, rc_synced := True, rc_generation := rc_generation c + 1\<rparr>),
                w'')))"

text \<open>The three loops of \<open>Refresh\<close> over the \<open>group_served\<close> gauge; each writes every key once.\<close>

definition publish_exact :: "string list \<Rightarrow> (string \<rightharpoonup> api_group) \<Rightarrow> (string \<rightharpoonup> nat) \<Rightarrow> string \<rightharpoonup> nat" where
  "publish_exact named groups gauge =
     (\<lambda>g. if g \<in> set named then Some (if g \<in> dom groups then 1 else 0) else gauge g)"

definition publish_current :: "string set \<Rightarrow> (string \<rightharpoonup> nat) \<Rightarrow> string \<rightharpoonup> nat" where
  "publish_current current gauge = (\<lambda>g. if g \<in> current then Some 1 else gauge g)"

definition drop_gone :: "string set option \<Rightarrow> string set \<Rightarrow> string set \<Rightarrow> (string \<rightharpoonup> nat) \<Rightarrow> string \<rightharpoonup> nat" where
  "drop_gone previous current exact gauge =
     (case previous of None \<Rightarrow> gauge
      | Some prev \<Rightarrow> (\<lambda>g. if g \<in> prev - current \<and> g \<notin> exact then None else gauge g))"

definition Refresh :: "(string \<Rightarrow> (string, group_version) result) \<Rightarrow> 'w discovery_client \<Rightarrow>
    ('w \<Rightarrow> time) \<Rightarrow> ResourceCache \<Rightarrow> metrics \<Rightarrow> 'w \<Rightarrow>
    refresh_error option \<times> ResourceCache \<times> metrics \<times> 'w" where
  "Refresh parse_gv client now c mx w =
     (case refresh parse_gv client c w of
        (r, w') \<Rightarrow>
          let mx1 = mx\<lparr>refreshDuration := observe (rc_workspace c) (now w' - now w) (refreshDuration mx)\<rparr>
          in (case r of
                Err e \<Rightarrow>
                  (Some e, c,
                   mx1\<lparr>refreshTotal := inc (rc_workspace c, ''error'') (refreshTotal mx1)\<rparr>, w')
              | Ok c' \<Rightarrow>
                  let current = groupNames (rc_snapshot c');
                      gauge = drop_gone (rc_matched c') current (gm_exact (rc_owned c'))
                                (publish_current current
                                  (publish_exact (Exact (Some (rc_owned c'))) (sn_Groups (rc_snapshot c'))
                                     (groupServed mx1)))
                  in (None, c'\<lparr>rc_matched := Some current\<rparr>,
                      mx1\<lparr>refreshTotal := inc (rc_workspace c, ''success'') (refreshTotal mx1),
                          lastSuccessTimestamp := (lastSuccessTimestamp mx1)(rc_workspace c \<mapsto> now w'),
                          groupServed := gauge\<rparr>, w')))"

section \<open>What a refresh reads\<close>

text \<open>
  The specification: the groups of a list that the matcher covers, the last one of a name winning,
  as Go's map assignment does.
\<close>

definition owned_groups :: "group_matcher \<Rightarrow> api_group list \<Rightarrow> string \<rightharpoonup> api_group" where
  "owned_groups owned gs = map_of (rev (map (\<lambda>g. (ag_Name g, g)) (filter (\<lambda>g. Matches (Some owned) (ag_Name g)) gs)))"

lemma refresh_versions_frame:
  "refresh_versions parse_gv client vs acc w = (Ok s, w') \<Longrightarrow> sn_Groups s = sn_Groups acc"
  by (induction parse_gv client vs acc w rule: refresh_versions.induct)
     (auto split: sum.splits prod.splits)

lemma refresh_versions_reads:
  "refresh_versions parse_gv client vs acc w = (Ok s, w') \<Longrightarrow>
   dom (sn_Resources s) = dom (sn_Resources acc) \<union>
     {gv. \<exists>v\<in>set vs. parse_gv (av_GroupVersion v) = Ok gv}"
  by (induction parse_gv client vs acc w rule: refresh_versions.induct)
     (auto split: sum.splits prod.splits)

lemma refresh_groups_reads:
  "refresh_groups parse_gv client owned gs acc w = (Ok s, w') \<Longrightarrow>
   sn_Groups s = sn_Groups acc ++ owned_groups owned gs \<and>
   dom (sn_Resources s) = dom (sn_Resources acc) \<union>
     {gv. \<exists>g\<in>set gs. Matches (Some owned) (ag_Name g) \<and>
            (\<exists>v\<in>set (ag_Versions g). parse_gv (av_GroupVersion v) = Ok gv)}"
proof (induction gs arbitrary: acc w)
  case Nil
  then show ?case by (simp add: owned_groups_def)
next
  case (Cons g gs)
  show ?case
  proof (cases "Matches (Some owned) (ag_Name g)")
    case False
    with Cons show ?thesis by (auto simp: owned_groups_def)
  next
    case True
    let ?acc = "acc\<lparr>sn_Groups := (sn_Groups acc)(ag_Name g \<mapsto> g)\<rparr>"
    obtain acc' w1 where v: "refresh_versions parse_gv client (ag_Versions g) ?acc w = (Ok acc', w1)"
      and rest: "refresh_groups parse_gv client owned gs acc' w1 = (Ok s, w')"
      using Cons.prems True by (auto split: sum.splits prod.splits)
    have "owned_groups owned (g # gs) = [ag_Name g \<mapsto> g] ++ owned_groups owned gs"
      using True by (simp add: owned_groups_def map_add_def fun_eq_iff split: option.splits)
    moreover have "sn_Groups s = ((sn_Groups acc)(ag_Name g \<mapsto> g)) ++ owned_groups owned gs"
      using Cons.IH[OF rest] refresh_versions_frame[OF v] by (simp add: fun_upd_def)
    moreover have "((sn_Groups acc)(ag_Name g \<mapsto> g)) ++ owned_groups owned gs =
        sn_Groups acc ++ ([ag_Name g \<mapsto> g] ++ owned_groups owned gs)"
      by (metis map_add_assoc map_add_empty map_add_upd)
    ultimately have groups: "sn_Groups s = sn_Groups acc ++ owned_groups owned (g # gs)" by metis
    have "dom (sn_Resources acc') = dom (sn_Resources acc) \<union>
        {gv. \<exists>v\<in>set (ag_Versions g). parse_gv (av_GroupVersion v) = Ok gv}"
      using refresh_versions_reads[OF v] by simp
    moreover have "{gv. \<exists>x\<in>set (g # gs). Matches (Some owned) (ag_Name x) \<and>
          (\<exists>v\<in>set (ag_Versions x). parse_gv (av_GroupVersion v) = Ok gv)} =
        {gv. \<exists>v\<in>set (ag_Versions g). parse_gv (av_GroupVersion v) = Ok gv} \<union>
        {gv. \<exists>x\<in>set gs. Matches (Some owned) (ag_Name x) \<and>
          (\<exists>v\<in>set (ag_Versions x). parse_gv (av_GroupVersion v) = Ok gv)}"
      using True by auto
    ultimately show ?thesis
      using groups Cons.IH[OF rest] by (simp only: Un_assoc simp_thms)
  qed
qed

lemma refresh_ok:
  "refresh parse_gv client c w = (Ok c', w') \<Longrightarrow>
   \<exists>gs w1. dc_ServerGroups client w = (Ok gs, w1) \<and>
     sn_Groups (rc_snapshot c') = owned_groups (rc_owned c) gs \<and>
     dom (sn_Resources (rc_snapshot c')) =
       {gv. \<exists>g\<in>set gs. Matches (Some (rc_owned c)) (ag_Name g) \<and>
              (\<exists>v\<in>set (ag_Versions g). parse_gv (av_GroupVersion v) = Ok gv)} \<and>
     rc_generation c' = rc_generation c + 1 \<and> rc_synced c' \<and>
     rc_owned c' = rc_owned c \<and> rc_workspace c' = rc_workspace c \<and> rc_matched c' = rc_matched c"
proof -
  assume r: "refresh parse_gv client c w = (Ok c', w')"
  then obtain gs w1 snap where g: "dc_ServerGroups client w = (Ok gs, w1)"
    and s: "refresh_groups parse_gv client (rc_owned c) gs empty_snapshot w1 = (Ok snap, w')"
    and c': "c' = c\<lparr>rc_snapshot := snap, rc_synced := True, rc_generation := rc_generation c + 1\<rparr>"
    by (auto simp: refresh_def split: sum.splits prod.splits)
  show ?thesis
    by (rule exI[of _ gs], rule exI[of _ w1]) (use g refresh_groups_reads[OF s] in \<open>simp add: c'\<close>)
qed

lemma owned_groups_matched: "g \<in> dom (owned_groups owned gs) \<Longrightarrow> Matches (Some owned) g"
  by (auto simp: owned_groups_def dest!: map_of_SomeD)

lemma Refresh_ok:
  assumes "Refresh parse_gv client now c mx w = (None, c', mx', w')"
  shows "\<exists>c1. refresh parse_gv client c w = (Ok c1, w') \<and>
     c' = c1\<lparr>rc_matched := Some (groupNames (rc_snapshot c1))\<rparr>"
  using assms by (auto simp: Refresh_def Let_def split: prod.splits sum.splits)

lemma Refresh_failed:
  assumes "Refresh parse_gv client now c mx w = (Some e, c', mx', w')"
  shows "c' = c \<and> fst (refresh parse_gv client c w) = Err e"
  using assms by (auto simp: Refresh_def Let_def split: prod.splits sum.splits)

section \<open>Keeping current\<close>

definition defaultBackstop :: duration where
  "defaultBackstop = 10 * minute"

definition run_backstop :: "duration \<Rightarrow> duration" where
  "run_backstop backstop = (if backstop \<le> 0 then defaultBackstop else backstop)"

text \<open>
  What wakes the loop of \<open>Run\<close>: the context ends, the ticker fires, or a change is signalled, in
  which case the context may end while the burst settles (\<open>True\<close>).
\<close>

datatype wakeup = ContextDone | Ticked | Signalled bool

definition stops :: "wakeup \<Rightarrow> bool" where
  "stops e \<longleftrightarrow> (case e of ContextDone \<Rightarrow> True | Ticked \<Rightarrow> False | Signalled ended \<Rightarrow> ended)"

text \<open>One turn of the loop; a failure is only logged.\<close>

definition cache_turn :: "(string \<Rightarrow> (string, group_version) result) \<Rightarrow> 'w discovery_client \<Rightarrow> ('w \<Rightarrow> time) \<Rightarrow>
    ('w \<Rightarrow> 'w) option \<Rightarrow> wakeup \<Rightarrow> ResourceCache \<times> metrics \<times> 'w \<Rightarrow> (ResourceCache \<times> metrics \<times> 'w) option" where
  "cache_turn parse_gv client now onChange e st =
     (case st of (c, mx, w) \<Rightarrow>
        if stops e then None
        else (case Refresh parse_gv client now c mx w of
                (Some err, c', mx', w') \<Rightarrow> Some (c', mx', w')
              | (None, c', mx', w') \<Rightarrow>
                  Some (c', mx', (case onChange of None \<Rightarrow> w' | Some f \<Rightarrow> f w'))))"

text \<open>The turns taken so far, and the whole of \<open>Run\<close>.\<close>

definition Run_turns :: "(string \<Rightarrow> (string, group_version) result) \<Rightarrow> 'w discovery_client \<Rightarrow> ('w \<Rightarrow> time) \<Rightarrow>
    ('w \<Rightarrow> 'w) option \<Rightarrow> wakeup list \<Rightarrow> ResourceCache \<times> metrics \<times> 'w \<Rightarrow> ResourceCache \<times> metrics \<times> 'w" where
  "Run_turns parse_gv client now onChange = take_turns (cache_turn parse_gv client now onChange)"

definition Run :: "(string \<Rightarrow> (string, group_version) result) \<Rightarrow> 'w discovery_client \<Rightarrow> ('w \<Rightarrow> time) \<Rightarrow>
    duration \<Rightarrow> ('w \<Rightarrow> 'w) option \<Rightarrow> (nat \<Rightarrow> wakeup) \<Rightarrow> ResourceCache \<times> metrics \<times> 'w \<Rightarrow>
    (string, ResourceCache \<times> metrics \<times> 'w) result option" where
  "Run parse_gv client now backstop onChange chosen st =
     ticking (run_backstop backstop) (cache_turn parse_gv client now onChange) chosen st"

interpretation cache_select: context_loop "cache_turn parse_gv client now onChange" stops
  for parse_gv client now onChange
  by unfold_locales (auto simp: cache_turn_def split: prod.split option.split)

lemma run_backstop_positive [simp]: "0 < run_backstop backstop"
  by (simp add: run_backstop_def defaultBackstop_def minute_def second_def millisecond_def)

lemma Run_returns:
  "heeds stops over chosen \<Longrightarrow>
   returns_when over (Run parse_gv client now backstop onChange chosen st)
     (\<lambda>n. Run_turns parse_gv client now onChange (map chosen [0..<n]) st)"
  unfolding Run_def Run_turns_def by (rule cache_select.ticking_returns) simp_all

lemma Run_turns_simps [simp]:
  "Run_turns parse_gv client now onChange [] st = st"
  "Run_turns parse_gv client now onChange (e # es) (c, mx, w) =
     (if stops e then (c, mx, w)
      else (case Refresh parse_gv client now c mx w of
              (Some err, c', mx', w') \<Rightarrow> Run_turns parse_gv client now onChange es (c', mx', w')
            | (None, c', mx', w') \<Rightarrow>
                Run_turns parse_gv client now onChange es
                  (c', mx', (case onChange of None \<Rightarrow> w' | Some f \<Rightarrow> f w'))))"
  by (auto simp: Run_turns_def cache_turn_def split: prod.split option.split)

section \<open>The published groups\<close>

text \<open>
  What \<open>group_served\<close> says when one cache feeds it: 1 for what is served, 0 for a group named
  outright that is missing, and no series for anything else.
\<close>

definition gauge_spec :: "group_matcher \<Rightarrow> string set \<Rightarrow> string \<rightharpoonup> nat" where
  "gauge_spec owned served =
     (\<lambda>g. if g \<in> served then Some 1 else if g \<in> set (Exact (Some owned)) then Some 0 else None)"

definition cache_inv :: "group_matcher \<Rightarrow> ResourceCache \<times> metrics \<Rightarrow> bool" where
  "cache_inv owned cm \<longleftrightarrow>
     (case cm of (c, mx) \<Rightarrow>
        rc_owned c = owned \<and> (\<forall>g\<in>ServedGroups c. Matches (Some owned) g) \<and>
        (rc_synced c \<longleftrightarrow> rc_matched c \<noteq> None) \<and>
        (case rc_matched c of
           None \<Rightarrow> rc_snapshot c = empty_snapshot \<and> groupServed mx = Map.empty
         | Some seen \<Rightarrow> seen = ServedGroups c \<and> groupServed mx = gauge_spec owned (ServedGroups c)))"

lemma cache_inv_new: "groupServed mx = Map.empty \<Longrightarrow> cache_inv owned (NewResourceCache ws owned, mx)"
  by (simp add: cache_inv_def NewResourceCache_def ServedGroups_def groupNames_def)

lemma Exact_in_exact: "g \<in> set (Exact (Some m)) \<Longrightarrow> finite (gm_exact m) \<Longrightarrow> g \<in> gm_exact m"
  by (auto simp: Exact_def)

lemma gauge_refreshed:
  assumes "finite (gm_exact owned)"
    and "\<forall>seen. previous = Some seen \<longrightarrow> gauge = gauge_spec owned seen \<and> (\<forall>g\<in>seen. Matches (Some owned) g)"
    and "previous = None \<longrightarrow> gauge = Map.empty"
  shows "drop_gone previous (dom groups) (gm_exact owned)
           (publish_current (dom groups) (publish_exact (Exact (Some owned)) groups gauge)) =
         gauge_spec owned (dom groups)"
proof
  fix g
  have ex: "g \<in> set (Exact (Some owned)) \<Longrightarrow> g \<in> gm_exact owned"
    using Exact_in_exact assms(1) by blast
  have mx: "g \<in> gm_exact owned \<Longrightarrow> Matches (Some owned) g \<Longrightarrow> g \<in> set (Exact (Some owned))"
    using assms(1) by (auto simp: Exact_def Matches_def)
  show "drop_gone previous (dom groups) (gm_exact owned)
           (publish_current (dom groups) (publish_exact (Exact (Some owned)) groups gauge)) g =
         gauge_spec owned (dom groups) g"
    using assms(2,3) ex mx
    by (cases previous) (auto simp: drop_gone_def publish_current_def publish_exact_def gauge_spec_def)
qed

lemma Refresh_gauge:
  "Refresh parse_gv client now c mx w = (None, c', mx', w') \<Longrightarrow>
   groupServed mx' = drop_gone (rc_matched c) (ServedGroups c') (gm_exact (rc_owned c))
     (publish_current (ServedGroups c')
       (publish_exact (Exact (Some (rc_owned c))) (sn_Groups (rc_snapshot c')) (groupServed mx)))"
  by (auto simp: Refresh_def Let_def ServedGroups_def split: prod.splits sum.splits dest!: refresh_ok)

lemma Refresh_failed_gauge:
  "Refresh parse_gv client now c mx w = (Some e, c', mx', w') \<Longrightarrow> groupServed mx' = groupServed mx"
  by (auto simp: Refresh_def Let_def split: prod.splits sum.splits)

lemma cache_inv_Refresh [wf_intros]:
  assumes inv: "cache_inv owned (c, mx)" and fin: "finite (gm_exact owned)"
    and r: "Refresh parse_gv client now c mx w = (r, c', mx', w')"
  shows "cache_inv owned (c', mx')"
proof (cases r)
  case (Some e)
  with r have "c' = c" and "groupServed mx' = groupServed mx"
    using Refresh_failed[of parse_gv client now c mx w e c' mx' w']
      Refresh_failed_gauge[of parse_gv client now c mx w e c' mx' w'] by simp_all
  with inv show ?thesis by (simp add: cache_inv_def split: option.splits)
next
  case None
  with r have r': "Refresh parse_gv client now c mx w = (None, c', mx', w')" by simp
  from Refresh_ok[OF r'] obtain c1 where ref: "refresh parse_gv client c w = (Ok c1, w')"
    and c': "c' = c1\<lparr>rc_matched := Some (groupNames (rc_snapshot c1))\<rparr>" by blast
  from refresh_ok[OF ref] obtain gs where
    gs: "sn_Groups (rc_snapshot c1) = owned_groups (rc_owned c) gs" and o: "rc_owned c1 = rc_owned c"
    and syn: "rc_synced c1" by blast
  have own: "rc_owned c = owned" using inv by (simp add: cache_inv_def)
  have served: "ServedGroups c' = dom (sn_Groups (rc_snapshot c'))"
    by (simp add: ServedGroups_def groupNames_def)
  have "groupServed mx' = gauge_spec owned (ServedGroups c')"
    unfolding Refresh_gauge[OF r'] served own
    by (rule gauge_refreshed[OF fin])
       (use inv in \<open>auto simp: cache_inv_def split: option.splits\<close>)
  moreover have "\<forall>g\<in>ServedGroups c'. Matches (Some owned) g"
    using gs own owned_groups_matched[of _ "rc_owned c" gs] c'
    by (auto simp: ServedGroups_def groupNames_def)
  ultimately show ?thesis
    using o own syn c' served by (simp add: cache_inv_def groupNames_def)
qed

lemma cache_inv_Run_turns [wf_intros]:
  "cache_inv owned (c, mx) \<Longrightarrow> finite (gm_exact owned) \<Longrightarrow>
   Run_turns parse_gv client now onChange es (c, mx, w) = (c', mx', w') \<Longrightarrow> cache_inv owned (c', mx')"
proof (induction es arbitrary: c mx w)
  case Nil
  then show ?case by simp
next
  case (Cons e es)
  obtain r c1 mx1 w1 where r: "Refresh parse_gv client now c mx w = (r, c1, mx1, w1)"
    by (metis surj_pair)
  have inv: "cache_inv owned (c1, mx1)" by (rule cache_inv_Refresh[OF Cons.prems(1,2) r])
  show ?case
  proof (cases "stops e")
    case True
    with Cons.prems show ?thesis by simp
  next
    case False
    with Cons.prems(3) r
    have "\<exists>w2. Run_turns parse_gv client now onChange es (c1, mx1, w2) = (c', mx', w')"
      by (cases r) auto
    with Cons.IH[OF inv Cons.prems(2)] show ?thesis by blast
  qed
qed

section \<open>Properties\<close>

text \<open>
  The specification of what is read: the versions the covered groups announced, one call each and in
  turn, every call answered, each answer kept under the group version it was asked for.
\<close>

definition owned_versions :: "group_matcher \<Rightarrow> api_group list \<Rightarrow> api_version list" where
  "owned_versions owned gs = concat (map ag_Versions (filter (\<lambda>g. Matches (Some owned) (ag_Name g)) gs))"

inductive answered :: "(string \<Rightarrow> (string, group_version) result) \<Rightarrow> 'w discovery_client \<Rightarrow> api_version list \<Rightarrow> 'w \<Rightarrow>
    (group_version \<times> api_resource list) list \<Rightarrow> 'w \<Rightarrow> bool" for parse_gv client where
  nothing: "answered parse_gv client [] w [] w"
| one: "answered parse_gv client (v # vs) w ((gv, rs) # answers) w'"
    if "parse_gv (av_GroupVersion v) = Ok gv" and "dc_ServerResources client (av_GroupVersion v) w = (Ok rs, w1)"
      and "answered parse_gv client vs w1 answers w'"

inductive_simps answered_simps [simp]:
  "answered parse_gv client [] w answers w'"
  "answered parse_gv client (v # vs) w answers w'"

lemma answered_append:
  "answered parse_gv client (us @ vs) w answers w' \<longleftrightarrow>
     (\<exists>first second w1. answers = first @ second \<and> answered parse_gv client us w first w1 \<and>
        answered parse_gv client vs w1 second w')"
proof (induction us arbitrary: w answers)
  case Nil
  then show ?case by simp
next
  case (Cons u us)
  show ?case
  proof
    assume "answered parse_gv client ((u # us) @ vs) w answers w'"
    then obtain gv rs w1 rest where u: "parse_gv (av_GroupVersion u) = Ok gv"
      "dc_ServerResources client (av_GroupVersion u) w = (Ok rs, w1)" "answers = (gv, rs) # rest"
      and "answered parse_gv client (us @ vs) w1 rest w'" by auto
    from this(4)[unfolded Cons.IH] obtain first second w2 where
      "rest = first @ second" "answered parse_gv client us w1 first w2" "answered parse_gv client vs w2 second w'" by blast
    with u show "\<exists>first second w1. answers = first @ second \<and> answered parse_gv client (u # us) w first w1 \<and>
        answered parse_gv client vs w1 second w'"
      by (intro exI[of _ "(gv, rs) # first"] exI[of _ second] exI[of _ w2]) auto
  next
    assume "\<exists>first second w1. answers = first @ second \<and> answered parse_gv client (u # us) w first w1 \<and>
        answered parse_gv client vs w1 second w'"
    then show "answered parse_gv client ((u # us) @ vs) w answers w'" by (auto simp: Cons.IH) blast
  qed
qed

lemma refresh_versions_exactly:
  "refresh_versions parse_gv client vs acc w = (Ok s, w') \<longleftrightarrow>
     (\<exists>answers. answered parse_gv client vs w answers w' \<and>
        s = acc\<lparr>sn_Resources := sn_Resources acc ++ map_of (rev answers)\<rparr>)"
proof (induction vs arbitrary: acc w)
  case Nil
  show ?case by auto
next
  case (Cons v vs)
  show ?case
  proof (cases "\<exists>gv rs w1. parse_gv (av_GroupVersion v) = Ok gv \<and> dc_ServerResources client (av_GroupVersion v) w = (Ok rs, w1)")
    case False
    then show ?thesis by (auto split: sum.splits prod.splits)
  next
    case True
    then obtain gv rs w1 where v: "parse_gv (av_GroupVersion v) = Ok gv"
      "dc_ServerResources client (av_GroupVersion v) w = (Ok rs, w1)" by blast
    have shift: "(sn_Resources acc)(gv \<mapsto> rs) ++ map_of (rev answers) = sn_Resources acc ++ map_of (rev ((gv, rs) # answers))"
      for answers by (simp add: map_add_assoc[symmetric] del: fun_upd_apply)
    have "refresh_versions parse_gv client (v # vs) acc w = (Ok s, w') \<longleftrightarrow>
        refresh_versions parse_gv client vs (acc\<lparr>sn_Resources := (sn_Resources acc)(gv \<mapsto> rs)\<rparr>) w1 = (Ok s, w')"
      using v by simp
    also have "\<dots> \<longleftrightarrow> (\<exists>answers. answered parse_gv client vs w1 answers w' \<and>
        s = acc\<lparr>sn_Resources := sn_Resources acc ++ map_of (rev ((gv, rs) # answers))\<rparr>)"
      unfolding Cons.IH Snapshot.select_convs Snapshot.update_convs shift[symmetric] by simp
    also have "\<dots> \<longleftrightarrow> (\<exists>answers. answered parse_gv client (v # vs) w answers w' \<and>
        s = acc\<lparr>sn_Resources := sn_Resources acc ++ map_of (rev answers)\<rparr>)"
      by (simp only: answered_simps v sum.inject prod.inject) blast
    finally show ?thesis .
  qed
qed

lemma refresh_groups_exactly:
  "refresh_groups parse_gv client owned gs acc w = (Ok s, w') \<longleftrightarrow>
     (\<exists>answers. answered parse_gv client (owned_versions owned gs) w answers w' \<and>
        s = acc\<lparr>sn_Groups := sn_Groups acc ++ owned_groups owned gs,
                sn_Resources := sn_Resources acc ++ map_of (rev answers)\<rparr>)"
proof (induction gs arbitrary: acc w)
  case Nil
  then show ?case by (auto simp: owned_versions_def owned_groups_def)
next
  case (Cons g gs)
  show ?case
  proof (cases "Matches (Some owned) (ag_Name g)")
    case False
    with Cons show ?thesis by (simp add: owned_versions_def owned_groups_def)
  next
    case True
    have groups: "((sn_Groups acc)(ag_Name g \<mapsto> g)) ++ owned_groups owned gs = sn_Groups acc ++ owned_groups owned (g # gs)"
      using True by (simp add: owned_groups_def map_add_def fun_eq_iff split: option.splits)
    have versions: "owned_versions owned (g # gs) = ag_Versions g @ owned_versions owned gs"
      using True by (simp add: owned_versions_def)
    have "refresh_groups parse_gv client owned (g # gs) acc w = (Ok s, w') \<longleftrightarrow>
        (\<exists>acc' w1. refresh_versions parse_gv client (ag_Versions g) (acc\<lparr>sn_Groups := (sn_Groups acc)(ag_Name g \<mapsto> g)\<rparr>) w = (Ok acc', w1) \<and>
           refresh_groups parse_gv client owned gs acc' w1 = (Ok s, w'))"
      using True by (auto split: sum.splits prod.splits)
    also have "\<dots> \<longleftrightarrow> (\<exists>first second w1. answered parse_gv client (ag_Versions g) w first w1 \<and>
        answered parse_gv client (owned_versions owned gs) w1 second w' \<and>
        s = acc\<lparr>sn_Groups := sn_Groups acc ++ owned_groups owned (g # gs),
                sn_Resources := sn_Resources acc ++ map_of (rev (first @ second))\<rparr>)"
      unfolding refresh_versions_exactly Cons.IH
    proof (intro iffI; elim exE conjE)
      fix acc' w1 first second
      assume "answered parse_gv client (ag_Versions g) w first w1"
        "acc' = acc\<lparr>sn_Groups := (sn_Groups acc)(ag_Name g \<mapsto> g),
           sn_Resources := sn_Resources (acc\<lparr>sn_Groups := (sn_Groups acc)(ag_Name g \<mapsto> g)\<rparr>) ++ map_of (rev first)\<rparr>"
        "answered parse_gv client (owned_versions owned gs) w1 second w'"
        "s = acc'\<lparr>sn_Groups := sn_Groups acc' ++ owned_groups owned gs, sn_Resources := sn_Resources acc' ++ map_of (rev second)\<rparr>"
      then show "\<exists>first second w1. answered parse_gv client (ag_Versions g) w first w1 \<and>
        answered parse_gv client (owned_versions owned gs) w1 second w' \<and>
        s = acc\<lparr>sn_Groups := sn_Groups acc ++ owned_groups owned (g # gs),
                sn_Resources := sn_Resources acc ++ map_of (rev (first @ second))\<rparr>"
        by (intro exI[of _ first] exI[of _ second] exI[of _ w1]) (simp add: groups)
    next
      fix first second w1
      assume "answered parse_gv client (ag_Versions g) w first w1" "answered parse_gv client (owned_versions owned gs) w1 second w'"
        "s = acc\<lparr>sn_Groups := sn_Groups acc ++ owned_groups owned (g # gs),
                sn_Resources := sn_Resources acc ++ map_of (rev (first @ second))\<rparr>"
      then show "\<exists>acc' w1.
          (\<exists>answers. answered parse_gv client (ag_Versions g) w answers w1 \<and>
             acc' = acc\<lparr>sn_Groups := (sn_Groups acc)(ag_Name g \<mapsto> g),
               sn_Resources := sn_Resources (acc\<lparr>sn_Groups := (sn_Groups acc)(ag_Name g \<mapsto> g)\<rparr>) ++ map_of (rev answers)\<rparr>) \<and>
          (\<exists>answers. answered parse_gv client (owned_versions owned gs) w1 answers w' \<and>
             s = acc'\<lparr>sn_Groups := sn_Groups acc' ++ owned_groups owned gs,
                      sn_Resources := sn_Resources acc' ++ map_of (rev answers)\<rparr>)"
        by (intro exI[of _ "acc\<lparr>sn_Groups := (sn_Groups acc)(ag_Name g \<mapsto> g), sn_Resources := sn_Resources acc ++ map_of (rev first)\<rparr>"]
            exI[of _ w1] conjI exI[of _ first] exI[of _ second]) (simp_all add: groups)
    qed
    also have "\<dots> \<longleftrightarrow> (\<exists>answers. answered parse_gv client (owned_versions owned (g # gs)) w answers w' \<and>
        s = acc\<lparr>sn_Groups := sn_Groups acc ++ owned_groups owned (g # gs),
                sn_Resources := sn_Resources acc ++ map_of (rev answers)\<rparr>)"
      unfolding versions answered_append by blast
    finally show ?thesis .
  qed
qed

text \<open>Everything a refresh asks was answered, and this is what came of it.\<close>

definition all_answered :: "(string \<Rightarrow> (string, group_version) result) \<Rightarrow> 'w discovery_client \<Rightarrow> group_matcher \<Rightarrow> 'w \<Rightarrow>
    api_group list \<Rightarrow> (group_version \<times> api_resource list) list \<Rightarrow> bool" where
  "all_answered parse_gv client owned w gs answers \<longleftrightarrow>
     (\<exists>w1 w2. dc_ServerGroups client w = (Ok gs, w1) \<and> answered parse_gv client (owned_versions owned gs) w1 answers w2)"

lemma refresh_exactly:
  "(\<exists>c' w'. refresh parse_gv client c w = (Ok c', w')) \<longleftrightarrow> (\<exists>gs answers. all_answered parse_gv client (rc_owned c) w gs answers)"
  (is ?can)
  "refresh parse_gv client c w = (Ok c', w') \<Longrightarrow> \<exists>gs answers. all_answered parse_gv client (rc_owned c) w gs answers \<and>
     c' = c\<lparr>rc_snapshot := \<lparr>sn_Groups = owned_groups (rc_owned c) gs, sn_Resources = map_of (rev answers)\<rparr>,
            rc_synced := True, rc_generation := rc_generation c + 1\<rparr>"
proof -
  have iff: "refresh parse_gv client c w = (Ok c', w') \<longleftrightarrow>
      (\<exists>gs w1 answers. dc_ServerGroups client w = (Ok gs, w1) \<and>
         answered parse_gv client (owned_versions (rc_owned c) gs) w1 answers w' \<and>
         c' = c\<lparr>rc_snapshot := \<lparr>sn_Groups = owned_groups (rc_owned c) gs, sn_Resources = map_of (rev answers)\<rparr>,
                rc_synced := True, rc_generation := rc_generation c + 1\<rparr>)" for c' w'
  proof -
    have "refresh parse_gv client c w = (Ok c', w') \<longleftrightarrow>
        (\<exists>gs w1 snap. dc_ServerGroups client w = (Ok gs, w1) \<and>
           refresh_groups parse_gv client (rc_owned c) gs empty_snapshot w1 = (Ok snap, w') \<and>
           c' = c\<lparr>rc_snapshot := snap, rc_synced := True, rc_generation := rc_generation c + 1\<rparr>)"
      by (auto simp: refresh_def split: sum.splits prod.splits)
    then show ?thesis unfolding refresh_groups_exactly by (auto simp: empty_snapshot_def)
  qed
  show ?can unfolding iff all_answered_def by blast
  show "refresh parse_gv client c w = (Ok c', w') \<Longrightarrow> \<exists>gs answers. all_answered parse_gv client (rc_owned c) w gs answers \<and>
     c' = c\<lparr>rc_snapshot := \<lparr>sn_Groups = owned_groups (rc_owned c) gs, sn_Resources = map_of (rev answers)\<rparr>,
            rc_synced := True, rc_generation := rc_generation c + 1\<rparr>"
    unfolding iff all_answered_def by blast
qed

text \<open>
  C29. A refresh is all or nothing. It succeeds exactly when kcp answered everything it was asked: the
  list of groups, and then, one call each and in turn, every version announced by a group the configuration
  covers. The snapshot then holds those groups as they were listed and, under each of those versions, the
  resources that were answered for it, and nothing else, the last of a name winning, and the generation moves
  by one. Otherwise nothing the cache holds changes and the previous view keeps being served.
\<close>
theorem refresh_all_or_nothing:
  assumes "Refresh parse_gv client now c mx w = (r, c', mx', w')"
  shows "(case r of
            Some e \<Rightarrow> c' = c \<and> \<not> (\<exists>gs answers. all_answered parse_gv client (rc_owned c) w gs answers)
          | None \<Rightarrow> \<exists>gs answers. all_answered parse_gv client (rc_owned c) w gs answers \<and>
              ServedGroups c' = {ag_Name g |g. g \<in> set gs \<and> cache_Owns c (ag_Name g)} \<and>
              rc_snapshot c' = \<lparr>sn_Groups = owned_groups (rc_owned c) gs, sn_Resources = map_of (rev answers)\<rparr> \<and>
              rc_synced c' \<and> rc_generation c' = rc_generation c + 1)"
proof (cases r)
  case (Some e)
  then have "c' = c" "fst (refresh parse_gv client c w) = Err e"
    using assms Refresh_failed[of parse_gv client now c mx w e c' mx' w'] by simp_all
  moreover from this(2) have "\<not> (\<exists>gs answers. all_answered parse_gv client (rc_owned c) w gs answers)"
    unfolding refresh_exactly(1)[symmetric] by auto
  ultimately show ?thesis using Some by simp
next
  case None
  with assms obtain c1 where ref: "refresh parse_gv client c w = (Ok c1, w')"
    and c': "c' = c1\<lparr>rc_matched := Some (groupNames (rc_snapshot c1))\<rparr>"
    using Refresh_ok[of parse_gv client now c mx w c' mx' w'] by auto
  from refresh_exactly(2)[OF ref] obtain gs answers where a: "all_answered parse_gv client (rc_owned c) w gs answers"
    and c1: "c1 = c\<lparr>rc_snapshot := \<lparr>sn_Groups = owned_groups (rc_owned c) gs, sn_Resources = map_of (rev answers)\<rparr>,
            rc_synced := True, rc_generation := rc_generation c + 1\<rparr>" by blast
  have "dom (owned_groups (rc_owned c) gs) = {ag_Name g |g. g \<in> set gs \<and> cache_Owns c (ag_Name g)}"
    by (auto simp: owned_groups_def cache_Owns_def dom_map_of_conv_image_fst image_iff)
  then have "ServedGroups c' = {ag_Name g |g. g \<in> set gs \<and> cache_Owns c (ag_Name g)}"
    by (simp add: c' c1 ServedGroups_def groupNames_def)
  with None a show ?thesis by (auto simp: c' c1 intro!: exI[of _ gs] exI[of _ answers])
qed

text \<open>The cache does not read the gauge, and what it remembers having matched is what it serves.\<close>

definition remembers :: "group_matcher \<Rightarrow> ResourceCache \<Rightarrow> bool" where
  "remembers owned c \<longleftrightarrow> (\<exists>mx. cache_inv owned (c, mx))"

lemma Refresh_same_cache:
  assumes "Refresh parse_gv client now c mx w = (r, c', mx', w')"
  shows "\<exists>mx1'. Refresh parse_gv client now c mx1 w = (r, c', mx1', w')"
  using assms by (auto simp: Refresh_def Let_def split: prod.splits sum.splits)

lemma Run_turns_remembers:
  "remembers owned c \<Longrightarrow> finite (gm_exact owned) \<Longrightarrow>
   Run_turns parse_gv client now onChange es (c, mx, w) = (c', mx', w') \<Longrightarrow> remembers owned c'"
proof (induction es arbitrary: c mx w)
  case Nil
  then show ?case by simp
next
  case (Cons e es)
  obtain r c1 mx1 w1 where r: "Refresh parse_gv client now c mx w = (r, c1, mx1, w1)"
    by (metis surj_pair)
  from Cons.prems(1) obtain mx0 where "cache_inv owned (c, mx0)" unfolding remembers_def by blast
  moreover from Refresh_same_cache[OF r] obtain mx2 where "Refresh parse_gv client now c mx0 w = (r, c1, mx2, w1)" by blast
  ultimately have inv: "remembers owned c1"
    unfolding remembers_def by (intro exI[of _ mx2]) (rule cache_inv_Refresh[OF _ Cons.prems(2)])
  show ?case
  proof (cases "stops e")
    case True
    with Cons.prems show ?thesis by simp
  next
    case False
    with Cons.prems(3) r
    have "\<exists>w2. Run_turns parse_gv client now onChange es (c1, mx1, w2) = (c', mx', w')"
      by (cases r) auto
    with Cons.IH[OF inv Cons.prems(2)] show ?thesis by blast
  qed
qed

lemma Refresh_publishes:
  assumes inv: "remembers owned c" and fin: "finite (gm_exact owned)"
    and r: "Refresh parse_gv client now c mx w = (None, c', mx', w')"
  shows "groupServed mx' g =
    (if g \<in> ServedGroups c' then Some 1 else if g \<in> set (Exact (Some owned)) then Some 0
     else if g \<in> ServedGroups c then None else groupServed mx g)"
proof -
  from inv have own: "rc_owned c = owned" and matched: "\<forall>g\<in>ServedGroups c. Matches (Some owned) g"
    and seen: "case rc_matched c of None \<Rightarrow> ServedGroups c = {} | Some seen \<Rightarrow> seen = ServedGroups c"
    by (auto simp: remembers_def cache_inv_def ServedGroups_def groupNames_def split: option.splits)
  have served: "ServedGroups c' = dom (sn_Groups (rc_snapshot c'))"
    by (simp add: ServedGroups_def groupNames_def)
  have "g \<in> gm_exact owned \<Longrightarrow> Matches (Some owned) g \<Longrightarrow> g \<in> set (Exact (Some owned))"
    using fin by (auto simp: Exact_def Matches_def)
  moreover have "g \<in> set (Exact (Some owned)) \<Longrightarrow> g \<in> gm_exact owned" using Exact_in_exact fin by blast
  ultimately show ?thesis using matched seen unfolding Refresh_gauge[OF r] own served
    by (cases "rc_matched c") (auto simp: drop_gone_def publish_current_def publish_exact_def)
qed


definition sample_group :: api_group where
  "sample_group = \<lparr>ag_Name = ''a.b.c'', ag_Versions = [\<lparr>av_GroupVersion = ''a.b.c/v1'', av_Version = ''v1''\<rparr>],
     ag_Preferred = \<lparr>av_GroupVersion = ''a.b.c/v1'', av_Version = ''v1''\<rparr>\<rparr>"

definition sample_parse :: "string \<Rightarrow> (string, group_version) result" where
  "sample_parse s = (case cut slash s of (g, v, found) \<Rightarrow> if found then Ok (GV g v) else Ok (GV [] s))"

text \<open>A workspace that serves the group for a while: the world counts the listings left that show it.\<close>

definition sample_client :: "nat discovery_client" where
  "sample_client =
     \<lparr>dc_ServerGroups = (\<lambda>w. (Ok (if w = 0 then [] else [sample_group]), w - 1)),
      dc_ServerResources = (\<lambda>_ w. (Ok [], w))\<rparr>"

theorem refresh_all_or_nothing_witness:
  "\<exists>m c' mx' w'. ParseGroupMatcher [''*.b.c''] = Ok m \<and>
     Refresh sample_parse sample_client int (NewResourceCache ''w'' m) no_metrics 1 = (None, c', mx', w') \<and>
     ServedGroups c' = {''a.b.c''} \<and> sn_Resources (rc_snapshot c') = [GV ''a.b.c'' ''v1'' \<mapsto> []] \<and> rc_generation c' = 1"
proof -
  let ?m = "\<lparr>gm_exact = {}, gm_suffixes = [''.b.c''], gm_excludedExact = {}, gm_excludedSuffixes = []\<rparr>"
  have p: "ParseGroupMatcher [''*.b.c''] = Ok ?m" by code_simp
  have a: "Matches (Some ?m) ''a.b.c''" by code_simp
  have gv: "sample_parse ''a.b.c/v1'' = Ok (GV ''a.b.c'' ''v1'')" by code_simp
  obtain r c' mx' w' where out:
    "Refresh sample_parse sample_client int (NewResourceCache ''w'' ?m) no_metrics 1 = (r, c', mx', w')"
    by (metis surj_pair)
  have "r = None"
    using out a by (auto simp: Refresh_def refresh_def sample_client_def sample_group_def sample_parse_def
        NewResourceCache_def Let_def)
  from refresh_all_or_nothing[OF out] obtain gs answers where
    all: "all_answered sample_parse sample_client ?m (1 :: nat) gs answers"
    and s: "ServedGroups c' = {ag_Name g |g. g \<in> set gs \<and> cache_Owns (NewResourceCache ''w'' ?m) (ag_Name g)}"
    and res: "sn_Resources (rc_snapshot c') = map_of (rev answers)" and gen: "rc_generation c' = 1"
    by (auto simp: \<open>r = None\<close> NewResourceCache_def)
  from all have gs: "gs = [sample_group]" and "\<exists>w1 w2. answered sample_parse sample_client (owned_versions ?m [sample_group]) w1 answers w2"
    by (auto simp: all_answered_def sample_client_def)
  moreover have "owned_versions ?m [sample_group] = [\<lparr>av_GroupVersion = ''a.b.c/v1'', av_Version = ''v1''\<rparr>]"
    using a by (simp add: owned_versions_def sample_group_def)
  ultimately have "answers = [(GV ''a.b.c'' ''v1'', [])]" using gv by (auto simp: sample_client_def)
  moreover have "ServedGroups c' = {''a.b.c''}"
    using s a by (auto simp: gs sample_group_def cache_Owns_def NewResourceCache_def)
  ultimately show ?thesis using p out \<open>r = None\<close> res gen by auto
qed


end
