(* ===== verification/Breaker.thy ===== *)
theory Breaker
  imports Metrics
begin

text \<open>
  The circuit breaker of \<open>pkg/apiserver/backend.go\<close>. Every operation holds the mutex for its
  whole body, so a concurrent run is an interleaving of whole operations: a request asks
  (\<open>allow\<close>) and, if admitted, later settles (\<open>breaker_record\<close>), and what happens in
  between is any sequence of other requests asking and settling. \<open>breaker_step\<close> is that
  interleaving; the invariants hold in every state it reaches.
\<close>

section \<open>State and operations\<close>

datatype circuit_state = CircuitClosed | CircuitOpen | CircuitHalfOpen

fun circuit_String :: "circuit_state \<Rightarrow> string" where
  "circuit_String CircuitOpen = ''open''"
| "circuit_String CircuitHalfOpen = ''half-open''"
| "circuit_String CircuitClosed = ''closed''"

record breaker =
  bk_workspace :: string
  bk_threshold :: int
  bk_cooldown :: duration
  bk_state :: circuit_state
  bk_failures :: int
  bk_openUntil :: time
  bk_probing :: bool

definition newBreaker :: "string \<Rightarrow> int \<Rightarrow> duration \<Rightarrow> breaker" where
  "newBreaker ws threshold cooldown =
     \<lparr>bk_workspace = ws, bk_threshold = threshold, bk_cooldown = cooldown,
      bk_state = CircuitClosed, bk_failures = 0, bk_openUntil = 0, bk_probing = False\<rparr>"

definition breaker_open :: "breaker \<Rightarrow> bool" where
  "breaker_open b \<longleftrightarrow> bk_state b = CircuitOpen"

text \<open>The gauge is written only when the state changes.\<close>

definition setState :: "circuit_state \<Rightarrow> breaker \<times> metrics \<Rightarrow> breaker \<times> metrics" where
  "setState next_state bm =
     (case bm of (b, mx) \<Rightarrow>
        if bk_state b \<noteq> next_state
        then (b\<lparr>bk_state := next_state\<rparr>,
              SetCircuitState (bk_workspace b) (circuit_String next_state) mx)
        else (b, mx))"

definition allow :: "breaker \<times> metrics \<Rightarrow> time \<Rightarrow> bool \<times> (breaker \<times> metrics)" where
  "allow bm now =
     (case bk_state (fst bm) of
        CircuitOpen \<Rightarrow>
          if now < bk_openUntil (fst bm) then (False, bm)
          else (case setState CircuitHalfOpen bm of
                  (b, mx) \<Rightarrow> (True, (b\<lparr>bk_probing := True\<rparr>, mx)))
      | CircuitHalfOpen \<Rightarrow>
          if bk_probing (fst bm) then (False, bm)
          else (True, ((fst bm)\<lparr>bk_probing := True\<rparr>, snd bm))
      | CircuitClosed \<Rightarrow> (True, bm))"

definition breaker_record :: "breaker \<times> metrics \<Rightarrow> bool \<Rightarrow> time \<Rightarrow> breaker \<times> metrics" where
  "breaker_record bm succeeded now =
     (if succeeded then
        setState CircuitClosed ((fst bm)\<lparr>bk_failures := 0, bk_probing := False\<rparr>, snd bm)
      else
        let b = (fst bm)\<lparr>bk_failures := bk_failures (fst bm) + 1\<rparr> in
        if bk_state b = CircuitHalfOpen \<or> bk_threshold b \<le> bk_failures b then
          setState CircuitOpen
            (b\<lparr>bk_failures := 0, bk_probing := False, bk_openUntil := now + bk_cooldown b\<rparr>, snd bm)
        else (b, snd bm))"

section \<open>The contract the transport relies on\<close>

text \<open>
  What a client of a circuit may assume: asking and settling keep the circuit sound, a refusal
  changes nothing, and a success lets the next request through.
\<close>

locale circuit_gate =
  fixes ask :: "'c \<Rightarrow> time \<Rightarrow> bool \<times> 'c"
    and settle :: "'c \<Rightarrow> bool \<Rightarrow> time \<Rightarrow> 'c"
    and sound :: "'c \<Rightarrow> bool"
  assumes ask_sound: "sound c \<Longrightarrow> sound (snd (ask c now))"
    and settle_sound: "sound c \<Longrightarrow> sound (settle c ok now)"
    and refusal_unchanged: "\<not> fst (ask c now) \<Longrightarrow> snd (ask c now) = c"
    and success_admits: "sound c \<Longrightarrow> fst (ask (settle c True now) later)"
begin

text \<open>
  What happens at the gate, in the order it happens: a request asks, or one settles. After any
  history the circuit is sound, and after any history that ends in a success the next request is
  let through.
\<close>

definition gate_event :: "time + bool \<times> time \<Rightarrow> 'c \<Rightarrow> 'c" where
  "gate_event e c = (case e of Inl now \<Rightarrow> snd (ask c now) | Inr (ok, now) \<Rightarrow> settle c ok now)"

lemma gate_event_sound: "sound c \<Longrightarrow> sound (gate_event e c)"
  by (auto simp: gate_event_def ask_sound settle_sound split: sum.splits)

lemma history_sound: "sound c \<Longrightarrow> sound (fold gate_event es c)"
  by (induction es arbitrary: c) (auto simp: gate_event_sound)

lemma success_recovers:
  "sound c \<Longrightarrow> fst (ask (settle (fold gate_event es c) True now) later)"
  by (simp add: history_sound success_admits)

end

section \<open>The invariant\<close>

definition wf_breaker :: "breaker \<times> metrics \<Rightarrow> bool" where
  "wf_breaker bm \<longleftrightarrow>
     (case bm of (b, mx) \<Rightarrow>
        1 \<le> bk_threshold b \<and> 0 \<le> bk_failures b \<and> bk_failures b < bk_threshold b \<and>
        (bk_probing b \<longleftrightarrow> bk_state b = CircuitHalfOpen) \<and>
        gauge_shows (bk_workspace b) (circuit_String (bk_state b)) mx)"

lemma wf_newBreaker [wf_intros]:
  "1 \<le> threshold \<Longrightarrow> gauge_shows ws ''closed'' mx \<Longrightarrow> wf_breaker (newBreaker ws threshold cooldown, mx)"
  by (simp add: wf_breaker_def newBreaker_def)

lemma wf_allow [wf_intros]: "wf_breaker bm \<Longrightarrow> wf_breaker (snd (allow bm now))"
  by (cases bm) (auto simp: wf_breaker_def allow_def setState_def split: circuit_state.splits)

lemma wf_record [wf_intros]: "wf_breaker bm \<Longrightarrow> wf_breaker (breaker_record bm ok now)"
  by (cases bm) (auto simp: wf_breaker_def breaker_record_def setState_def Let_def)

lemma allow_refused: "\<not> fst (allow bm now) \<Longrightarrow> snd (allow bm now) = bm"
  by (auto simp: allow_def split: circuit_state.splits prod.splits if_splits)

lemma record_success_closes: "bk_state (fst (breaker_record bm True now)) = CircuitClosed"
  by (cases bm) (auto simp: breaker_record_def setState_def)

lemma closed_admits: "bk_state (fst bm) = CircuitClosed \<Longrightarrow> allow bm now = (True, bm)"
  by (simp add: allow_def)

interpretation gate: circuit_gate allow breaker_record wf_breaker
  by unfold_locales
     (auto simp: wf_allow wf_record allow_refused closed_admits record_success_closes)

lemma config_frame [frame_simps]:
  "bk_threshold (fst (snd (allow bm now))) = bk_threshold (fst bm)"
  "bk_cooldown (fst (snd (allow bm now))) = bk_cooldown (fst bm)"
  "bk_workspace (fst (snd (allow bm now))) = bk_workspace (fst bm)"
  "bk_threshold (fst (breaker_record bm ok now)) = bk_threshold (fst bm)"
  "bk_cooldown (fst (breaker_record bm ok now)) = bk_cooldown (fst bm)"
  "bk_workspace (fst (breaker_record bm ok now)) = bk_workspace (fst bm)"
  by (cases bm; auto simp: allow_def breaker_record_def setState_def Let_def
        split: circuit_state.splits)+

section \<open>Concurrent requests\<close>

text \<open>
  The circuit with the number of admitted requests that have not settled. Any request may ask at
  any time, and any one of those in flight may settle next, with either outcome.
\<close>

record circuit_sys =
  cs_circuit :: "breaker \<times> metrics"
  cs_inflight :: nat

inductive breaker_step :: "circuit_sys \<Rightarrow> circuit_sys \<Rightarrow> bool" where
  admitted: "allow (cs_circuit s) now = (True, c) \<Longrightarrow>
     breaker_step s (s\<lparr>cs_circuit := c, cs_inflight := Suc (cs_inflight s)\<rparr>)"
| refused: "allow (cs_circuit s) now = (False, c) \<Longrightarrow> breaker_step s (s\<lparr>cs_circuit := c\<rparr>)"
| settled: "cs_inflight s = Suc n \<Longrightarrow>
     breaker_step s (s\<lparr>cs_circuit := breaker_record (cs_circuit s) ok now, cs_inflight := n\<rparr>)"

inductive circuit_reachable :: "string \<Rightarrow> int \<Rightarrow> duration \<Rightarrow> metrics \<Rightarrow> circuit_sys \<Rightarrow> bool"
  for ws :: string and threshold :: int and cooldown :: duration and mx :: metrics where
  fresh: "circuit_reachable ws threshold cooldown mx
     \<lparr>cs_circuit = (newBreaker ws threshold cooldown, PublishWorkspace ws mx), cs_inflight = 0\<rparr>"
| step: "circuit_reachable ws threshold cooldown mx s \<Longrightarrow> breaker_step s t \<Longrightarrow>
     circuit_reachable ws threshold cooldown mx t"

definition circuit_inv :: "circuit_sys \<Rightarrow> bool" where
  "circuit_inv s \<longleftrightarrow>
     wf_breaker (cs_circuit s) \<and>
     (bk_state (fst (cs_circuit s)) = CircuitHalfOpen \<longrightarrow> 0 < cs_inflight s)"

lemma record_leaves_half_open:
  "bk_state (fst (breaker_record bm ok now)) = CircuitHalfOpen \<Longrightarrow> False"
  by (cases bm) (auto simp: breaker_record_def setState_def Let_def split: if_splits)

lemma breaker_step_inv [wf_intros]: "breaker_step s t \<Longrightarrow> circuit_inv s \<Longrightarrow> circuit_inv t"
proof (induction rule: breaker_step.induct)
  case (admitted s now c)
  then show ?case using gate.ask_sound[of "cs_circuit s" now] by (simp add: circuit_inv_def)
next
  case (refused s now c)
  then have "c = cs_circuit s" using gate.refusal_unchanged[of "cs_circuit s" now] by simp
  with refused show ?case by (simp add: circuit_inv_def)
next
  case (settled s n ok now)
  then show ?case
    using gate.settle_sound[of "cs_circuit s" ok now] record_leaves_half_open[of "cs_circuit s" ok now]
    by (auto simp: circuit_inv_def)
qed

lemma reachable_circuit_inv:
  "circuit_reachable ws threshold cooldown mx s \<Longrightarrow> 1 \<le> threshold \<Longrightarrow> circuit_inv s"
proof (induction rule: circuit_reachable.induct)
  case fresh
  then show ?case
    using wf_newBreaker[of threshold ws "PublishWorkspace ws mx" cooldown]
    by (simp add: circuit_inv_def newBreaker_def)
next
  case (step s t)
  then show ?case by (blast intro: breaker_step_inv)
qed

section \<open>Consecutive failures\<close>

text \<open>
  The specification of when a closed circuit opens: \<open>failing_run\<close> is the number of failures
  at the end of a history of outcomes.
\<close>

definition failing_run :: "bool list \<Rightarrow> nat" where
  "failing_run outcomes = length (takeWhile Not (rev outcomes))"

fun record_all :: "breaker \<times> metrics \<Rightarrow> (bool \<times> time) list \<Rightarrow> breaker \<times> metrics" where
  "record_all bm [] = bm"
| "record_all bm ((ok, now) # rest) = record_all (breaker_record bm ok now) rest"

lemma record_all_snoc:
  "record_all bm (xs @ [(ok, now)]) = breaker_record (record_all bm xs) ok now"
  by (induction bm xs rule: record_all.induct) auto

lemma failing_run_snoc [simp]:
  "failing_run (xs @ [ok]) = (if ok then 0 else Suc (failing_run xs))"
  by (simp add: failing_run_def)

lemma failing_run_Nil [simp]: "failing_run [] = 0"
  by (simp add: failing_run_def)

text \<open>
  The abstraction: while no run of failures has reached the threshold, the circuit is closed and
  its counter is the run at the end of the history.
\<close>

lemma closed_counts_run:
  assumes "\<And>p. prefix p (map fst h) \<Longrightarrow> int (failing_run p) < bk_threshold (fst bm)"
    and "bk_state (fst bm) = CircuitClosed" and "bk_failures (fst bm) = 0"
  shows "bk_state (fst (record_all bm h)) = CircuitClosed \<and>
         bk_failures (fst (record_all bm h)) = int (failing_run (map fst h)) \<and>
         bk_threshold (fst (record_all bm h)) = bk_threshold (fst bm) \<and>
         bk_cooldown (fst (record_all bm h)) = bk_cooldown (fst bm)"
  using assms(1)
proof (induction h rule: rev_induct)
  case Nil
  then show ?case using assms by simp
next
  case (snoc x xs)
  obtain ok now where x: "x = (ok, now)" by (cases x)
  have "\<And>p. prefix p (map fst xs) \<Longrightarrow> int (failing_run p) < bk_threshold (fst bm)"
    using snoc.prems by simp
  note IH = snoc.IH[OF this]
  have "int (failing_run (map fst (xs @ [x]))) < bk_threshold (fst bm)"
    using snoc.prems by blast
  with IH show ?case
    by (cases "record_all bm xs"; cases ok)
       (auto simp: x record_all_snoc breaker_record_def setState_def Let_def)
qed

section \<open>Refusing\<close>

lemma half_open_refuses:
  "bk_state (fst bm) = CircuitHalfOpen \<Longrightarrow> bk_probing (fst bm) \<Longrightarrow> allow bm now = (False, bm)"
  by (simp add: allow_def)

lemma open_refuses:
  "bk_state (fst bm) = CircuitOpen \<Longrightarrow> now < bk_openUntil (fst bm) \<Longrightarrow> allow bm now = (False, bm)"
  by (simp add: allow_def)

lemma open_probes:
  "bk_state (fst bm) = CircuitOpen \<Longrightarrow> bk_openUntil (fst bm) \<le> now \<Longrightarrow>
   fst (allow bm now) \<and> bk_state (fst (snd (allow bm now))) = CircuitHalfOpen \<and>
   bk_probing (fst (snd (allow bm now)))"
  by (cases bm) (auto simp: allow_def setState_def)

fun ask_all :: "breaker \<times> metrics \<Rightarrow> time list \<Rightarrow> bool list \<times> (breaker \<times> metrics)" where
  "ask_all bm [] = ([], bm)"
| "ask_all bm (now # rest) =
     (case allow bm now of (yes, bm') \<Rightarrow>
        (case ask_all bm' rest of (answers, bm'') \<Rightarrow> (yes # answers, bm'')))"

lemma half_open_refuses_all:
  "bk_state (fst bm) = CircuitHalfOpen \<Longrightarrow> bk_probing (fst bm) \<Longrightarrow>
   ask_all bm ts = (replicate (length ts) False, bm)"
  by (induction ts) (auto simp: half_open_refuses)


lemma ask_all_append:
  "ask_all bm (xs @ ys) =
     (case ask_all bm xs of (as, bm') \<Rightarrow> (case ask_all bm' ys of (bs, bm'') \<Rightarrow> (as @ bs, bm'')))"
  by (induction bm xs rule: ask_all.induct) (auto split: prod.splits)

lemma open_refuses_all:
  "bk_state (fst bm) = CircuitOpen \<Longrightarrow> \<forall>t\<in>set ts. t < bk_openUntil (fst bm) \<Longrightarrow>
   ask_all bm ts = (replicate (length ts) False, bm)"
  by (induction ts) (auto simp: open_refuses)

lemma settle_half_open:
  "bk_state (fst bm) = CircuitHalfOpen \<Longrightarrow>
   bk_state (fst (breaker_record bm ok now)) = (if ok then CircuitClosed else CircuitOpen) \<and>
   bk_failures (fst (breaker_record bm ok now)) = 0 \<and>
   (\<not> ok \<longrightarrow> bk_openUntil (fst (breaker_record bm ok now)) = now + bk_cooldown (fst bm))"
  by (cases bm) (auto simp: breaker_record_def setState_def Let_def)

section \<open>Properties\<close>

text \<open>
  C20. The circuit opens on consecutive failures and on nothing else: from a fresh breaker, after
  any history of outcomes in which no run of failures has reached the threshold, the next outcome
  opens the circuit exactly when it is the failure that completes such a run, and then for one
  cooldown from that moment.
\<close>
theorem opens_at_consecutive_failures:
  assumes "1 \<le> threshold"
    and "\<forall>p. prefix p (map fst h) \<longrightarrow> int (failing_run p) < threshold"
  shows "let b = fst (breaker_record (record_all (newBreaker ws threshold cooldown, mx) h) ok now)
         in (bk_state b = CircuitOpen \<longleftrightarrow> threshold = int (failing_run (map fst h @ [ok]))) \<and>
            (bk_state b = CircuitClosed \<longleftrightarrow> int (failing_run (map fst h @ [ok])) < threshold) \<and>
            (bk_state b = CircuitOpen \<longrightarrow> bk_openUntil b = now + cooldown)"
proof -
  let ?bm = "record_all (newBreaker ws threshold cooldown, mx) h"
  have c: "bk_state (fst ?bm) = CircuitClosed \<and>
      bk_failures (fst ?bm) = int (failing_run (map fst h)) \<and>
      bk_threshold (fst ?bm) = threshold \<and> bk_cooldown (fst ?bm) = cooldown"
    using closed_counts_run[of h "(newBreaker ws threshold cooldown, mx)"] assms(2)
    by (simp add: newBreaker_def)
  have "int (failing_run (map fst h)) < threshold" using assms(2) by blast
  with c assms(1) show ?thesis
    by (cases ?bm; cases ok) (auto simp: breaker_record_def setState_def Let_def)
qed

theorem opens_at_consecutive_failures_witness:
  "bk_state (fst (breaker_record (record_all (newBreaker ''w'' 2 10, no_metrics)
      [(False, 1), (True, 2), (False, 3)]) False 4)) = CircuitOpen"
proof -
  have one: "(1::int) \<le> 2" by simp
  have pre: "\<forall>p. prefix p (map fst [(False, 1::int), (True, 2), (False, 3)]) \<longrightarrow> int (failing_run p) < 2"
    by (auto simp: prefix_Cons failing_run_def)
  show ?thesis
    using opens_at_consecutive_failures[OF one pre, of "''w''" 10 no_metrics False 4]
    by (simp add: Let_def failing_run_def)
qed

text \<open>
  C19. However concurrent requests interleave, in every reachable state the failure counter is
  below the threshold, a probe is marked exactly while the circuit is half open, the published
  gauge shows the state the breaker is in, and a half open circuit has a request in flight whose
  outcome will decide it, so it can never be stuck refusing.
\<close>
theorem reachable_circuit_sound:
  assumes "circuit_reachable ws threshold cooldown mx s" and "1 \<le> threshold"
  shows "let b = fst (cs_circuit s) in
         0 \<le> bk_failures b \<and> bk_failures b < bk_threshold b \<and>
         (bk_probing b \<longleftrightarrow> bk_state b = CircuitHalfOpen) \<and>
         gauge_shows (bk_workspace b) (circuit_String (bk_state b)) (snd (cs_circuit s)) \<and>
         (bk_state b = CircuitHalfOpen \<longrightarrow> 0 < cs_inflight s)"
  using reachable_circuit_inv[OF assms]
  by (cases "cs_circuit s") (simp add: circuit_inv_def wf_breaker_def Let_def)

theorem reachable_circuit_sound_witness:
  "\<exists>s. circuit_reachable ''w'' 1 10 no_metrics s \<and>
       bk_state (fst (cs_circuit s)) = CircuitHalfOpen \<and> 0 < cs_inflight s"
proof -
  let ?s0 = "\<lparr>cs_circuit = (newBreaker ''w'' 1 10, PublishWorkspace ''w'' no_metrics), cs_inflight = 0\<rparr>"
  let ?s1 = "?s0\<lparr>cs_circuit := snd (allow (cs_circuit ?s0) 1), cs_inflight := 1\<rparr>"
  let ?s2 = "?s1\<lparr>cs_circuit := breaker_record (cs_circuit ?s1) False 2, cs_inflight := 0\<rparr>"
  let ?s3 = "?s2\<lparr>cs_circuit := snd (allow (cs_circuit ?s2) 12), cs_inflight := 1\<rparr>"
  have r0: "circuit_reachable ''w'' 1 10 no_metrics ?s0" by (rule circuit_reachable.fresh)
  have "breaker_step ?s0 ?s1"
    using breaker_step.admitted[of ?s0 1] by (simp add: allow_def newBreaker_def)
  with r0 have r1: "circuit_reachable ''w'' 1 10 no_metrics ?s1" by (rule circuit_reachable.step)
  have "breaker_step ?s1 ?s2" using breaker_step.settled[of ?s1 0 False 2] by simp
  with r1 have r2: "circuit_reachable ''w'' 1 10 no_metrics ?s2" by (rule circuit_reachable.step)
  have a: "fst (allow (cs_circuit ?s2) 12) \<and> bk_state (fst (cs_circuit ?s3)) = CircuitHalfOpen"
    by (simp add: allow_def newBreaker_def breaker_record_def setState_def)
  have "breaker_step ?s2 ?s3"
    using breaker_step.admitted[of ?s2 12] a by (cases "allow (cs_circuit ?s2) 12") simp
  with r2 have r3: "circuit_reachable ''w'' 1 10 no_metrics ?s3" by (rule circuit_reachable.step)
  have one: "(1::int) \<le> 1" by simp
  show ?thesis using reachable_circuit_sound[OF r3 one] a r3 by (auto simp: Let_def)
qed

text \<open>
  An open circuit refuses every request until the cooldown has passed, then lets exactly one
  through, and refuses every later one until that one settles, whatever the times are.
\<close>
theorem one_probe_after_cooldown:
  assumes "bk_state (fst bm) = CircuitOpen"
    and "\<forall>t\<in>set early. t < bk_openUntil (fst bm)" and "bk_openUntil (fst bm) \<le> now"
  shows "fst (ask_all bm (early @ now # later)) =
         replicate (length early) False @ True # replicate (length later) False"
proof -
  obtain c where c: "allow bm now = (True, c)"
    using open_probes[OF assms(1,3)] by (cases "allow bm now") auto
  with open_probes[OF assms(1,3)]
  have "ask_all c later = (replicate (length later) False, c)"
    by (intro half_open_refuses_all) auto
  with c show ?thesis
    using open_refuses_all[OF assms(1,2)] by (simp add: ask_all_append)
qed

theorem one_probe_after_cooldown_witness:
  "fst (ask_all (breaker_record (newBreaker ''w'' 1 10, no_metrics) False 5) [6, 14, 15, 16, 99]) =
   [False, False, True, False, False]"
proof -
  let ?bm = "breaker_record (newBreaker ''w'' 1 10, no_metrics) False 5"
  have o: "bk_state (fst ?bm) = CircuitOpen" and u: "bk_openUntil (fst ?bm) = 15"
    by (simp_all add: breaker_record_def newBreaker_def setState_def)
  have e: "\<forall>t\<in>set [6, 14]. t < bk_openUntil (fst ?bm)" and l: "bk_openUntil (fst ?bm) \<le> 15"
    by (simp_all add: u)
  show ?thesis using one_probe_after_cooldown[OF o e l, of "[16, 99]"] by simp
qed

text \<open>
  The probe decides: from any open circuit whose cooldown has passed, a successful probe closes
  the circuit with no failures counted and everything is admitted again, and a failed one reopens
  it for a whole cooldown from the moment it failed.
\<close>
theorem probe_decides:
  assumes "bk_state (fst bm) = CircuitOpen" and "bk_openUntil (fst bm) \<le> asked"
  shows "let after = breaker_record (snd (allow bm asked)) ok settled in
         fst (allow bm asked) \<and> bk_failures (fst after) = 0 \<and>
         (if ok then bk_state (fst after) = CircuitClosed \<and> fst (allow after later)
          else bk_state (fst after) = CircuitOpen \<and>
               bk_openUntil (fst after) = settled + bk_cooldown (fst bm))"
proof -
  let ?c = "snd (allow bm asked)"
  note p = open_probes[OF assms]
  from p have h: "bk_state (fst ?c) = CircuitHalfOpen" by simp
  show ?thesis
    using p settle_half_open[OF h, of ok settled] closed_admits[of "breaker_record ?c ok settled" later]
    by (cases ok) (simp_all add: Let_def config_frame)
qed

theorem probe_decides_witness:
  "let bm = breaker_record (newBreaker ''w'' 1 10, no_metrics) False 5;
       after = breaker_record (snd (allow bm 15)) True 16
   in bk_state (fst bm) = CircuitOpen \<and> bk_state (fst after) = CircuitClosed \<and> fst (allow after 17)"
proof -
  let ?bm = "breaker_record (newBreaker ''w'' 1 10, no_metrics) False 5"
  have o: "bk_state (fst ?bm) = CircuitOpen" and l: "bk_openUntil (fst ?bm) \<le> 15"
    by (simp_all add: breaker_record_def newBreaker_def setState_def)
  show ?thesis using probe_decides[OF o l, of True 16 17] o by (simp add: Let_def)
qed

end
