(* ===== verification/Http.thy ===== *)
theory Http
  imports Go_Path
begin

text \<open>
  What the program reads and writes of an HTTP request and response, and of the Kubernetes request
  information attached to a request's context. A body is \<open>None\<close> when the Go field is nil or
  \<open>http.NoBody\<close>; the error flags say that reading it to the end fails. A query is a map from keys to the values they were given, as \<open>url.Values\<close>.
\<close>

type_synonym query = "string \<rightharpoonup> string list"

record request_info =
  ri_IsResourceRequest :: bool
  ri_Verb :: string
  ri_APIGroup :: string
  ri_APIVersion :: string
  ri_Namespace :: string
  ri_Resource :: string
  ri_Subresource :: string
  ri_Name :: string

record user_info =
  us_Name :: string
  us_UID :: string
  us_Groups :: "string list"
  us_Extra :: "(string \<times> string list) list"

record url =
  url_base :: string
  url_path :: string
  url_query :: query

record http_request =
  rq_method :: string
  rq_url :: url
  rq_contentType :: string
  rq_accept :: string
  rq_authorization :: "string option"
  rq_body :: "string option"
  rq_body_error :: bool
  rq_info :: "request_info option"
  rq_user :: "user_info option"

record http_response =
  rs_status :: int
  rs_body :: string
  rs_body_error :: bool

definition GET :: string where "GET = ''GET''"
definition HEAD :: string where "HEAD = ''HEAD''"
definition POST :: string where "POST = ''POST''"
definition PUT :: string where "PUT = ''PUT''"
definition PATCH :: string where "PATCH = ''PATCH''"
definition DELETE :: string where "DELETE = ''DELETE''"

lemmas method_defs = GET_def HEAD_def POST_def PUT_def PATCH_def DELETE_def

text \<open>\<open>url.Values.Get\<close>: the first value of a key, or nothing.\<close>

definition query_get :: "query \<Rightarrow> string \<Rightarrow> string" where
  "query_get q k = (case q k of Some (v # _) \<Rightarrow> v | _ \<Rightarrow> [])"

end
