(* ===== verification/Backend.thy ===== *)
theory Backend
  imports Breaker Http
begin

text \<open>
  \<open>backendTransport\<close> of \<open>pkg/apiserver/backend.go\<close>: the transport to kcp wrapped in the
  circuit breaker, retries for safe requests, and the metrics of the data path. The transport
  underneath, the request's context, the timer and the clock are the environment, a record of
  functions over a world that they may change; the theorems hold for every environment.
\<close>

section \<open>The environment\<close>

datatype transport_error = ErrCircuitOpen | ErrDeadlineExceeded | ErrCanceled | ErrConnection string

text \<open>
  \<open>env_base\<close> is the wrapped \<open>RoundTrip\<close>; \<open>env_ctx_err\<close> is \<open>ctx.Err()\<close>; \<open>env_wait\<close> is the
  select between the context being done (\<open>True\<close>) and a timer of the given length firing.
\<close>

record 'w env =
  env_base :: "'w \<Rightarrow> http_request \<Rightarrow> (transport_error, http_response) result \<times> 'w"
  env_ctx_err :: "'w \<Rightarrow> transport_error option"
  env_wait :: "'w \<Rightarrow> duration \<Rightarrow> bool \<times> 'w"
  env_now :: "'w \<Rightarrow> time"

record BackendOptions =
  bo_RequestTimeout :: duration
  bo_Retries :: int
  bo_FailureThreshold :: int
  bo_CircuitCooldown :: duration

record backendTransport =
  bt_workspace :: string
  bt_retries :: int

definition newBackendTransport :: "string \<Rightarrow> BackendOptions \<Rightarrow> backendTransport \<times> breaker" where
  "newBackendTransport ws options =
     (\<lparr>bt_workspace = ws, bt_retries = bo_Retries options\<rparr>,
      newBreaker ws (bo_FailureThreshold options) (bo_CircuitCooldown options))"

section \<open>Retries\<close>

definition retriable :: "http_request \<Rightarrow> bool" where
  "retriable req =
     (if rq_body req \<noteq> None then False else rq_method req = GET \<or> rq_method req = HEAD)"

fun retry_loop :: "'w env \<Rightarrow> string \<Rightarrow> http_request \<Rightarrow> nat \<Rightarrow> nat \<Rightarrow>
    (transport_error, http_response) result \<Rightarrow> 'w \<times> metrics \<Rightarrow>
    (transport_error, http_response) result \<times> ('w \<times> metrics)" where
  "retry_loop env ws req attempt 0 last_result wm = (last_result, wm)"
| "retry_loop env ws req attempt (Suc left) last_result (w, mx) =
     (if env_ctx_err env w \<noteq> None then (last_result, (w, mx))
      else (case env_wait env w ((int attempt + 1) * 50 * millisecond) of
              (True, w') \<Rightarrow> (last_result, (w', mx))
            | (False, w') \<Rightarrow>
                (case env_base env w' req of
                   (Ok resp, w'') \<Rightarrow> (Ok resp, (w'', ObserveProxyRetry ws mx))
                 | (Err e, w'') \<Rightarrow>
                     retry_loop env ws req (Suc attempt) left (Err e) (w'', ObserveProxyRetry ws mx))))"

definition roundTripWithRetries :: "'w env \<Rightarrow> backendTransport \<Rightarrow> http_request \<Rightarrow> 'w \<times> metrics \<Rightarrow>
    (transport_error, http_response) result \<times> ('w \<times> metrics)" where
  "roundTripWithRetries env t req wm =
     (case env_base env (fst wm) req of
        (Ok resp, w') \<Rightarrow> (Ok resp, (w', snd wm))
      | (Err e, w') \<Rightarrow>
          if \<not> retriable req then (Err e, (w', snd wm))
          else retry_loop env (bt_workspace t) req 0 (nat (bt_retries t)) (Err e) (w', snd wm))"

section \<open>Labels\<close>

definition requestLabels :: "http_request \<Rightarrow> string \<times> string" where
  "requestLabels req =
     (case rq_info req of None \<Rightarrow> (''unknown'', ''unknown'')
      | Some info \<Rightarrow>
          (if ri_Verb info = [] then ''unknown'' else ri_Verb info,
           if ri_Resource info = [] then ''unknown'' else ri_Resource info))"

definition statusLabel :: "(transport_error, http_response) result \<Rightarrow> string" where
  "statusLabel r = (case r of Err _ \<Rightarrow> ''<error>'' | Ok resp \<Rightarrow> show_int (rs_status resp))"

definition errorReason :: "transport_error option \<Rightarrow> transport_error \<Rightarrow> string" where
  "errorReason ctx_err err =
     (if err = ErrCircuitOpen then ''circuit_open''
      else if err = ErrDeadlineExceeded \<or> ctx_err = Some ErrDeadlineExceeded then ''timeout''
      else if err = ErrCanceled \<or> ctx_err = Some ErrCanceled then ''canceled''
      else ''connection'')"

section \<open>RoundTrip\<close>

text \<open>
  The state a transport threads through its requests: its circuit with the metrics, and the world.
\<close>

type_synonym 'w transport_state = "(breaker \<times> metrics) \<times> 'w"

definition counts_as_success :: "(transport_error, http_response) result \<Rightarrow> bool" where
  "counts_as_success r = (case r of Err _ \<Rightarrow> False | Ok resp \<Rightarrow> rs_status resp < 500)"

definition RoundTrip :: "'w env \<Rightarrow> backendTransport \<Rightarrow> http_request \<Rightarrow> 'w transport_state \<Rightarrow>
    (transport_error, http_response) result \<times> 'w transport_state" where
  "RoundTrip env t req st =
     (case requestLabels req of (verb, res) \<Rightarrow>
      case st of (bm, w) \<Rightarrow>
      case allow bm (env_now env w) of
        (False, (b, mx)) \<Rightarrow>
          (Err ErrCircuitOpen,
           ((b, ObserveProxyError (bt_workspace t) ''circuit_open'' verb res mx), w))
      | (True, (b, mx)) \<Rightarrow>
          let started = env_now env w in
          (case roundTripWithRetries env t req (w, mx) of
             (result, (w', mx')) \<Rightarrow>
               let mx1 = ObserveProxyRequest (bt_workspace t) verb res (statusLabel result)
                           (env_now env w' - started) mx';
                   (b', mx2) = breaker_record (b, mx1) (counts_as_success result) (env_now env w')
               in (case result of
                     Ok resp \<Rightarrow> (Ok resp, ((b', mx2), w'))
                   | Err e \<Rightarrow>
                       (Err e,
                        ((b', ObserveProxyError (bt_workspace t) (errorReason (env_ctx_err env w') e)
                                verb res mx2), w')))))"

section \<open>Facts about the retry loop\<close>

lemma retry_loop_gauge [frame_simps]:
  "gauge_shows a s (snd (snd (retry_loop env ws req k n r wm))) = gauge_shows a s (snd wm)"
  by (induction env ws req k n r wm rule: retry_loop.induct)
     (auto simp: frame_simps split: prod.splits bool.splits sum.splits)

lemma roundTripWithRetries_gauge [frame_simps]:
  "gauge_shows a s (snd (snd (roundTripWithRetries env t req wm))) = gauge_shows a s (snd wm)"
  by (cases wm) (auto simp: roundTripWithRetries_def frame_simps split: prod.splits sum.splits)

lemma not_retriable_once:
  "\<not> retriable req \<Longrightarrow> roundTripWithRetries env t req (w, mx) =
     (fst (env_base env w req), (snd (env_base env w req), mx))"
  by (auto simp: roundTripWithRetries_def split: prod.splits sum.splits)

lemma answered_once:
  "env_base env w req = (Ok resp, w') \<Longrightarrow>
   roundTripWithRetries env t req (w, mx) = (Ok resp, (w', mx))"
  by (simp add: roundTripWithRetries_def)

text \<open>
  A world that counts the requests sent: \<open>sent\<close> grows by one with every call of the wrapped
  transport and with nothing else. It is how a bound on the attempts can be stated for an
  environment that is otherwise arbitrary.
\<close>

definition counts_sends :: "'w env \<Rightarrow> ('w \<Rightarrow> nat) \<Rightarrow> bool" where
  "counts_sends env sent \<longleftrightarrow>
     (\<forall>w req. sent (snd (env_base env w req)) = Suc (sent w)) \<and>
     (\<forall>w d. sent (snd (env_wait env w d)) = sent w)"

lemma counts_sends_base: "counts_sends env sent \<Longrightarrow> env_base env w req = (r, w') \<Longrightarrow> sent w' = Suc (sent w)"
  unfolding counts_sends_def by (metis snd_conv)

lemma counts_sends_wait: "counts_sends env sent \<Longrightarrow> env_wait env w d = (b, w') \<Longrightarrow> sent w' = sent w"
  unfolding counts_sends_def by (metis snd_conv)

lemma retry_loop_bound:
  assumes "counts_sends env sent"
  shows "retry_loop env ws req k n r (w, mx) = (r', (w', mx')) \<Longrightarrow>
         sent w \<le> sent w' \<and> sent w' \<le> sent w + n \<and>
         proxyRetries mx' ws = proxyRetries mx ws + (sent w' - sent w)"
proof (induction n arbitrary: k r w mx)
  case 0
  then show ?case by simp
next
  case (Suc n)
  show ?case
  proof (cases "env_ctx_err env w \<noteq> None")
    case True
    with Suc.prems show ?thesis by simp
  next
    case False
    obtain b w1 where wait: "env_wait env w ((int k + 1) * 50 * millisecond) = (b, w1)"
      by (meson surj_pair)
    note s1 = counts_sends_wait[OF assms wait]
    obtain r2 w2 where base: "env_base env w1 req = (r2, w2)" by (meson surj_pair)
    note s2 = counts_sends_base[OF assms base]
    show ?thesis
    proof (cases b)
      case True
      with Suc.prems False wait s1 show ?thesis by simp
    next
      case nb: False
      show ?thesis
      proof (cases r2)
        case (Inr resp)
        with Suc.prems False wait base nb s1 s2 show ?thesis
          by (auto simp: ObserveProxyRetry_def)
      next
        case (Inl e)
        with Suc.prems False wait base nb
        have "retry_loop env ws req (Suc k) n (Err e) (w2, ObserveProxyRetry ws mx) = (r', (w', mx'))"
          by simp
        from Suc.IH[OF this] s1 s2 show ?thesis by (auto simp: ObserveProxyRetry_def)
      qed
    qed
  qed
qed

text \<open>What the loop returns: a success it saw, or an error.\<close>

lemma retry_loop_result:
  "retry_loop env ws req k n (Err e) wm = (r, wm') \<Longrightarrow>
   (\<exists>e'. r = Err e') \<or> (\<exists>resp w w'. r = Ok resp \<and> env_base env w req = (Ok resp, w'))"
proof (induction n arbitrary: k e wm)
  case 0
  then show ?case by auto
next
  case (Suc n)
  obtain w mx where wm: "wm = (w, mx)" by (cases wm)
  from Suc.prems show ?case
    by (auto simp: wm split: if_splits prod.splits bool.splits sum.splits dest: Suc.IH)
qed

section \<open>The circuit through a round trip\<close>

lemma wf_breaker_metrics:
  "(\<And>s. gauge_shows (bk_workspace b) s mx' = gauge_shows (bk_workspace b) s mx) \<Longrightarrow>
   wf_breaker (b, mx') = wf_breaker (b, mx)"
  by (simp add: wf_breaker_def)

lemma wf_breaker_observed [frame_simps]:
  "wf_breaker (b, ObserveProxyRequest w v q l d mx) = wf_breaker (b, mx)"
  "wf_breaker (b, ObserveProxyError w r v q mx) = wf_breaker (b, mx)"
  by (rule wf_breaker_metrics; simp add: frame_simps)+

lemma RoundTrip_refused:
  "\<not> fst (allow bm (env_now env w)) \<Longrightarrow>
   fst (RoundTrip env t req (bm, w)) = Err ErrCircuitOpen \<and>
   snd (snd (RoundTrip env t req (bm, w))) = w \<and>
   fst (fst (snd (RoundTrip env t req (bm, w)))) = fst bm"
  using gate.refusal_unchanged[of bm "env_now env w"]
  by (cases bm; cases "allow bm (env_now env w)")
     (auto simp: RoundTrip_def split: prod.splits)

lemma RoundTrip_admitted:
  assumes "allow bm (env_now env w) = (True, (b, mx))"
    and "roundTripWithRetries env t req (w, mx) = (r, (w', mx'))"
  shows "fst (RoundTrip env t req (bm, w)) = r \<and>
         snd (snd (RoundTrip env t req (bm, w))) = w' \<and>
         fst (fst (snd (RoundTrip env t req (bm, w)))) =
           fst (breaker_record (b, ObserveProxyRequest (bt_workspace t)
                  (fst (requestLabels req)) (snd (requestLabels req)) (statusLabel r)
                  (env_now env w' - env_now env w) mx') (counts_as_success r) (env_now env w'))"
  using assms by (auto simp: RoundTrip_def Let_def split: prod.splits sum.splits)

lemma wf_RoundTrip [wf_intros]:
  assumes "wf_breaker bm"
  shows "wf_breaker (fst (snd (RoundTrip env t req (bm, w))))"
proof -
  obtain yes c where Pair: "allow bm (env_now env w) = (yes, c)" by (meson surj_pair)
  obtain b mx where c: "c = (b, mx)" by (cases c)
  have sound: "wf_breaker (b, mx)"
    using gate.ask_sound[OF assms, of "env_now env w"] Pair c by simp
  show ?thesis
  proof (cases yes)
    case False
    with Pair c sound show ?thesis
      by (auto simp: RoundTrip_def frame_simps split: prod.splits)
  next
    case True
    obtain r w' mx' where r: "roundTripWithRetries env t req (w, mx) = (r, (w', mx'))"
      by (metis surj_pair)
    have "gauge_shows a s mx' = gauge_shows a s mx" for a s
      using roundTripWithRetries_gauge[of a s env t req "(w, mx)"] r by simp
    then have sound': "wf_breaker (b, mx')"
      using sound wf_breaker_metrics[of b mx' mx] by simp
    obtain verb res where labels: "requestLabels req = (verb, res)" by (meson surj_pair)
    let ?mx1 = "ObserveProxyRequest (bt_workspace t) verb res (statusLabel r)
                  (env_now env w' - env_now env w) mx'"
    obtain b' mx2 where rec:
      "breaker_record (b, ?mx1) (counts_as_success r) (env_now env w') = (b', mx2)"
      by (meson surj_pair)
    have "wf_breaker (b', mx2)"
      using gate.settle_sound[of "(b, ?mx1)" "counts_as_success r" "env_now env w'"] sound' rec
      by (simp add: frame_simps)
    then show ?thesis
      using Pair c True r labels rec
      by (cases r) (simp_all add: RoundTrip_def Let_def frame_simps)
  qed
qed

fun RoundTrips :: "'w env \<Rightarrow> backendTransport \<Rightarrow> http_request list \<Rightarrow> 'w transport_state \<Rightarrow>
    (transport_error, http_response) result list \<times> 'w transport_state" where
  "RoundTrips env t [] st = ([], st)"
| "RoundTrips env t (req # reqs) st =
     (case RoundTrip env t req st of (r, st') \<Rightarrow>
        (case RoundTrips env t reqs st' of (rs, st'') \<Rightarrow> (r # rs, st'')))"

lemma wf_RoundTrips [wf_intros]:
  "wf_breaker (fst st) \<Longrightarrow> wf_breaker (fst (snd (RoundTrips env t reqs st)))"
proof (induction env t reqs st rule: RoundTrips.induct)
  case (1 env t st)
  then show ?case by simp
next
  case (2 env t req reqs st)
  then show ?case
    using wf_RoundTrip[of "fst st" env t req "snd st"]
    by (cases "RoundTrip env t req st") (auto split: prod.splits)
qed


section \<open>Properties\<close>

text \<open>
  An environment for the witnesses: the world is the list of answers still to come and the
  number of requests sent; the context is never done.
\<close>

definition script_env :: "((transport_error, http_response) result list \<times> nat) env" where
  "script_env =
     \<lparr>env_base = (\<lambda>(answers, n) req.
        (case answers of [] \<Rightarrow> (Err (ErrConnection ''refused''), ([], Suc n))
         | a # rest \<Rightarrow> (a, (rest, Suc n)))),
      env_ctx_err = (\<lambda>_. None), env_wait = (\<lambda>w _. (False, w)), env_now = (\<lambda>w. int (snd w))\<rparr>"

definition sample_request :: "string \<Rightarrow> string option \<Rightarrow> http_request" where
  "sample_request verb body =
     \<lparr>rq_method = verb, rq_url = \<lparr>url_base = [], url_path = ''/apis/g/v/r'', url_query = Map.empty\<rparr>,
      rq_contentType = [], rq_accept = [], rq_authorization = None, rq_body = body, rq_body_error = False, rq_info = None, rq_user = None\<rparr>"

definition sample_response :: "int \<Rightarrow> http_response" where
  "sample_response status = \<lparr>rs_status = status, rs_body = [], rs_body_error = False\<rparr>"

lemma script_env_counts: "counts_sends script_env snd"
  by (auto simp: counts_sends_def script_env_def split: list.splits)

text \<open>
  C18. A request that could change something, or that carries a body, reaches kcp at most once:
  if the circuit lets it through it is sent exactly once and kcp's answer is returned as it came,
  and if not nothing is sent at all.
\<close>
theorem writes_are_sent_once:
  assumes "\<not> retriable req"
  shows "(fst (RoundTrip env t req (bm, w)), snd (snd (RoundTrip env t req (bm, w)))) =
         (if fst (allow bm (env_now env w)) then env_base env w req else (Err ErrCircuitOpen, w))"
proof (cases "fst (allow bm (env_now env w))")
  case False
  then show ?thesis using RoundTrip_refused[OF False] by simp
next
  case True
  then obtain b mx where a: "allow bm (env_now env w) = (True, (b, mx))"
    by (cases "allow bm (env_now env w)") auto
  show ?thesis
    using RoundTrip_admitted[OF a, of t req] not_retriable_once[OF assms, of env t w mx] True
    by (cases "env_base env w req") simp
qed

theorem writes_are_sent_once_witness:
  "(let out = RoundTrip script_env \<lparr>bt_workspace = ''w'', bt_retries = 5\<rparr>
      (sample_request POST (Some ''{}'')) ((newBreaker ''w'' 3 10, no_metrics), ([], 0))
    in fst out = Err (ErrConnection ''refused'') \<and> snd (snd out) = ([], 1))"
proof -
  have nr: "\<not> retriable (sample_request POST (Some ''{}''))"
    by (simp add: retriable_def sample_request_def)
  show ?thesis
    using writes_are_sent_once[OF nr, of script_env "\<lparr>bt_workspace = ''w'', bt_retries = 5\<rparr>"
        "(newBreaker ''w'' 3 10, no_metrics)" "([], 0)"]
    by (simp add: script_env_def allow_def newBreaker_def)
qed

text \<open>
  C33. The retry budget holds: whatever the environment does, one round trip sends at most one
  request more than the configured number of retries, and the retry counter grows by exactly the
  number of requests sent beyond the first. A negative setting means no retry.
\<close>
theorem retries_are_bounded:
  assumes "counts_sends env sent" and "RoundTrip env t req ((b, mx), w) = (r, ((b', mx'), w'))"
  shows "sent w \<le> sent w' \<and> sent w' \<le> sent w + 1 + nat (bt_retries t) \<and>
         proxyRetries mx' (bt_workspace t) =
           proxyRetries mx (bt_workspace t) + (sent w' - sent w - 1)"
proof -
  have setState_retries: "proxyRetries (snd (setState s c)) k = proxyRetries (snd c) k" for s c k
    by (cases c) (simp add: setState_def SetCircuitState_def)
  have record_retries: "proxyRetries (snd (breaker_record c ok now)) k = proxyRetries (snd c) k"
    for c ok now k by (simp add: breaker_record_def setState_retries Let_def)
  have allow_retries: "proxyRetries (snd (snd (allow c now))) k = proxyRetries (snd c) k" for c now k
    using setState_retries[of CircuitHalfOpen c k]
    by (auto simp: allow_def split: circuit_state.splits prod.splits)
  obtain yes b1 mx1 where a: "allow (b, mx) (env_now env w) = (yes, (b1, mx1))"
    by (metis surj_pair)
  have mx1: "proxyRetries mx1 k = proxyRetries mx k" for k
    using allow_retries[of "(b, mx)" "env_now env w" k] a by simp
  show ?thesis
  proof (cases yes)
    case False
    with assms(2) a mx1 show ?thesis
      by (auto simp: RoundTrip_def ObserveProxyError_def split: prod.splits)
  next
    case True
    obtain r2 w2 mx2 where rt: "roundTripWithRetries env t req (w, mx1) = (r2, (w2, mx2))"
      by (metis surj_pair)
    obtain r1 w1 where base: "env_base env w req = (r1, w1)" by (meson surj_pair)
    have s1: "sent w1 = Suc (sent w)" using counts_sends_base[OF assms(1) base] .
    have "sent w1 \<le> sent w2 \<and> sent w2 \<le> sent w1 + nat (bt_retries t) \<and>
          proxyRetries mx2 (bt_workspace t) = proxyRetries mx1 (bt_workspace t) + (sent w2 - sent w1)"
      using rt base retry_loop_bound[OF assms(1), of "bt_workspace t" req 0 "nat (bt_retries t)"]
      by (auto simp: roundTripWithRetries_def split: sum.splits if_splits)
    moreover have "w' = w2 \<and> proxyRetries mx' k = proxyRetries mx2 k" for k
      using assms(2) a True rt record_retries
      by (fastforce simp: RoundTrip_def Let_def ObserveProxyRequest_def ObserveProxyError_def
          split: prod.splits sum.splits dest: arg_cong[where f = "\<lambda>c. proxyRetries (snd c) k"])
    ultimately show ?thesis using s1 mx1 by simp
  qed
qed

theorem retries_are_bounded_witness:
  "\<exists>r b' mx' w'. RoundTrip script_env \<lparr>bt_workspace = ''w'', bt_retries = 2\<rparr>
       (sample_request GET None) ((newBreaker ''w'' 3 10, no_metrics), ([], 0)) = (r, ((b', mx'), w')) \<and>
     snd w' \<le> 3 \<and> proxyRetries mx' ''w'' = snd w' - 1"
proof -
  obtain r b' mx' w' where out: "RoundTrip script_env \<lparr>bt_workspace = ''w'', bt_retries = 2\<rparr>
       (sample_request GET None) ((newBreaker ''w'' 3 10, no_metrics), ([], 0)) = (r, ((b', mx'), w'))"
    by (metis surj_pair)
  show ?thesis
    using retries_are_bounded[OF script_env_counts out] out by (auto simp: no_metrics_def)
qed

text \<open>
  What counts against kcp: on a closed circuit, an answer below 500, a refusal of the
  caller's request included, clears the failure count; a server error or no answer adds one, and
  opens the circuit for a cooldown when that reaches the threshold.
\<close>
theorem round_trip_verdict:
  assumes "bk_state (fst bm) = CircuitClosed" and "RoundTrip env t req (bm, w) = (r, (bm', w'))"
  shows "if (\<exists>resp. r = Ok resp \<and> rs_status resp < 500)
         then bk_state (fst bm') = CircuitClosed \<and> bk_failures (fst bm') = 0
         else if bk_threshold (fst bm) \<le> bk_failures (fst bm) + 1
         then bk_state (fst bm') = CircuitOpen \<and>
              bk_openUntil (fst bm') = env_now env w' + bk_cooldown (fst bm)
         else bk_state (fst bm') = CircuitClosed \<and> bk_failures (fst bm') = bk_failures (fst bm) + 1"
proof -
  obtain b mx where bm: "bm = (b, mx)" by (cases bm)
  have a: "allow bm (env_now env w) = (True, (b, mx))" using closed_admits[OF assms(1)] bm by simp
  obtain r2 w2 mx2 where rt: "roundTripWithRetries env t req (w, mx) = (r2, (w2, mx2))"
    by (metis surj_pair)
  note adm = RoundTrip_admitted[OF a rt]
  have "counts_as_success r \<longleftrightarrow> (\<exists>resp. r = Ok resp \<and> rs_status resp < 500)"
    by (cases r) (auto simp: counts_as_success_def)
  then show ?thesis
    using adm assms bm by (auto simp: breaker_record_def setState_def Let_def)
qed

theorem round_trip_verdict_witness:
  "\<exists>bm' w'. RoundTrip script_env \<lparr>bt_workspace = ''w'', bt_retries = 2\<rparr> (sample_request GET None)
       ((newBreaker ''w'' 1 10, no_metrics), ([Ok (sample_response 503)], 0)) =
     (Ok (sample_response 503), (bm', w')) \<and> bk_state (fst bm') = CircuitOpen"
proof -
  let ?st = "((newBreaker ''w'' 1 10, no_metrics), ([Ok (sample_response 503)], 0))"
  let ?t = "\<lparr>bt_workspace = ''w'', bt_retries = 2\<rparr>"
  have c: "bk_state (fst (newBreaker ''w'' 1 10, no_metrics)) = CircuitClosed"
    by (simp add: newBreaker_def)
  obtain r bm' w' where out: "RoundTrip script_env ?t (sample_request GET None) ?st = (r, (bm', w'))"
    by (metis surj_pair)
  have a: "allow (newBreaker ''w'' 1 10, no_metrics) (env_now script_env ([Ok (sample_response 503)], 0)) =
      (True, (newBreaker ''w'' 1 10, no_metrics))" by (simp add: allow_def newBreaker_def)
  have "env_base script_env ([Ok (sample_response 503)], 0) (sample_request GET None) =
      (Ok (sample_response 503), ([], 1))" by (simp add: script_env_def)
  from RoundTrip_admitted[OF a answered_once[OF this]]
  have r: "r = Ok (sample_response 503)" using out by (metis fst_conv)
  show ?thesis
    using round_trip_verdict[OF c out] out r by (simp add: sample_response_def newBreaker_def)
qed

text \<open>
  C34. Whatever is sent through a transport and whatever kcp and the network answer, its circuit
  stays sound, and after a request that kcp answered below 500 the next one is always sent.
\<close>
theorem transport_recovers:
  assumes "wf_breaker (fst st)"
    and "RoundTrip env t req (snd (RoundTrips env t reqs st)) = (Ok resp, st')"
    and "rs_status resp < 500"
  shows "wf_breaker (fst st') \<and> fst (allow (fst st') now)"
proof -
  obtain bm w where st1: "snd (RoundTrips env t reqs st) = (bm, w)" by (metis surj_pair)
  have wf: "wf_breaker bm" using wf_RoundTrips[OF assms(1), of env t reqs] st1 by simp
  have wf': "wf_breaker (fst st')" using wf_RoundTrip[OF wf, of env t req w] assms(2) st1 by simp
  obtain yes b mx where a: "allow bm (env_now env w) = (yes, (b, mx))" by (metis surj_pair)
  have yes using assms(2) st1 a RoundTrip_refused[of bm env w t req] by (cases yes) auto
  obtain r2 w2 mx2 where rt: "roundTripWithRetries env t req (w, mx) = (r2, (w2, mx2))"
    by (metis surj_pair)
  have "bk_state (fst (fst st')) = CircuitClosed"
    using RoundTrip_admitted[of bm env w b mx t req r2 w2 mx2] a rt \<open>yes\<close> assms(2,3) st1
    by (auto simp: counts_as_success_def record_success_closes)
  then show ?thesis using wf' closed_admits[of "fst st'" now] by simp
qed

theorem transport_recovers_witness:
  "\<exists>st'. RoundTrip script_env \<lparr>bt_workspace = ''w'', bt_retries = 0\<rparr> (sample_request GET None)
       (snd (RoundTrips script_env \<lparr>bt_workspace = ''w'', bt_retries = 0\<rparr> []
          ((newBreaker ''w'' 2 10, PublishWorkspace ''w'' no_metrics), ([Ok (sample_response 404)], 0)))) =
       (Ok (sample_response 404), st') \<and> fst (allow (fst st') 7)"
proof -
  let ?t = "\<lparr>bt_workspace = ''w'', bt_retries = 0\<rparr>"
  let ?c = "(newBreaker ''w'' 2 10, PublishWorkspace ''w'' no_metrics)"
  let ?w = "([Ok (sample_response 404)], 0::nat)"
  have wf: "wf_breaker (fst (?c, ?w))" using wf_newBreaker[of 2 "''w''"] by simp
  obtain r st' where out: "RoundTrip script_env ?t (sample_request GET None)
      (snd (RoundTrips script_env ?t [] (?c, ?w))) = (r, st')" by (metis surj_pair)
  have a: "allow ?c (env_now script_env ?w) = (True, ?c)" by (simp add: allow_def newBreaker_def)
  have "env_base script_env ?w (sample_request GET None) = (Ok (sample_response 404), ([], 1))"
    by (simp add: script_env_def)
  from RoundTrip_admitted[OF a answered_once[OF this], of ?t]
  have r: "r = Ok (sample_response 404)" using out by simp
  have l: "rs_status (sample_response 404) < 500" by (simp add: sample_response_def)
  show ?thesis using transport_recovers[OF wf out[unfolded r] l, of 7] out r by auto
qed

end
