(* ===== verification/Backend_Client.thy ===== *)
theory Backend_Client
  imports Backend
begin

text \<open>
  \<open>pkg/apiserver/backendclient.go\<close>: the side requests spillway makes of a workspace on its own
  behalf (reads, OpenAPI documents, dry runs of patches, creating a namespace), over the proxy's
  transport. The transport is any state passing function; \<open>new_request_ok\<close> says whether
  \<open>http.NewRequest\<close> accepts the URL.
\<close>

section \<open>Requests and errors\<close>

datatype backend_error =
    BuildError string string
  | TransportFailed transport_error
  | BodyReadError string
  | StatusError int string string

type_synonym 'w transport = "'w \<Rightarrow> http_request \<Rightarrow> (transport_error, http_response) result \<times> 'w"

record backendClient =
  bc_location :: url

text \<open>\<open>maxSpecBytes\<close> of \<open>openapi.go\<close>.\<close>

definition maxSpecBytes :: nat where
  "maxSpecBytes = 32 * 2 ^ 20"

text \<open>A request over an empty reader carries no body.\<close>

definition reader_body :: "string option \<Rightarrow> string option" where
  "reader_body body = (if body = Some [] then None else body)"

definition side_info :: "string \<Rightarrow> string \<Rightarrow> request_info" where
  "side_info verb res =
     \<lparr>ri_IsResourceRequest = False, ri_Verb = verb, ri_APIGroup = [], ri_APIVersion = [],
      ri_Namespace = [], ri_Resource = res, ri_Subresource = [], ri_Name = []\<rparr>"

definition side_target :: "backendClient \<Rightarrow> string \<Rightarrow> query option \<Rightarrow> url" where
  "side_target c path q =
     (let target = (bc_location c)\<lparr>url_path := path_join [url_path (bc_location c), path]\<rparr>
      in case q of None \<Rightarrow> target | Some query \<Rightarrow> target\<lparr>url_query := query\<rparr>)"

definition side_request :: "backendClient \<Rightarrow> string \<Rightarrow> string \<Rightarrow> query option \<Rightarrow> string \<Rightarrow>
    string option \<Rightarrow> string \<Rightarrow> string \<Rightarrow> http_request" where
  "side_request c verb_http path q contentType body res verb =
     \<lparr>rq_method = verb_http, rq_url = side_target c path q, rq_contentType = contentType,
      rq_accept = ''application/json'', rq_authorization = None, rq_body = reader_body body, rq_body_error = False,
      rq_info = Some (side_info verb res), rq_user = None\<rparr>"

definition client_do :: "(url \<Rightarrow> bool) \<Rightarrow> 'w transport \<Rightarrow> backendClient \<Rightarrow> string \<Rightarrow> string \<Rightarrow>
    query option \<Rightarrow> string \<Rightarrow> string option \<Rightarrow> string \<Rightarrow> string \<Rightarrow> 'w \<Rightarrow>
    (backend_error, string) result \<times> 'w" where
  "client_do new_request_ok rt c verb_http path q contentType body res verb w =
     (if \<not> new_request_ok (side_target c path q) then (Err (BuildError verb_http path), w)
      else (case rt w (side_request c verb_http path q contentType body res verb) of
              (Err e, w') \<Rightarrow> (Err (TransportFailed e), w')
            | (Ok resp, w') \<Rightarrow>
                if rs_body_error resp then (Err (BodyReadError path), w')
                else let payload = take maxSpecBytes (rs_body resp) in
                  if rs_status resp \<noteq> 200 \<and> rs_status resp \<noteq> 201
                  then (Err (StatusError (rs_status resp) payload path), w')
                  else (Ok payload, w')))"

definition fetch :: "(url \<Rightarrow> bool) \<Rightarrow> 'w transport \<Rightarrow> backendClient \<Rightarrow> string \<Rightarrow> 'w \<Rightarrow>
    (backend_error, string) result \<times> 'w" where
  "fetch ok rt c path w = client_do ok rt c GET path None [] None ''spillway'' ''read'' w"

definition fetchSpec :: "(url \<Rightarrow> bool) \<Rightarrow> 'w transport \<Rightarrow> backendClient \<Rightarrow> string \<Rightarrow> 'w \<Rightarrow>
    (backend_error, string) result \<times> 'w" where
  "fetchSpec ok rt c path w = client_do ok rt c GET path None [] None ''openapi'' ''get'' w"

definition dry_run_query :: "query \<Rightarrow> query" where
  "dry_run_query caller = caller(''dryRun'' \<mapsto> [''All''])"

definition patchDryRun :: "(url \<Rightarrow> bool) \<Rightarrow> 'w transport \<Rightarrow> backendClient \<Rightarrow> string \<Rightarrow> query \<Rightarrow> string \<Rightarrow>
    string option \<Rightarrow> 'w \<Rightarrow> (backend_error, string) result \<times> 'w" where
  "patchDryRun ok rt c path caller contentType patch w =
     client_do ok rt c PATCH path (Some (dry_run_query caller)) contentType patch
       ''spillway'' ''dryrun'' w"

definition create :: "(url \<Rightarrow> bool) \<Rightarrow> 'w transport \<Rightarrow> backendClient \<Rightarrow> string \<Rightarrow> string \<Rightarrow> 'w \<Rightarrow>
    (backend_error, string) result \<times> 'w" where
  "create ok rt c path body w =
     client_do ok rt c POST path None ''application/json'' (Some body) ''spillway'' ''create'' w"

section \<open>The contract of a side channel\<close>

text \<open>
  What the callers of a side channel rely on: an answer is a 200 or a 201, a \<open>StatusError\<close>
  carries the status kcp answered with, and any other status kcp answers with, once its body is
  read, is reported as such.
\<close>

locale side_channel =
  fixes send :: "'w \<Rightarrow> (backend_error, string) result \<times> 'w"
    and answered :: "'w \<Rightarrow> int option"
    and readable :: "'w \<Rightarrow> bool"
  assumes ok_answered: "fst (send w) = Ok p \<Longrightarrow> answered w = Some 200 \<or> answered w = Some 201"
    and status_answered: "fst (send w) = Err (StatusError s b p) \<Longrightarrow>
          answered w = Some s \<and> s \<noteq> 200 \<and> s \<noteq> 201"
    and refusal_reported: "answered w = Some s \<Longrightarrow> s \<noteq> 200 \<Longrightarrow> s \<noteq> 201 \<Longrightarrow> readable w \<Longrightarrow>
          \<exists>b p. fst (send w) = Err (StatusError s b p)"
begin

lemma status_error_iff:
  "readable w \<Longrightarrow> s \<noteq> 200 \<Longrightarrow> s \<noteq> 201 \<Longrightarrow>
   (\<exists>b p. fst (send w) = Err (StatusError s b p)) \<longleftrightarrow> answered w = Some s"
  using refusal_reported status_answered by blast

lemma silence_is_an_error: "answered w = None \<Longrightarrow> \<exists>e. fst (send w) = Err e"
  using ok_answered by (cases "fst (send w)") fastforce+

end

definition answered_status :: "(url \<Rightarrow> bool) \<Rightarrow> 'w transport \<Rightarrow> backendClient \<Rightarrow> string \<Rightarrow> string \<Rightarrow>
    query option \<Rightarrow> string \<Rightarrow> string option \<Rightarrow> string \<Rightarrow> string \<Rightarrow> 'w \<Rightarrow> int option" where
  "answered_status new_request_ok rt c m path q ct body res verb w =
     (if \<not> new_request_ok (side_target c path q) then None
      else (case fst (rt w (side_request c m path q ct body res verb)) of
              Err _ \<Rightarrow> None | Ok resp \<Rightarrow> Some (rs_status resp)))"

definition answer_readable :: "'w transport \<Rightarrow> http_request \<Rightarrow> 'w \<Rightarrow> bool" where
  "answer_readable rt req w =
     (case fst (rt w req) of Err _ \<Rightarrow> False | Ok resp \<Rightarrow> \<not> rs_body_error resp)"

interpretation kcp_channel: side_channel
  "client_do new_request_ok rt c m path q ct body res verb"
  "answered_status new_request_ok rt c m path q ct body res verb"
  "answer_readable rt (side_request c m path q ct body res verb)"
  for new_request_ok rt c m path q ct body res verb
  by unfold_locales
     (auto simp: client_do_def answered_status_def answer_readable_def Let_def
        split: if_splits prod.splits sum.splits)

section \<open>What is sent\<close>

text \<open>A world that records every request the transport was given, in order.\<close>

definition logs_requests :: "'w transport \<Rightarrow> ('w \<Rightarrow> http_request list) \<Rightarrow> bool" where
  "logs_requests rt log \<longleftrightarrow> (\<forall>w req. log (snd (rt w req)) = log w @ [req])"

lemma client_do_log:
  assumes "logs_requests rt log"
  shows "log (snd (client_do ok rt c m path q ct body res verb w)) =
    log w @ (if ok (side_target c path q) then [side_request c m path q ct body res verb] else [])"
proof -
  obtain r w' where r: "rt w (side_request c m path q ct body res verb) = (r, w')" by (metis surj_pair)
  with assms have "log w' = log w @ [side_request c m path q ct body res verb]"
    unfolding logs_requests_def by (metis snd_conv)
  with r show ?thesis by (cases r) (auto simp: client_do_def Let_def)
qed

lemma side_request_fields [simp]:
  "rq_method (side_request c m path q ct body res verb) = m"
  "rq_url (side_request c m path q ct body res verb) = side_target c path q"
  by (simp_all add: side_request_def)

section \<open>Telling kcp's answers apart\<close>

text \<open>\<open>isAlreadyExists\<close> of \<open>namespaces.go\<close> and \<open>notFound\<close> of \<open>openapi.go\<close>.\<close>

definition isAlreadyExists :: "backend_error \<Rightarrow> bool" where
  "isAlreadyExists e = (case e of StatusError status _ _ \<Rightarrow> status = 409 | _ \<Rightarrow> False)"

definition notFound :: "backend_error \<Rightarrow> bool" where
  "notFound e = (case e of StatusError status _ _ \<Rightarrow> status = 404 | _ \<Rightarrow> False)"

lemma isAlreadyExists_iff: "isAlreadyExists e \<longleftrightarrow> (\<exists>b p. e = StatusError 409 b p)"
  by (cases e) (auto simp: isAlreadyExists_def)

lemma notFound_iff: "notFound e \<longleftrightarrow> (\<exists>b p. e = StatusError 404 b p)"
  by (cases e) (auto simp: notFound_def)

section \<open>Properties\<close>

text \<open>
  A side request believes kcp's status and nothing else: a value comes back exactly when kcp
  answered 200 or 201 with a readable body, and a conflict or an absence is recognised exactly when
  kcp answered 409 or 404 with one.
\<close>
theorem side_request_believes_status:
  assumes "answer_readable rt (side_request c m path q ct body res verb) w"
  shows "let r = fst (client_do ok rt c m path q ct body res verb w);
             status = answered_status ok rt c m path q ct body res verb w in
         (is_ok r \<longleftrightarrow> status = Some 200 \<or> status = Some 201) \<and>
         ((\<exists>e. r = Err e \<and> isAlreadyExists e) \<longleftrightarrow> status = Some 409) \<and>
         ((\<exists>e. r = Err e \<and> notFound e) \<longleftrightarrow> status = Some 404)"
proof -
  let ?r = "fst (client_do ok rt c m path q ct body res verb w)"
  let ?s = "answered_status ok rt c m path q ct body res verb w"
  have one: "is_ok ?r \<longleftrightarrow> ?s = Some 200 \<or> ?s = Some 201"
  proof
    assume "is_ok ?r"
    then obtain p where "?r = Ok p" by (auto simp: is_ok_iff)
    then show "?s = Some 200 \<or> ?s = Some 201" by (rule kcp_channel.ok_answered)
  next
    assume "?s = Some 200 \<or> ?s = Some 201"
    with assms show "is_ok ?r"
      by (auto simp: client_do_def answered_status_def answer_readable_def Let_def
          split: if_splits prod.splits sum.splits)
  qed
  have two: "(\<exists>b p. ?r = Err (StatusError s b p)) \<longleftrightarrow> ?s = Some s" if "s \<noteq> 200" "s \<noteq> 201" for s
    using that by (rule kcp_channel.status_error_iff[OF assms])
  have "(\<exists>e. ?r = Err e \<and> isAlreadyExists e) \<longleftrightarrow> ?s = Some 409"
    and "(\<exists>e. ?r = Err e \<and> notFound e) \<longleftrightarrow> ?s = Some 404"
    using two[of 409] two[of 404] by (auto simp: isAlreadyExists_iff notFound_iff)
  with one show ?thesis by (simp add: Let_def)
qed

theorem side_request_believes_status_witness:
  "let rt = (\<lambda>w req. (Ok \<lparr>rs_status = 409, rs_body = ''taken'', rs_body_error = False\<rparr>, w));
       c = \<lparr>bc_location = \<lparr>url_base = ''https://kcp'', url_path = ''/clusters/root'', url_query = Map.empty\<rparr>\<rparr>;
       r = fst (create (\<lambda>_. True) rt c ''/api/v1/namespaces'' ''{}'' ())
   in \<exists>e. r = Err e \<and> isAlreadyExists e"
proof -
  let ?rt = "\<lambda>w (req::http_request). (Ok \<lparr>rs_status = 409, rs_body = ''taken'', rs_body_error = False\<rparr> ::
      (transport_error, http_response) result, w::unit)"
  let ?c = "\<lparr>bc_location = \<lparr>url_base = ''https://kcp'', url_path = ''/clusters/root'', url_query = Map.empty\<rparr>\<rparr>"
  have h: "answer_readable ?rt (side_request ?c POST ''/api/v1/namespaces'' None ''application/json''
      (Some ''{}'') ''spillway'' ''create'') ()" by (simp add: answer_readable_def)
  show ?thesis
    using side_request_believes_status[OF h, of "\<lambda>_. True"]
    by (simp add: Let_def create_def answered_status_def)
qed

text \<open>
  A dry run never writes and loses nothing of what the caller asked: the one request it makes
  is a PATCH carrying \<open>dryRun=All\<close> and nothing else under that key, every other query parameter
  exactly as the caller gave it, and the caller's patch and content type.
\<close>
theorem dry_run_keeps_the_query:
  "\<exists>req. (\<forall>k. url_query (rq_url req) k = (if k = ''dryRun'' then Some [''All''] else caller k)) \<and>
         rq_method req = PATCH \<and> rq_contentType req = contentType \<and> rq_body req = reader_body patch \<and>
         url_path (rq_url req) = path_join [url_path (bc_location c), path] \<and>
         (\<forall>w. snd (patchDryRun ok rt c path caller contentType patch w) \<in> {w, snd (rt w req)})"
proof -
  let ?req = "side_request c PATCH path (Some (dry_run_query caller)) contentType patch
      ''spillway'' ''dryrun''"
  have "snd (patchDryRun ok rt c path caller contentType patch w) \<in> {w, snd (rt w ?req)}" for w
    by (auto simp: patchDryRun_def client_do_def Let_def split: prod.splits sum.splits)
  then show ?thesis
    by (intro exI[of _ ?req])
       (simp add: side_request_def side_target_def dry_run_query_def Let_def)
qed

end
