(* ===== verification/Keyed_Cache.thy ===== *)
theory Keyed_Cache
  imports Prelude
begin

text \<open>
  The contract three components share: a single entry cache that remembers which key its value was
  built from. The OpenAPI documents, the conversion policy and the router's merged snapshot are
  kept this way, each keyed on the generation of the API surface.
\<close>

locale keyed_cache =
  fixes held :: "'c \<Rightarrow> ('k \<times> 'v) option"
    and put :: "'k \<Rightarrow> 'v \<Rightarrow> 'c \<Rightarrow> 'c"
  assumes held_put: "held (put k v c) = Some (k, v)"
begin

text \<open>A hit: what is held for exactly this key.\<close>

definition hit :: "'c \<Rightarrow> 'k \<Rightarrow> 'v option" where
  "hit c k = (case held c of None \<Rightarrow> None | Some (k', v) \<Rightarrow> if k' = k then Some v else None)"

lemma hit_iff: "hit c k = Some v \<longleftrightarrow> held c = Some (k, v)"
  by (auto simp: hit_def split: option.splits)

lemma hit_after_put: "hit (put k v c) k' = (if k' = k then Some v else None)"
  by (simp add: hit_def held_put)

text \<open>
  Everything held satisfies a relation between key and value: true of an empty cache, kept by
  storing a related value, and what a hit may rely on.
\<close>

definition holds_only :: "('k \<Rightarrow> 'v \<Rightarrow> bool) \<Rightarrow> 'c \<Rightarrow> bool" where
  "holds_only P c \<longleftrightarrow> (\<forall>k v. held c = Some (k, v) \<longrightarrow> P k v)"

lemma holds_only_empty: "held c = None \<Longrightarrow> holds_only P c"
  by (simp add: holds_only_def)

lemma holds_only_put: "P k v \<Longrightarrow> holds_only P (put k v c)"
  by (simp add: holds_only_def held_put)

lemma holds_only_hit: "holds_only P c \<Longrightarrow> hit c k = Some v \<Longrightarrow> P k v"
  by (simp add: holds_only_def hit_iff)

lemma holds_only_mono: "holds_only P c \<Longrightarrow> (\<And>k v. P k v \<Longrightarrow> Q k v) \<Longrightarrow> holds_only Q c"
  by (auto simp: holds_only_def)

end

end
