(* ===== verification/Api_Surface.thy ===== *)
theory Api_Surface
  imports K8s
begin

text \<open>
  The interface the discovery and OpenAPI handlers read (\<open>snapshotter\<close> of \<open>discovery.go\<close> together
  with the router's per group lookups): a view of the API surface, and who backs each group of it.
  The router provides it.
\<close>

locale api_surface =
  fixes view :: "'s \<Rightarrow> Snapshot"
    and backer :: "'s \<Rightarrow> string \<Rightarrow> 'o option"
    and sound :: "'s \<Rightarrow> bool"
  assumes view_coherent: "sound s \<Longrightarrow> coherent (view s)"
    and backed_iff: "sound s \<Longrightarrow> backer s g \<noteq> None \<longleftrightarrow> sn_Groups (view s) g \<noteq> None"
begin

text \<open>Whoever finds the resources of a version finds the group, and somebody to ask for it.\<close>

lemma resources_have_group:
  "sound s \<Longrightarrow> sn_Resources (view s) gv = Some rs \<Longrightarrow> \<exists>ag. sn_Groups (view s) (gv_Group gv) = Some ag"
  using view_coherent[of s] by (auto simp: coherent_def)

lemma resources_are_backed:
  "sound s \<Longrightarrow> sn_Resources (view s) gv = Some rs \<Longrightarrow> \<exists>b. backer s (gv_Group gv) = Some b"
  using resources_have_group[of s gv rs] backed_iff[of s "gv_Group gv"] by auto

lemma unbacked_is_absent:
  "sound s \<Longrightarrow> backer s g = None \<Longrightarrow> sn_Groups (view s) g = None \<and> sn_Resources (view s) (GV g v) = None"
  using backed_iff[of s g] resources_are_backed[of s "GV g v"]
  by (cases "sn_Resources (view s) (GV g v)") auto

end

end
