(* ===== verification/Router.thy ===== *)
theory Router
  imports Resource_Cache Backend_Client Keyed_Cache Api_Surface
begin

text \<open>
  \<open>pkg/apiserver/router.go\<close>: spreading the API surface over several workspaces. Workspaces are
  held behind pointers that caches mutate in place, so they live in a store from addresses to
  workspaces and the router holds addresses; the pointer comparison of \<open>current\<close> is equality of
  addresses. Go's iteration over a map has no order; every loop here writes each key once, so it is
  a pointwise definition.
\<close>

section \<open>State\<close>

type_synonym addr = nat

record 'p workspace =
  ws_name :: string
  ws_fingerprint :: string
  ws_groups :: group_matcher
  ws_cache :: ResourceCache
  ws_proxy :: 'p
  ws_backend :: backendClient

type_synonym 'p store = "addr \<Rightarrow> 'p workspace"

record mergedSnapshot =
  ms_generation :: "64 word"
  ms_revision :: "64 word"
  ms_snapshot :: Snapshot
  ms_owners :: "string \<rightharpoonup> addr"

record router =
  rt_workspaces :: "addr list option"
  rt_revision :: "64 word"
  rt_merged :: "mergedSnapshot option"

definition zero_router :: router where
  "zero_router = \<lparr>rt_workspaces = None, rt_revision = 0, rt_merged = None\<rparr>"

text \<open>\<open>replace\<close> is two atomic operations, one after the other: the store of the set and the count.\<close>

definition router_store :: "addr list \<Rightarrow> router \<Rightarrow> router" where
  "router_store wss r = r\<lparr>rt_workspaces := Some wss\<rparr>"

definition router_revise :: "router \<Rightarrow> router" where
  "router_revise r = r\<lparr>rt_revision := rt_revision r + 1\<rparr>"

definition router_replace :: "addr list \<Rightarrow> router \<Rightarrow> router" where
  "router_replace wss r = router_revise (router_store wss r)"

lemma router_replace_eq: "router_replace wss r = r\<lparr>rt_workspaces := Some wss, rt_revision := rt_revision r + 1\<rparr>"
  by (simp add: router_replace_def router_revise_def router_store_def)

definition newRouter :: "addr list \<Rightarrow> router" where
  "newRouter wss = router_replace wss zero_router"

definition router_snapshot :: "router \<Rightarrow> addr list" where
  "router_snapshot r = (case rt_workspaces r of None \<Rightarrow> [] | Some wss \<Rightarrow> wss)"

fun sum_generations :: "'p store \<Rightarrow> addr list \<Rightarrow> 64 word \<Rightarrow> 64 word" where
  "sum_generations st [] tally = tally"
| "sum_generations st (a # as) tally = sum_generations st as (tally + rc_generation (ws_cache (st a)))"

definition Generation :: "'p store \<Rightarrow> router \<Rightarrow> 64 word" where
  "Generation st r = sum_generations st (router_snapshot r) 0"

definition router_HasSynced :: "'p store \<Rightarrow> router \<Rightarrow> bool" where
  "router_HasSynced st r \<longleftrightarrow> list_all (\<lambda>a. rc_synced (ws_cache (st a))) (router_snapshot r)"

definition configuredFor :: "'p store \<Rightarrow> router \<Rightarrow> string \<Rightarrow> addr option" where
  "configuredFor st r g = List.find (\<lambda>a. Matches (Some (ws_groups (st a))) g) (router_snapshot r)"

definition router_Owns :: "'p store \<Rightarrow> router \<Rightarrow> string \<Rightarrow> bool" where
  "router_Owns st r g \<longleftrightarrow> configuredFor st r g \<noteq> None"

section \<open>The merged view\<close>

text \<open>
  One turn of the loop over the workspaces: its groups that are not taken yet, then the resources
  of the groups it owns now.
\<close>

definition merge_workspace :: "'p store \<Rightarrow> addr \<Rightarrow> Snapshot \<times> (string \<rightharpoonup> addr) \<Rightarrow> Snapshot \<times> (string \<rightharpoonup> addr)" where
  "merge_workspace st a acc =
     (case acc of (snap, owners) \<Rightarrow>
        let ours = rc_snapshot (ws_cache (st a));
            groups' = (\<lambda>g. if sn_Groups ours g \<noteq> None \<and> sn_Groups snap g = None
                           then sn_Groups ours g else sn_Groups snap g);
            owners' = (\<lambda>g. if sn_Groups ours g \<noteq> None \<and> sn_Groups snap g = None
                           then Some a else owners g);
            resources' = (\<lambda>gv. if sn_Resources ours gv \<noteq> None \<and> owners' (gv_Group gv) = Some a
                               then sn_Resources ours gv else sn_Resources snap gv)
        in (\<lparr>sn_Groups = groups', sn_Resources = resources'\<rparr>, owners'))"

definition merge_all :: "'p store \<Rightarrow> addr list \<Rightarrow> Snapshot \<times> (string \<rightharpoonup> addr)" where
  "merge_all st as = fold (merge_workspace st) as (empty_snapshot, Map.empty)"

definition build_merged :: "'p store \<Rightarrow> router \<Rightarrow> 64 word \<Rightarrow> 64 word \<Rightarrow> mergedSnapshot" where
  "build_merged st r generation revision =
     (case merge_all st (router_snapshot r) of
        (snap, owners) \<Rightarrow>
          \<lparr>ms_generation = generation, ms_revision = revision, ms_snapshot = snap, ms_owners = owners\<rparr>)"

definition merged_hit :: "64 word \<Rightarrow> 64 word \<Rightarrow> mergedSnapshot option \<Rightarrow> mergedSnapshot option" where
  "merged_hit generation revision held =
     (case held of None \<Rightarrow> None
      | Some m \<Rightarrow> if ms_generation m = generation \<and> ms_revision m = revision then Some m else None)"

text \<open>
  \<open>current\<close> after its key has been read: the lookup, and under the lock the lookup again and the
  rebuild. \<open>current\<close> itself reads the key first.
\<close>

definition current_keyed :: "'p store \<Rightarrow> 64 word \<Rightarrow> 64 word \<Rightarrow> router \<Rightarrow> mergedSnapshot \<times> router" where
  "current_keyed st generation revision r =
     (case merged_hit generation revision (rt_merged r) of
        Some m \<Rightarrow> (m, r)
      | None \<Rightarrow>
          let m = build_merged st r generation revision in (m, r\<lparr>rt_merged := Some m\<rparr>))"

definition current :: "'p store \<Rightarrow> router \<Rightarrow> mergedSnapshot \<times> router" where
  "current st r = current_keyed st (Generation st r) (rt_revision r) r"

definition router_Snapshot :: "'p store \<Rightarrow> router \<Rightarrow> Snapshot \<times> router" where
  "router_Snapshot st r = (case current st r of (m, r') \<Rightarrow> (ms_snapshot m, r'))"

definition router_ServedGroups :: "'p store \<Rightarrow> router \<Rightarrow> string set \<times> router" where
  "router_ServedGroups st r = (case current st r of (m, r') \<Rightarrow> (groupNames (ms_snapshot m), r'))"

definition servingFor :: "'p store \<Rightarrow> router \<Rightarrow> string \<Rightarrow> addr option \<times> router" where
  "servingFor st r g = (case current st r of (m, r') \<Rightarrow> (ms_owners m g, r'))"

definition proxyFor :: "'p store \<Rightarrow> router \<Rightarrow> string \<Rightarrow> 'p option \<times> router" where
  "proxyFor st r g =
     (case servingFor st r g of
        (None, r') \<Rightarrow> (None, r') | (Some a, r') \<Rightarrow> (Some (ws_proxy (st a)), r'))"

text \<open>
  A side channel is a pointer into its workspace, over whose transport it sends: it comes with the
  workspace's address.
\<close>

definition fetcherFor :: "'p store \<Rightarrow> router \<Rightarrow> string \<Rightarrow> (addr \<times> backendClient) option \<times> router" where
  "fetcherFor st r g =
     (case servingFor st r g of
        (None, r') \<Rightarrow> (None, r') | (Some a, r') \<Rightarrow> (Some (a, ws_backend (st a)), r'))"

definition fetchers :: "'p store \<Rightarrow> router \<Rightarrow> (string \<times> addr \<times> backendClient) list" where
  "fetchers st r = map (\<lambda>a. (ws_name (st a), a, ws_backend (st a))) (router_snapshot r)"

section \<open>The specification of the merge\<close>

text \<open>
  A group belongs to the first workspace in order that serves it, and everything merged of it is
  that workspace's.
\<close>

definition first_serving :: "'p store \<Rightarrow> addr list \<Rightarrow> string \<Rightarrow> addr option" where
  "first_serving st as g = List.find (\<lambda>a. g \<in> ServedGroups (ws_cache (st a))) as"

definition merge_spec :: "'p store \<Rightarrow> addr list \<Rightarrow> Snapshot \<times> (string \<rightharpoonup> addr) \<Rightarrow> bool" where
  "merge_spec st as acc \<longleftrightarrow>
     (\<forall>g. snd acc g = first_serving st as g) \<and>
     (\<forall>g. sn_Groups (fst acc) g =
            (case first_serving st as g of None \<Rightarrow> None
             | Some a \<Rightarrow> sn_Groups (rc_snapshot (ws_cache (st a))) g)) \<and>
     (\<forall>gv. sn_Resources (fst acc) gv =
            (case first_serving st as (gv_Group gv) of None \<Rightarrow> None
             | Some a \<Rightarrow> sn_Resources (rc_snapshot (ws_cache (st a))) gv))"

lemma first_serving_snoc:
  "first_serving st (as @ [a]) g =
     (case first_serving st as g of
        Some b \<Rightarrow> Some b | None \<Rightarrow> if g \<in> ServedGroups (ws_cache (st a)) then Some a else None)"
  by (induction as) (auto simp: first_serving_def)

lemma first_serving_serves:
  "first_serving st as g = Some a \<Longrightarrow> g \<in> ServedGroups (ws_cache (st a)) \<and> a \<in> set as"
  unfolding first_serving_def by (induction as) (auto split: if_splits)

lemma served_iff: "g \<in> ServedGroups (ws_cache (st a)) \<longleftrightarrow> sn_Groups (rc_snapshot (ws_cache (st a))) g \<noteq> None"
  by (auto simp: ServedGroups_def groupNames_def)

lemma spec_groups_taken:
  "merge_spec st as acc \<Longrightarrow> sn_Groups (fst acc) g = None \<longleftrightarrow> first_serving st as g = None"
  by (auto simp: merge_spec_def served_iff split: option.splits dest: first_serving_serves)

lemma merge_workspace_spec:
  assumes "merge_spec st as acc"
  shows "merge_spec st (as @ [a]) (merge_workspace st a acc)"
proof -
  obtain snap owners where acc: "acc = (snap, owners)" by (cases acc)
  have own: "owners g = first_serving st as g" for g using assms acc by (simp add: merge_spec_def)
  have grp: "sn_Groups snap g = (case first_serving st as g of None \<Rightarrow> None
      | Some b \<Rightarrow> sn_Groups (rc_snapshot (ws_cache (st b))) g)" for g
    using assms acc by (simp add: merge_spec_def)
  have res: "sn_Resources snap gv = (case first_serving st as (gv_Group gv) of None \<Rightarrow> None
      | Some b \<Rightarrow> sn_Resources (rc_snapshot (ws_cache (st b))) gv)" for gv
    using assms acc by (simp add: merge_spec_def)
  have taken: "sn_Groups snap g = None \<longleftrightarrow> first_serving st as g = None" for g
    using spec_groups_taken[OF assms] acc by simp
  have o': "snd (merge_workspace st a acc) g = first_serving st (as @ [a]) g" for g
    by (simp add: acc merge_workspace_def Let_def first_serving_snoc served_iff taken own
        split: option.splits)
  have "sn_Groups (fst (merge_workspace st a acc)) g =
      (case first_serving st (as @ [a]) g of None \<Rightarrow> None
       | Some b \<Rightarrow> sn_Groups (rc_snapshot (ws_cache (st b))) g)" for g
    using taken[of g] grp[of g]
    by (cases "first_serving st as g")
       (auto simp: acc merge_workspace_def Let_def first_serving_snoc served_iff)
  moreover have "sn_Resources (fst (merge_workspace st a acc)) gv =
      (case first_serving st (as @ [a]) (gv_Group gv) of None \<Rightarrow> None
       | Some b \<Rightarrow> sn_Resources (rc_snapshot (ws_cache (st b))) gv)" for gv
  proof -
    have "sn_Resources (fst (merge_workspace st a acc)) gv =
      (if sn_Resources (rc_snapshot (ws_cache (st a))) gv \<noteq> None \<and>
          snd (merge_workspace st a acc) (gv_Group gv) = Some a
       then sn_Resources (rc_snapshot (ws_cache (st a))) gv else sn_Resources snap gv)"
      by (simp add: acc merge_workspace_def Let_def)
    then show ?thesis
      by (auto simp: o' first_serving_snoc res split: option.splits)
  qed
  ultimately show ?thesis using o' by (simp add: merge_spec_def)
qed

lemma merge_all_spec: "merge_spec st as (merge_all st as)"
proof (induction as rule: rev_induct)
  case Nil
  then show ?case by (simp add: merge_all_def merge_spec_def first_serving_def)
next
  case (snoc a as)
  then show ?case using merge_workspace_spec by (simp add: merge_all_def)
qed

lemma merge_all_owner: "snd (merge_all st as) g = first_serving st as g"
  using merge_all_spec[of st as] by (simp add: merge_spec_def)

lemma merge_all_groups:
  "sn_Groups (fst (merge_all st as)) g =
     (case first_serving st as g of None \<Rightarrow> None
      | Some a \<Rightarrow> sn_Groups (rc_snapshot (ws_cache (st a))) g)"
  using merge_all_spec[of st as] by (simp add: merge_spec_def)

lemma merge_all_resources:
  "sn_Resources (fst (merge_all st as)) gv =
     (case first_serving st as (gv_Group gv) of None \<Rightarrow> None
      | Some a \<Rightarrow> sn_Resources (rc_snapshot (ws_cache (st a))) gv)"
  using merge_all_spec[of st as] by (simp add: merge_spec_def)

lemma merge_all_served: "sn_Groups (fst (merge_all st as)) g \<noteq> None \<longleftrightarrow> snd (merge_all st as) g \<noteq> None"
  using spec_groups_taken[OF merge_all_spec, of st as g] by (simp add: merge_all_owner)

lemma merge_all_coherent: "coherent (fst (merge_all st as))"
  unfolding coherent_def
proof
  fix gv assume "gv \<in> dom (sn_Resources (fst (merge_all st as)))"
  then have "first_serving st as (gv_Group gv) \<noteq> None"
    by (auto simp: merge_all_resources split: option.splits)
  then show "gv_Group gv \<in> dom (sn_Groups (fst (merge_all st as)))"
    using merge_all_served[of st as "gv_Group gv"] by (auto simp: merge_all_owner)
qed

section \<open>The cache of the merged view\<close>

definition held_merged :: "router \<Rightarrow> ((64 word \<times> 64 word) \<times> (Snapshot \<times> (string \<rightharpoonup> addr))) option" where
  "held_merged r =
     map_option (\<lambda>m. ((ms_generation m, ms_revision m), (ms_snapshot m, ms_owners m))) (rt_merged r)"

definition put_merged :: "64 word \<times> 64 word \<Rightarrow> Snapshot \<times> (string \<rightharpoonup> addr) \<Rightarrow> router \<Rightarrow> router" where
  "put_merged k v r =
     r\<lparr>rt_merged := Some \<lparr>ms_generation = fst k, ms_revision = snd k, ms_snapshot = fst v, ms_owners = snd v\<rparr>\<rparr>"

interpretation merged_view: keyed_cache held_merged put_merged
  by unfold_locales (simp add: held_merged_def put_merged_def)

lemma put_merged_frame [frame_simps]:
  "router_snapshot (put_merged k v r) = router_snapshot r"
  "rt_revision (put_merged k v r) = rt_revision r"
  "rt_workspaces (put_merged k v r) = rt_workspaces r"
  by (simp_all add: put_merged_def router_snapshot_def)

text \<open>What \<open>current\<close> answers and leaves behind, in terms of the cache.\<close>

lemma current_keyed_cases:
  "(case merged_view.hit r (g, rv) of
      Some v \<Rightarrow> (ms_snapshot (fst (current_keyed st g rv r)), ms_owners (fst (current_keyed st g rv r))) = v \<and>
        snd (current_keyed st g rv r) = r
    | None \<Rightarrow> (ms_snapshot (fst (current_keyed st g rv r)), ms_owners (fst (current_keyed st g rv r))) =
          merge_all st (router_snapshot r) \<and>
        snd (current_keyed st g rv r) = put_merged (g, rv) (merge_all st (router_snapshot r)) r)"
  by (cases "rt_merged r"; cases "merge_all st (router_snapshot r)")
     (auto simp: merged_view.hit_def held_merged_def current_keyed_def merged_hit_def build_merged_def
        put_merged_def Let_def)

lemma current_keyed_frame [frame_simps]:
  "router_snapshot (snd (current_keyed st g rv r)) = router_snapshot r"
  "rt_revision (snd (current_keyed st g rv r)) = rt_revision r"
  using current_keyed_cases[where r = r and g = g and rv = rv and st = st]
  by (cases "merged_view.hit r (g, rv)"; simp add: frame_simps)+

lemma current_frame [frame_simps]:
  "router_snapshot (snd (current st r)) = router_snapshot r"
  "rt_revision (snd (current st r)) = rt_revision r"
  "Generation st (snd (current st r)) = Generation st r"
  by (simp_all add: current_def frame_simps Generation_def)

section \<open>Concurrent readers, refreshes and replacements\<close>

text \<open>
  The router in use. A refresh of a workspace publishes its snapshot and then counts it
  (\<open>ResourceCache.refresh\<close>). A replacement stores the set and then counts it; there is one at a time,
  under the manager's lock. A reader adds up the generations of the set it loaded, one workspace after
  the other, then loads the revision, looks its key up, and when it is not there takes the router's lock
  and merges one workspace after the other. Each atomic operation is a step of its own, and the steps of
  any number of readers, refreshes and replacements interleave in any order.
\<close>

datatype reader =
  Summing "addr list" "64 word" bool
| Keyed "64 word" "64 word"
| Building "64 word" "64 word" "addr list" "addr list" "Snapshot \<times> (string \<rightharpoonup> addr)"

text \<open>
  Three fields are for the statements, not the program's: \<open>rs_pending\<close> is the workspaces whose refresh
  has published and not counted yet, \<open>rs_swapping\<close> says that a replacement has stored its set and not
  counted it yet, and \<open>rs_torn\<close> is the keys that readers put together across a replacement, from a sum
  begun before the set was stored and a revision loaded after that. The flag of \<open>Summing\<close> marks such a sum.
\<close>

record 'p route_sys =
  rs_store :: "'p store"
  rs_router :: router
  rs_readers :: "reader list"
  rs_pending :: "addr set"
  rs_swapping :: bool
  rs_torn :: "(64 word \<times> 64 word) set"

definition set_snapshot :: "'p store \<Rightarrow> addr \<Rightarrow> Snapshot \<Rightarrow> 'p store" where
  "set_snapshot st a snap = st(a := (st a)\<lparr>ws_cache := (ws_cache (st a))\<lparr>rc_snapshot := snap\<rparr>\<rparr>)"

definition count_refresh :: "'p store \<Rightarrow> addr \<Rightarrow> 'p store" where
  "count_refresh st a = st(a := (st a)\<lparr>ws_cache := (ws_cache (st a))
     \<lparr>rc_synced := True, rc_generation := rc_generation (ws_cache (st a)) + 1\<rparr>\<rparr>)"

fun crossed :: "reader \<Rightarrow> reader" where
  "crossed (Summing as t c) = Summing as t True"
| "crossed rd = rd"

fun is_building :: "reader \<Rightarrow> bool" where
  "is_building (Building g rv seen as acc) = True"
| "is_building rd = False"

definition lock_free :: "'p route_sys \<Rightarrow> bool" where
  "lock_free s \<longleftrightarrow> list_all (\<lambda>rd. \<not> is_building rd) (rs_readers s)"

inductive route_step :: "'p route_sys \<Rightarrow> 'p route_sys \<Rightarrow> bool" where
  published: "a \<notin> rs_pending s \<Longrightarrow>
     route_step s (s\<lparr>rs_store := set_snapshot (rs_store s) a snap, rs_pending := insert a (rs_pending s)\<rparr>)"
| counted: "a \<in> rs_pending s \<Longrightarrow>
     route_step s (s\<lparr>rs_store := count_refresh (rs_store s) a, rs_pending := rs_pending s - {a}\<rparr>)"
| stored: "distinct wss \<Longrightarrow> \<not> rs_swapping s \<Longrightarrow>
     route_step s (s\<lparr>rs_router := router_store wss (rs_router s), rs_readers := map crossed (rs_readers s),
                     rs_swapping := True\<rparr>)"
| revised: "rs_swapping s \<Longrightarrow>
     route_step s (s\<lparr>rs_router := router_revise (rs_router s), rs_swapping := False\<rparr>)"
| began: "route_step s (s\<lparr>rs_readers := Summing (router_snapshot (rs_router s)) 0 False # rs_readers s\<rparr>)"
| summed: "rs_readers s = xs @ Summing (a # as) t c # ys \<Longrightarrow>
     route_step s (s\<lparr>rs_readers := xs @ Summing as (t + rc_generation (ws_cache (rs_store s a))) c # ys\<rparr>)"
| keyed: "rs_readers s = xs @ Summing [] t c # ys \<Longrightarrow>
     route_step s (s\<lparr>rs_readers := xs @ Keyed t (rt_revision (rs_router s)) # ys,
                     rs_torn := (if c then {(t, rt_revision (rs_router s))} else {}) \<union> rs_torn s\<rparr>)"
| found: "rs_readers s = xs @ Keyed g rv # ys \<Longrightarrow> merged_view.hit (rs_router s) (g, rv) \<noteq> None \<Longrightarrow>
     route_step s (s\<lparr>rs_readers := xs @ ys\<rparr>)"
| locked: "rs_readers s = xs @ Keyed g rv # ys \<Longrightarrow> merged_view.hit (rs_router s) (g, rv) = None \<Longrightarrow>
     lock_free s \<Longrightarrow>
     route_step s (s\<lparr>rs_readers :=
       xs @ Building g rv [] (router_snapshot (rs_router s)) (empty_snapshot, Map.empty) # ys\<rparr>)"
| merged: "rs_readers s = xs @ Building g rv seen (a # as) acc # ys \<Longrightarrow>
     route_step s (s\<lparr>rs_readers :=
       xs @ Building g rv (seen @ [a]) as (merge_workspace (rs_store s) a acc) # ys\<rparr>)"
| built: "rs_readers s = xs @ Building g rv seen [] acc # ys \<Longrightarrow>
     route_step s (s\<lparr>rs_router := put_merged (g, rv) acc (rs_router s), rs_readers := xs @ ys\<rparr>)"

inductive route_reach :: "'p store \<Rightarrow> addr list \<Rightarrow> nat \<Rightarrow> 'p route_sys \<Rightarrow> bool"
  for st0 :: "'p store" and wss0 :: "addr list" where
  start: "route_reach st0 wss0 0
     \<lparr>rs_store = st0, rs_router = newRouter wss0, rs_readers = [], rs_pending = {}, rs_swapping = False,
      rs_torn = {}\<rparr>"
| further: "route_reach st0 wss0 n s \<Longrightarrow> route_step s t \<Longrightarrow> route_reach st0 wss0 (Suc n) t"

text \<open>
  No running workspace is between publishing and counting a refresh, and no replacement is between
  storing and counting.
\<close>

definition quiet :: "'p route_sys \<Rightarrow> bool" where
  "quiet s \<longleftrightarrow> \<not> rs_swapping s \<and> rs_pending s \<inter> set (router_snapshot (rs_router s)) = {}"

definition rs_generation :: "'p route_sys \<Rightarrow> 64 word" where
  "rs_generation s = Generation (rs_store s) (rs_router s)"

definition rs_view :: "'p route_sys \<Rightarrow> Snapshot \<times> (string \<rightharpoonup> addr)" where
  "rs_view s = merge_all (rs_store s) (router_snapshot (rs_router s))"

lemma sum_generations_acc:
  "sum_generations st as t = t + sum_list (map (\<lambda>a. rc_generation (ws_cache (st a))) as)"
  by (induction as arbitrary: t) (auto simp: add.assoc)

subsection \<open>A reader left alone\<close>

text \<open>A reader whose steps nothing comes between does what \<open>current\<close> does.\<close>

lemma reader_sums:
  "rs_readers s = Summing as t c # ys \<Longrightarrow>
   route_step\<^sup>*\<^sup>* s (s\<lparr>rs_readers := Summing [] (sum_generations (rs_store s) as t) c # ys\<rparr>)"
proof (induction as arbitrary: s t)
  case Nil
  then have "s\<lparr>rs_readers := Summing [] (sum_generations (rs_store s) [] t) c # ys\<rparr> = s" by simp
  then show ?case by simp
next
  case (Cons a as)
  let ?t = "s\<lparr>rs_readers := Summing as (t + rc_generation (ws_cache (rs_store s a))) c # ys\<rparr>"
  have "route_step s ?t" using summed[of s "[]" a as t c ys] Cons.prems by simp
  moreover have "route_step\<^sup>*\<^sup>* ?t (?t\<lparr>rs_readers :=
      Summing [] (sum_generations (rs_store s) as (t + rc_generation (ws_cache (rs_store s a)))) c # ys\<rparr>)"
    using Cons.IH[of ?t] by simp
  ultimately show ?case by (simp add: converse_rtranclp_into_rtranclp)
qed

lemma reader_merges:
  "rs_readers s = Building g rv seen as acc # ys \<Longrightarrow>
   route_step\<^sup>*\<^sup>* s (s\<lparr>rs_readers := Building g rv (seen @ as) [] (fold (merge_workspace (rs_store s)) as acc) # ys\<rparr>)"
proof (induction as arbitrary: s seen acc)
  case Nil
  then have "s\<lparr>rs_readers := Building g rv (seen @ []) [] (fold (merge_workspace (rs_store s)) [] acc) # ys\<rparr> = s"
    by simp
  then show ?case by simp
next
  case (Cons a as)
  let ?t = "s\<lparr>rs_readers := Building g rv (seen @ [a]) as (merge_workspace (rs_store s) a acc) # ys\<rparr>"
  have "route_step s ?t" using merged[of s "[]" g rv seen a as acc ys] Cons.prems by simp
  moreover have "route_step\<^sup>*\<^sup>* ?t (?t\<lparr>rs_readers :=
      Building g rv (seen @ a # as) [] (fold (merge_workspace (rs_store s)) as (merge_workspace (rs_store s) a acc)) # ys\<rparr>)"
    using Cons.IH[of ?t "seen @ [a]"] by simp
  ultimately show ?case by (simp add: converse_rtranclp_into_rtranclp)
qed

lemma lone_reader_is_current:
  assumes "lock_free s"
  shows "route_step\<^sup>*\<^sup>* s (s\<lparr>rs_router := snd (current (rs_store s) (rs_router s))\<rparr>)"
proof -
  let ?st = "rs_store s" and ?r = "rs_router s" and ?ys = "rs_readers s"
  let ?g = "Generation ?st ?r" and ?rv = "rt_revision ?r"
  let ?k = "s\<lparr>rs_readers := Keyed ?g ?rv # ?ys\<rparr>"
  have "route_step\<^sup>*\<^sup>* s (s\<lparr>rs_readers := Summing (router_snapshot ?r) 0 False # ?ys\<rparr>)"
    by (intro r_into_rtranclp began)
  also have "route_step\<^sup>*\<^sup>* \<dots> (s\<lparr>rs_readers := Summing [] ?g False # ?ys\<rparr>)"
    using reader_sums[of "s\<lparr>rs_readers := Summing (router_snapshot ?r) 0 False # ?ys\<rparr>" _ _ False]
    by (simp add: Generation_def)
  also have "route_step \<dots> ?k"
    using keyed[of "s\<lparr>rs_readers := Summing [] ?g False # ?ys\<rparr>" "[]" ?g False ?ys] by simp
  finally have k: "route_step\<^sup>*\<^sup>* s ?k" .
  show ?thesis
  proof (cases "merged_view.hit ?r (?g, ?rv)")
    case (Some v)
    then have "route_step ?k (?k\<lparr>rs_readers := ?ys\<rparr>)" using found[of ?k "[]" ?g ?rv ?ys] by simp
    moreover have "snd (current ?st ?r) = ?r"
      using Some current_keyed_cases[where r = ?r and g = ?g and rv = ?rv and st = ?st] by (simp add: current_def)
    ultimately show ?thesis using k by (simp add: rtranclp.rtrancl_into_rtrancl)
  next
    case None
    let ?b = "\<lambda>seen as acc. s\<lparr>rs_readers := Building ?g ?rv seen as acc # ?ys\<rparr>"
    let ?e = "(empty_snapshot, Map.empty)" and ?as = "router_snapshot ?r"
    have "route_step ?k (?b [] ?as ?e)"
      using locked[of ?k "[]" ?g ?rv ?ys] None assms by (simp add: lock_free_def)
    with k have l: "route_step\<^sup>*\<^sup>* s (?b [] ?as ?e)" by (rule rtranclp.rtrancl_into_rtrancl)
    have "route_step\<^sup>*\<^sup>* (?b [] ?as ?e) (?b ?as [] (merge_all ?st ?as))"
      using reader_merges[of "?b [] ?as ?e"] by (simp add: merge_all_def)
    with l have m: "route_step\<^sup>*\<^sup>* s (?b ?as [] (merge_all ?st ?as))" by (rule rtranclp_trans)
    let ?t = "s\<lparr>rs_router := put_merged (?g, ?rv) (merge_all ?st ?as) ?r\<rparr>"
    have "route_step (?b ?as [] (merge_all ?st ?as)) ?t"
      using built[of "?b ?as [] (merge_all ?st ?as)" "[]" ?g ?rv ?as "merge_all ?st ?as" ?ys] by simp
    with m have "route_step\<^sup>*\<^sup>* s ?t" by (rule rtranclp.rtrancl_into_rtrancl)
    moreover have "put_merged (?g, ?rv) (merge_all ?st ?as) ?r = snd (current ?st ?r)"
      using None current_keyed_cases[where r = ?r and g = ?g and rv = ?rv and st = ?st] by (simp add: current_def)
    ultimately show ?thesis by simp
  qed
qed

subsection \<open>How far a key is behind\<close>

text \<open>\<open>e\<close> replacements, and while there were none, \<open>d\<close> refreshes.\<close>

definition behind :: "nat \<Rightarrow> nat \<Rightarrow> nat \<Rightarrow> 64 word \<times> 64 word \<Rightarrow> 'p route_sys \<Rightarrow> bool" where
  "behind n d e k s \<longleftrightarrow>
     d \<le> n \<and> e \<le> n \<and> rt_revision (rs_router s) = snd k + of_nat e \<and>
     (e = 0 \<and> \<not> rs_swapping s \<longrightarrow> rs_generation s = fst k + of_nat d)"

text \<open>A key that is not torn is behind by something, and \<open>P\<close> while it is behind by nothing.\<close>

definition key_ok :: "nat \<Rightarrow> 'p route_sys \<Rightarrow> 64 word \<times> 64 word \<Rightarrow> bool \<Rightarrow> bool" where
  "key_ok n s k P \<longleftrightarrow>
     k \<in> rs_torn s \<or> (\<exists>d e. behind n d e k s \<and> (d = 0 \<and> e = 0 \<and> quiet s \<longrightarrow> P))"

definition entry_ok :: "nat \<Rightarrow> 'p route_sys \<Rightarrow> 64 word \<times> 64 word \<Rightarrow> Snapshot \<times> (string \<rightharpoonup> addr) \<Rightarrow> bool" where
  "entry_ok n s k v \<longleftrightarrow> key_ok n s k (v = rs_view s)"

fun reader_ok :: "nat \<Rightarrow> 'p route_sys \<Rightarrow> reader \<Rightarrow> bool" where
  "reader_ok n s (Summing as t c) \<longleftrightarrow>
     c \<or> (\<exists>seen d. router_snapshot (rs_router s) = seen @ as \<and> d \<le> n \<and>
            rs_generation s = sum_generations (rs_store s) as t + of_nat d)"
| "reader_ok n s (Keyed g rv) \<longleftrightarrow> key_ok n s (g, rv) True"
| "reader_ok n s (Building g rv seen as acc) \<longleftrightarrow>
     key_ok n s (g, rv) (router_snapshot (rs_router s) = seen @ as \<and> acc = merge_all (rs_store s) seen)"

definition route_inv :: "nat \<Rightarrow> 'p route_sys \<Rightarrow> bool" where
  "route_inv n s \<longleftrightarrow>
     distinct (router_snapshot (rs_router s)) \<and>
     merged_view.holds_only (entry_ok n s) (rs_router s) \<and>
     list_all (reader_ok n s) (rs_readers s)"

lemma Generation_sum: "Generation st r = sum_list (map (\<lambda>a. rc_generation (ws_cache (st a))) (router_snapshot r))"
  by (simp add: Generation_def sum_generations_acc)

lemma sum_generations_published: "sum_generations (set_snapshot st a snap) as t = sum_generations st as t"
  by (induction as arbitrary: t) (simp_all add: set_snapshot_def)

lemma sum_generations_counted:
  "distinct as \<Longrightarrow>
   sum_generations (count_refresh st a) as t = sum_generations st as t + (if a \<in> set as then 1 else 0)"
  by (induction as arbitrary: t) (auto simp: count_refresh_def sum_generations_acc)

lemma Generation_published: "Generation (set_snapshot st a snap) r = Generation st r"
  by (simp add: Generation_def sum_generations_published)

lemma Generation_counted:
  assumes "distinct (router_snapshot r)"
  shows "Generation (count_refresh st a) r =
    Generation st r + (if a \<in> set (router_snapshot r) then 1 else 0)"
  by (simp add: Generation_def sum_generations_counted[OF assms])

lemma merge_all_cong:
  assumes "\<And>a. a \<in> set as \<Longrightarrow> rc_snapshot (ws_cache (st a)) = rc_snapshot (ws_cache (st' a))"
  shows "merge_all st as = merge_all st' as"
  unfolding merge_all_def
  by (rule fold_cong) (use assms in \<open>auto simp: merge_workspace_def Let_def fun_eq_iff\<close>)

lemma merge_all_counted: "merge_all (count_refresh st a) as = merge_all st as"
  by (rule merge_all_cong) (simp add: count_refresh_def)

lemma merge_all_published: "a \<notin> set as \<Longrightarrow> merge_all (set_snapshot st a snap) as = merge_all st as"
  by (rule merge_all_cong) (auto simp: set_snapshot_def)

section \<open>The invariant\<close>

lemma key_ok_later:
  assumes "key_ok n s k P" and "rt_revision (rs_router t) = rt_revision (rs_router s)"
    and "rs_swapping t = rs_swapping s" and "rs_torn s \<subseteq> rs_torn t"
    and "rs_generation t = rs_generation s + of_nat j" and "j \<le> 1"
    and "j = 0 \<Longrightarrow> quiet t \<Longrightarrow> quiet s \<and> (P \<longrightarrow> Q)"
  shows "key_ok (Suc n) t k Q"
proof (cases "k \<in> rs_torn s")
  case True
  with assms(4) show ?thesis by (auto simp: key_ok_def)
next
  case False
  with assms(1) obtain d e where b: "behind n d e k s" and v: "d = 0 \<and> e = 0 \<and> quiet s \<longrightarrow> P"
    by (auto simp: key_ok_def)
  have "behind (Suc n) (d + j) e k t" using b assms(2,3,5,6) by (auto simp: behind_def add.assoc)
  moreover have "d + j = 0 \<and> e = 0 \<and> quiet t \<longrightarrow> Q" using v assms(7) by auto
  ultimately show ?thesis unfolding key_ok_def by blast
qed

lemma key_ok_swapping:
  assumes "key_ok n s k P" and "rt_revision (rs_router t) = rt_revision (rs_router s)"
    and "rs_swapping t" and "rs_torn s \<subseteq> rs_torn t"
  shows "key_ok (Suc n) t k Q"
  using assms unfolding key_ok_def behind_def quiet_def by (auto intro: le_SucI)

lemma key_ok_revised:
  assumes "key_ok n s k P" and "rt_revision (rs_router t) = rt_revision (rs_router s) + 1"
    and "rs_torn s \<subseteq> rs_torn t"
  shows "key_ok (Suc n) t k Q"
proof (cases "k \<in> rs_torn s")
  case True
  with assms(3) show ?thesis by (auto simp: key_ok_def)
next
  case False
  with assms(1) obtain d e where "behind n d e k s" by (auto simp: key_ok_def)
  then have "behind (Suc n) d (Suc e) k t" using assms(2) by (simp add: behind_def add.commute add.left_commute)
  then show ?thesis unfolding key_ok_def by blast
qed

lemma entry_later:
  assumes "entry_ok n s k v" and "rt_revision (rs_router t) = rt_revision (rs_router s)"
    and "rs_swapping t = rs_swapping s" and "rs_torn s \<subseteq> rs_torn t"
    and "rs_generation t = rs_generation s + of_nat j" and "j \<le> 1"
    and "j = 0 \<Longrightarrow> quiet t \<Longrightarrow> quiet s \<and> rs_view t = rs_view s"
  shows "entry_ok (Suc n) t k v"
  unfolding entry_ok_def
  by (rule key_ok_later[OF assms(1)[unfolded entry_ok_def] assms(2-6)]) (use assms(7) in auto)

text \<open>A step of a reader: nothing else changes, but for the router it may have put a view into.\<close>

lemma inv_reader:
  assumes inv: "route_inv n s" and same: "rs_store t = rs_store s" "rs_pending t = rs_pending s"
      "rs_swapping t = rs_swapping s" "rs_torn s \<subseteq> rs_torn t"
      "router_snapshot (rs_router t) = router_snapshot (rs_router s)"
      "rt_revision (rs_router t) = rt_revision (rs_router s)"
    and held: "merged_view.holds_only (entry_ok n s) (rs_router t)"
    and rds: "\<forall>rd\<in>set (rs_readers t). rd \<in> set (rs_readers s) \<or> reader_ok n s rd \<or> reader_ok (Suc n) t rd"
  shows "route_inv (Suc n) t"
proof -
  have gen: "rs_generation t = rs_generation s + of_nat 0"
    by (simp add: rs_generation_def Generation_def same)
  have q: "quiet t = quiet s" "rs_view t = rs_view s" by (simp_all add: quiet_def rs_view_def same)
  have key: "key_ok (Suc n) t k Q" if "key_ok n s k P" "P \<longrightarrow> Q" for k P Q
    by (rule key_ok_later[OF that(1) same(6,3,4) gen]) (use that(2) q in simp_all)
  have ent: "entry_ok (Suc n) t k v" if "entry_ok n s k v" for k v
    using that key[of k "v = rs_view s"] by (simp add: entry_ok_def q)
  have rd: "reader_ok (Suc n) t rd" if "reader_ok n s rd" for rd
  proof (cases rd)
    case (Summing as tally c)
    with that show ?thesis using gen same by (auto intro: le_SucI)
  next
    case (Keyed g rv)
    with that show ?thesis using key by simp
  next
    case (Building g rv seen as acc)
    with that show ?thesis using key[of "(g, rv)"] same by simp
  qed
  have "merged_view.holds_only (entry_ok (Suc n) t) (rs_router t)"
    by (rule merged_view.holds_only_mono[OF held]) (rule ent)
  moreover have "list_all (reader_ok (Suc n) t) (rs_readers t)"
    using rds inv rd by (auto simp: route_inv_def list_all_iff)
  ultimately show ?thesis using inv same by (simp add: route_inv_def)
qed

lemma inv_published:
  assumes inv: "route_inv n s"
  shows "route_inv (Suc n)
    (s\<lparr>rs_store := set_snapshot (rs_store s) a snap, rs_pending := insert a (rs_pending s)\<rparr>)" (is "route_inv _ ?t")
proof -
  have gen: "rs_generation ?t = rs_generation s + of_nat 0" by (simp add: rs_generation_def Generation_published)
  have q: "quiet s \<and> a \<notin> set (router_snapshot (rs_router s))" if "quiet ?t" using that by (auto simp: quiet_def)
  have key: "key_ok (Suc n) ?t k Q"
    if "key_ok n s k P" "a \<notin> set (router_snapshot (rs_router s)) \<Longrightarrow> P \<longrightarrow> Q" for k P Q
    by (rule key_ok_later[OF that(1) _ _ _ gen]) (use that(2) q in simp_all)
  have "entry_ok (Suc n) ?t k v" if "entry_ok n s k v" for k v
    using that key[of k "v = rs_view s"] by (simp add: entry_ok_def rs_view_def merge_all_published)
  then have "merged_view.holds_only (entry_ok (Suc n) ?t) (rs_router s)"
    using inv by (auto simp: route_inv_def intro: merged_view.holds_only_mono)
  moreover have "reader_ok (Suc n) ?t rd" if "reader_ok n s rd" for rd
  proof (cases rd)
    case (Summing as tally c)
    with that show ?thesis using gen by (auto simp: sum_generations_published intro: le_SucI)
  next
    case (Keyed g rv)
    with that show ?thesis using key by simp
  next
    case (Building g rv seen as acc)
    show ?thesis using that unfolding Building reader_ok.simps
      by (rule key) (auto simp: merge_all_published)
  qed
  ultimately show ?thesis using inv by (simp add: route_inv_def list_all_iff)
qed

lemma inv_counted:
  assumes inv: "route_inv n s"
  shows "route_inv (Suc n)
    (s\<lparr>rs_store := count_refresh (rs_store s) a, rs_pending := rs_pending s - {a}\<rparr>)" (is "route_inv _ ?t")
proof -
  let ?set = "router_snapshot (rs_router s)"
  define j :: nat where "j = (if a \<in> set ?set then 1 else 0)"
  have d: "distinct ?set" using inv by (simp add: route_inv_def)
  have gen: "rs_generation ?t = rs_generation s + of_nat j" and j1: "j \<le> 1"
    using d by (simp_all add: rs_generation_def Generation_counted j_def)
  have q: "quiet s" if "j = 0" "quiet ?t" using that by (auto simp: quiet_def j_def split: if_splits)
  have key: "key_ok (Suc n) ?t k Q" if "key_ok n s k P" "P \<longrightarrow> Q" for k P Q
    by (rule key_ok_later[OF that(1) _ _ _ gen j1]) (use that(2) q in simp_all)
  have "entry_ok (Suc n) ?t k v" if "entry_ok n s k v" for k v
    using that key[of k "v = rs_view s"] by (simp add: entry_ok_def rs_view_def merge_all_counted)
  then have "merged_view.holds_only (entry_ok (Suc n) ?t) (rs_router s)"
    using inv by (auto simp: route_inv_def intro: merged_view.holds_only_mono)
  moreover have "reader_ok (Suc n) ?t rd" if "reader_ok n s rd" for rd
  proof (cases rd)
    case (Summing as tally c)
    show ?thesis
    proof (cases c)
      case False
      with that Summing obtain seen k where
        k: "?set = seen @ as" "k \<le> n" "rs_generation s = sum_generations (rs_store s) as tally + of_nat k" by auto
      define i :: nat where "i = (if a \<in> set seen then 1 else 0)"
      have "rs_generation ?t = sum_generations (rs_store ?t) as tally + of_nat (k + i)" and "k + i \<le> Suc n"
        using gen d k by (auto simp: j_def i_def sum_generations_counted)
      with k(1) Summing show ?thesis by auto
    qed (simp add: Summing)
  next
    case (Keyed g rv)
    with that show ?thesis using key by simp
  next
    case (Building g rv seen as acc)
    with that show ?thesis using key[of "(g, rv)"] by (simp add: merge_all_counted)
  qed
  ultimately show ?thesis using inv by (simp add: route_inv_def list_all_iff)
qed

lemma held_merged_frame [simp]:
  "held_merged (router_store wss r) = held_merged r" "held_merged (router_revise r) = held_merged r"
  "held_merged (router_replace wss r) = held_merged r"
  "rt_revision (router_store wss r) = rt_revision r" "rt_revision (router_revise r) = rt_revision r + 1"
  "rt_revision (router_replace wss r) = rt_revision r + 1"
  "router_snapshot (router_store wss r) = wss" "router_snapshot (router_revise r) = router_snapshot r"
  "router_snapshot (router_replace wss r) = wss"
  by (simp_all add: held_merged_def router_replace_def router_store_def router_revise_def router_snapshot_def)

lemma inv_stored:
  assumes inv: "route_inv n s" and d: "distinct wss"
  shows "route_inv (Suc n) (s\<lparr>rs_router := router_store wss (rs_router s), rs_readers := map crossed (rs_readers s),
    rs_swapping := True\<rparr>)" (is "route_inv _ ?t")
proof -
  have key: "key_ok (Suc n) ?t k Q" if "key_ok n s k P" for k P Q
    by (rule key_ok_swapping[OF that]) simp_all
  have "reader_ok (Suc n) ?t (crossed rd)" if "reader_ok n s rd" for rd
    using that key by (cases rd) auto
  moreover have "merged_view.holds_only (entry_ok (Suc n) ?t) (rs_router ?t)"
    using inv key by (auto simp: route_inv_def merged_view.holds_only_def entry_ok_def)
  ultimately show ?thesis using inv d by (simp add: route_inv_def list_all_iff)
qed

lemma inv_revised:
  assumes inv: "route_inv n s"
  shows "route_inv (Suc n) (s\<lparr>rs_router := router_revise (rs_router s), rs_swapping := False\<rparr>)" (is "route_inv _ ?t")
proof -
  have key: "key_ok (Suc n) ?t k Q" if "key_ok n s k P" for k P Q
    by (rule key_ok_revised[OF that]) simp_all
  have "reader_ok (Suc n) ?t rd" if "reader_ok n s rd" for rd
    using that key by (cases rd) (auto simp: rs_generation_def Generation_def intro: le_SucI)
  moreover have "merged_view.holds_only (entry_ok (Suc n) ?t) (rs_router ?t)"
    using inv key by (auto simp: route_inv_def merged_view.holds_only_def entry_ok_def)
  ultimately show ?thesis using inv by (simp add: route_inv_def list_all_iff)
qed

text \<open>A whole replacement that nothing reads during.\<close>

lemma entry_replaced: "entry_ok n s k v \<Longrightarrow> entry_ok (Suc n) (s\<lparr>rs_router := router_replace wss (rs_router s)\<rparr>) k v"
  unfolding entry_ok_def by (erule key_ok_revised) simp_all

lemma inv_replaced:
  assumes inv: "route_inv n s" and d: "distinct wss" and rd: "rs_readers s = []"
  shows "route_inv (Suc n) (s\<lparr>rs_router := router_replace wss (rs_router s)\<rparr>)" (is "route_inv _ ?t")
  using inv d rd entry_replaced[of n s] by (auto simp: route_inv_def merged_view.holds_only_def)

text \<open>The steps of a reader.\<close>

lemma inv_current:
  assumes inv: "route_inv n s"
  shows "route_inv (Suc n) (s\<lparr>rs_router := snd (current (rs_store s) (rs_router s))\<rparr>)" (is "route_inv _ ?t")
proof -
  let ?r = "rs_router s" and ?k = "(rs_generation s, rt_revision (rs_router s))"
  have "behind n 0 0 ?k s" by (simp add: behind_def)
  then have new: "entry_ok n s ?k (rs_view s)" unfolding entry_ok_def key_ok_def by blast
  have old: "merged_view.holds_only (entry_ok n s) ?r" using inv by (simp add: route_inv_def)
  have "merged_view.holds_only (entry_ok n s) (rs_router ?t)"
  proof (cases "merged_view.hit ?r ?k")
    case None
    then have "rs_router ?t = put_merged ?k (rs_view s) ?r"
      using current_keyed_cases[where r = ?r and g = "fst ?k" and rv = "snd ?k" and st = "rs_store s"]
      by (simp add: rs_view_def current_def rs_generation_def)
    then show ?thesis using merged_view.holds_only_put[of "entry_ok n s"] new by simp
  next
    case (Some v)
    then have "rs_router ?t = ?r"
      using current_keyed_cases[where r = ?r and g = "fst ?k" and rv = "snd ?k" and st = "rs_store s"]
      by (simp add: current_def rs_generation_def)
    with old show ?thesis by simp
  qed
  then show ?thesis by (intro inv_reader[OF inv]) (simp_all add: frame_simps)
qed

lemma inv_keyed:
  assumes inv: "route_inv n s" and rd: "rs_readers s = xs @ Summing [] t c # ys"
  shows "route_inv (Suc n) (s\<lparr>rs_readers := xs @ Keyed t (rt_revision (rs_router s)) # ys,
    rs_torn := (if c then {(t, rt_revision (rs_router s))} else {}) \<union> rs_torn s\<rparr>)" (is "route_inv _ ?t")
proof -
  let ?k = "(t, rt_revision (rs_router s))"
  have "reader_ok n s (Keyed t (rt_revision (rs_router s))) \<or> reader_ok (Suc n) ?t (Keyed t (rt_revision (rs_router s)))"
  proof (cases c)
    case True
    then show ?thesis by (simp add: key_ok_def)
  next
    case False
    have "reader_ok n s (Summing [] t c)" using inv rd by (simp add: route_inv_def)
    with False obtain d where "behind n d 0 ?k s" by (auto simp: behind_def)
    then show ?thesis by (auto simp: key_ok_def)
  qed
  then show ?thesis
    using inv rd by (intro inv_reader[OF inv]) (auto simp: route_inv_def)
qed

lemma inv_merged:
  assumes inv: "route_inv n s" and rd: "rs_readers s = xs @ Building g rv seen (a # as) acc # ys"
  shows "route_inv (Suc n)
    (s\<lparr>rs_readers := xs @ Building g rv (seen @ [a]) as (merge_workspace (rs_store s) a acc) # ys\<rparr>)"
proof -
  have "reader_ok n s (Building g rv seen (a # as) acc)" using inv rd by (simp add: route_inv_def)
  then have "reader_ok n s (Building g rv (seen @ [a]) as (merge_workspace (rs_store s) a acc))"
    by (auto simp: key_ok_def merge_all_def)
  then show ?thesis
    using inv rd by (intro inv_reader[OF inv]) (auto simp: route_inv_def)
qed

lemma inv_built:
  assumes inv: "route_inv n s" and rd: "rs_readers s = xs @ Building g rv seen [] acc # ys"
  shows "route_inv (Suc n) (s\<lparr>rs_router := put_merged (g, rv) acc (rs_router s), rs_readers := xs @ ys\<rparr>)"
    (is "route_inv _ ?t")
proof -
  have "reader_ok n s (Building g rv seen [] acc)" using inv rd by (simp add: route_inv_def)
  then have "entry_ok n s (g, rv) acc" by (auto simp: entry_ok_def key_ok_def rs_view_def)
  then have "merged_view.holds_only (entry_ok n s) (rs_router ?t)"
    by (simp add: merged_view.holds_only_put)
  then show ?thesis using inv rd by (intro inv_reader[OF inv]) (simp_all add: frame_simps)
qed

lemma inv_locked:
  assumes inv: "route_inv n s" and rd: "rs_readers s = xs @ Keyed g rv # ys"
  shows "route_inv (Suc n) (s\<lparr>rs_readers :=
    xs @ Building g rv [] (router_snapshot (rs_router s)) (empty_snapshot, Map.empty) # ys\<rparr>)"
proof -
  have "reader_ok n s (Keyed g rv)" using inv rd by (simp add: route_inv_def)
  then have "reader_ok n s (Building g rv [] (router_snapshot (rs_router s)) (empty_snapshot, Map.empty))"
    by (auto simp: key_ok_def merge_all_def)
  then show ?thesis
    using inv rd by (intro inv_reader[OF inv]) (auto simp: route_inv_def)
qed

lemma inv_summed:
  assumes inv: "route_inv n s" and rd: "rs_readers s = xs @ Summing (a # as) t c # ys"
  shows "route_inv (Suc n)
    (s\<lparr>rs_readers := xs @ Summing as (t + rc_generation (ws_cache (rs_store s a))) c # ys\<rparr>)"
proof -
  have "reader_ok n s (Summing (a # as) t c)" using inv rd by (simp add: route_inv_def)
  then have "reader_ok n s (Summing as (t + rc_generation (ws_cache (rs_store s a))) c)"
    by (auto intro: exI[of _ "seen @ [a]" for seen])
  then show ?thesis
    using inv rd by (intro inv_reader[OF inv]) (auto simp: route_inv_def)
qed

lemma route_step_inv [wf_intros]: "route_step s t \<Longrightarrow> route_inv n s \<Longrightarrow> route_inv (Suc n) t"
proof (induction rule: route_step.induct)
  case (began s)
  have "reader_ok n s (Summing (router_snapshot (rs_router s)) 0 False)"
    by (auto simp: rs_generation_def Generation_def intro: exI[of _ 0])
  then show ?case
    using began by (intro inv_reader[OF began]) (auto simp: route_inv_def)
next
  case (found s xs g rv ys)
  then show ?case by (intro inv_reader[OF found(3)]) (auto simp: route_inv_def)
qed (simp_all add: inv_published inv_counted inv_stored inv_revised inv_summed inv_keyed inv_locked
    inv_merged inv_built)

lemma route_reach_inv: "route_reach st0 wss0 n s \<Longrightarrow> distinct wss0 \<Longrightarrow> route_inv n s"
proof (induction rule: route_reach.induct)
  case start
  then show ?case
    by (simp add: route_inv_def newRouter_def router_replace_def router_store_def router_revise_def
        zero_router_def router_snapshot_def merged_view.holds_only_empty held_merged_def)
next
  case (further n s t)
  then show ?case by (blast intro: route_step_inv)
qed

lemma behind_same_key:
  assumes "behind n d e (rs_generation s, rt_revision (rs_router s)) s" and "n < 2 ^ 64" and "\<not> rs_swapping s"
  shows "d = 0 \<and> e = 0"
proof -
  have small: "k = 0" if "(of_nat k :: 64 word) = 0" "k \<le> n" for k
    using that assms(2) by (auto simp: word_of_nat_eq_0_iff dest: dvd_imp_le)
  have e: "e = 0" using assms(1) small[of e] by (auto simp: behind_def)
  with assms(1,3) small[of d] show ?thesis by (auto simp: behind_def)
qed

text \<open>The key a read would be answered under now.\<close>

definition key_now :: "'p route_sys \<Rightarrow> 64 word \<times> 64 word" where
  "key_now s = (Generation (rs_store s) (rs_router s), rt_revision (rs_router s))"

lemma current_is_view:
  assumes "route_inv n s" and "n < 2 ^ 64" and "quiet s" and "key_now s \<notin> rs_torn s"
  shows "(ms_snapshot (fst (current (rs_store s) (rs_router s))),
          ms_owners (fst (current (rs_store s) (rs_router s)))) = rs_view s"
proof (cases "merged_view.hit (rs_router s) (rs_generation s, rt_revision (rs_router s))")
  case None
  then show ?thesis
    using current_keyed_cases[where r = "rs_router s" and g = "rs_generation s"
        and rv = "rt_revision (rs_router s)" and st = "rs_store s"]
    by (simp add: current_def rs_view_def rs_generation_def)
next
  case (Some v)
  have "merged_view.holds_only (entry_ok n s) (rs_router s)" using assms(1) by (simp add: route_inv_def)
  from merged_view.holds_only_hit[OF this Some] assms(4) obtain d e where
    b: "behind n d e (rs_generation s, rt_revision (rs_router s)) s"
    and v: "d = 0 \<and> e = 0 \<and> quiet s \<longrightarrow> v = rs_view s"
    by (auto simp: entry_ok_def key_ok_def key_now_def rs_generation_def)
  from behind_same_key[OF b assms(2)] v assms(3) have "v = rs_view s" by (simp add: quiet_def)
  with Some show ?thesis
    using current_keyed_cases[where r = "rs_router s" and g = "rs_generation s"
        and rv = "rt_revision (rs_router s)" and st = "rs_store s"]
    by (simp add: current_def rs_generation_def)
qed

section \<open>The router as an API surface\<close>

lemma servingFor_fst: "fst (servingFor st r g) = ms_owners (fst (current st r)) g"
  by (simp add: servingFor_def case_prod_beta)

definition router_sound :: "'p store \<times> router \<Rightarrow> bool" where
  "router_sound s \<longleftrightarrow>
     merged_view.holds_only
       (\<lambda>_ v. coherent (fst v) \<and> (\<forall>g. snd v g \<noteq> None \<longleftrightarrow> sn_Groups (fst v) g \<noteq> None)) (snd s)"

definition view_of :: "'p store \<times> router \<Rightarrow> Snapshot" where
  "view_of s = ms_snapshot (fst (current (fst s) (snd s)))"

definition backer_of :: "'p store \<times> router \<Rightarrow> string \<Rightarrow> addr option" where
  "backer_of s = ms_owners (fst (current (fst s) (snd s)))"

lemma current_content:
  assumes "router_sound (st, r)"
  shows "coherent (view_of (st, r)) \<and>
    (\<forall>g. backer_of (st, r) g \<noteq> None \<longleftrightarrow> sn_Groups (view_of (st, r)) g \<noteq> None)"
proof (cases "merged_view.hit r (Generation st r, rt_revision r)")
  case None
  then have "(view_of (st, r), backer_of (st, r)) = merge_all st (router_snapshot r)"
    using current_keyed_cases[where r = r and g = "Generation st r" and rv = "rt_revision r" and st = st]
    by (simp add: view_of_def backer_of_def current_def)
  then show ?thesis
    using merge_all_coherent[of st "router_snapshot r"] merge_all_served[of st "router_snapshot r"]
    by (metis fst_conv snd_conv)
next
  case (Some v)
  then have "(view_of (st, r), backer_of (st, r)) = v"
    using current_keyed_cases[where r = r and g = "Generation st r" and rv = "rt_revision r" and st = st]
    by (simp add: view_of_def backer_of_def current_def)
  then show ?thesis
    using merged_view.holds_only_hit[OF assms[unfolded router_sound_def, simplified snd_conv] Some]
    by (metis fst_conv snd_conv)
qed

interpretation surface: api_surface view_of backer_of router_sound
proof unfold_locales
  fix s :: "'p store \<times> router" and g :: string
  assume "router_sound s"
  then show "coherent (view_of s)" and "backer_of s g \<noteq> None \<longleftrightarrow> sn_Groups (view_of s) g \<noteq> None"
    using current_content[of "fst s" "snd s"] by auto
qed

lemma router_sound_new [wf_intros]: "router_sound (st, newRouter wss)"
  by (simp add: router_sound_def newRouter_def router_replace_eq zero_router_def
      merged_view.holds_only_empty held_merged_def)

lemma router_sound_replace [wf_intros]: "router_sound (st, r) \<Longrightarrow> router_sound (st', router_replace wss r)"
  by (simp add: router_sound_def router_replace_eq merged_view.holds_only_def held_merged_def)

lemma router_sound_current [wf_intros]:
  assumes "router_sound (st, r)"
  shows "router_sound (st', snd (current st r))"
proof (cases "merged_view.hit r (Generation st r, rt_revision r)")
  case None
  then have "snd (current st r) =
      put_merged (Generation st r, rt_revision r) (merge_all st (router_snapshot r)) r"
    using current_keyed_cases[where r = r and g = "Generation st r" and rv = "rt_revision r" and st = st]
    by (simp add: current_def)
  then show ?thesis
    using merge_all_coherent[of st "router_snapshot r"] merge_all_served[of st "router_snapshot r"]
    by (simp add: router_sound_def merged_view.holds_only_put)
next
  case (Some v)
  then have "snd (current st r) = r"
    using current_keyed_cases[where r = r and g = "Generation st r" and rv = "rt_revision r" and st = st]
    by (simp add: current_def)
  with assms show ?thesis by (simp add: router_sound_def)
qed

section \<open>Properties\<close>


text \<open>Two workspaces that both serve a group, for the witnesses.\<close>

definition sample_matcher :: group_matcher where
  "sample_matcher = \<lparr>gm_exact = {}, gm_suffixes = [''.b.c''], gm_excludedExact = {}, gm_excludedSuffixes = []\<rparr>"

definition sample_workspace :: "string \<Rightarrow> unit workspace" where
  "sample_workspace name =
     \<lparr>ws_name = name, ws_fingerprint = [], ws_groups = sample_matcher,
      ws_cache = (NewResourceCache name sample_matcher)
        \<lparr>rc_snapshot := \<lparr>sn_Groups = [''a.b.c'' \<mapsto> sample_group\<lparr>ag_Versions := []\<rparr>], sn_Resources = Map.empty\<rparr>,
         rc_synced := True, rc_generation := 1\<rparr>,
      ws_proxy = (), ws_backend = \<lparr>bc_location = \<lparr>url_base = [], url_path = ''/'' @ name, url_query = Map.empty\<rparr>\<rparr>\<rparr>"

definition sample_store :: "unit store" where
  "sample_store a = sample_workspace (if a = 0 then ''first'' else ''second'')"

lemma sample_serves: "g \<in> ServedGroups (ws_cache (sample_store a)) \<longleftrightarrow> g = ''a.b.c''"
  by (simp add: sample_store_def sample_workspace_def ServedGroups_def groupNames_def)

lemma sample_configured: "ws_groups (sample_store a) = sample_matcher"
  by (simp add: sample_store_def sample_workspace_def)


text \<open>
  The exception is real. A reader adds up the generations of the set \<open>[0]\<close>; the set becomes \<open>[1]\<close>; the
  reader loads the new revision and keeps the merged view of \<open>[1]\<close> under the old sum. A refresh of the
  new workspace then empties it and brings its generation to that very sum: the emptied workspace goes on
  being named as the one that serves the group.
\<close>

definition torn_store :: "unit store" where
  "torn_store = sample_store(1 := (sample_store 1)\<lparr>ws_cache := (ws_cache (sample_store 1))\<lparr>rc_generation := 0\<rparr>\<rparr>)"

lemma torn_reader_leaves_a_stale_view:
  "\<exists>n s. route_reach torn_store [0] n s \<and> n < 2 ^ 64 \<and> quiet s \<and>
     fst (servingFor (rs_store s) (rs_router s) ''a.b.c'') = Some 1 \<and>
     first_serving (rs_store s) (router_snapshot (rs_router s)) ''a.b.c'' = None"
proof -
  let ?sys = "\<lambda>st r rds pending swapping torn. \<lparr>rs_store = st, rs_router = r, rs_readers = rds,
    rs_pending = pending, rs_swapping = swapping, rs_torn = torn\<rparr>"
  let ?old = "newRouter [0]" and ?half = "router_store [1] (newRouter [0])" and ?set = "router_replace [1] (newRouter [0])"
  let ?acc = "merge_workspace torn_store 1 (empty_snapshot, Map.empty)"
  let ?r = "put_merged (1, 2) ?acc ?set" and ?st = "set_snapshot torn_store 1 empty_snapshot"
  have gen: "rc_generation (ws_cache (torn_store 0)) = 1" "rc_generation (ws_cache (torn_store 1)) = 0"
    by (simp_all add: torn_store_def sample_store_def sample_workspace_def)
  have rev: "rt_revision ?old = 1" "rt_revision ?set = 2" "rt_merged ?old = None"
    by (simp_all add: newRouter_def router_replace_eq zero_router_def)
  have old: "router_snapshot ?old = [0]" by (simp add: newRouter_def)
  have none: "merged_view.hit ?set (1, 2) = None"
    by (simp add: merged_view.hit_def, simp add: held_merged_def rev)
  have "route_reach torn_store [0] 0 (?sys torn_store ?old [] {} False {})" by (rule route_reach.start)
  from route_reach.further[OF this began]
  have "route_reach torn_store [0] 1 (?sys torn_store ?old [Summing [0] 0 False] {} False {})"
    by (simp add: old)
  from route_reach.further[OF this summed[where xs = "[]" and c = False]]
  have "route_reach torn_store [0] 2 (?sys torn_store ?old [Summing [] 1 False] {} False {})"
    by (simp add: gen numeral_2_eq_2)
  from route_reach.further[OF this stored[where wss = "[1]"]]
  have "route_reach torn_store [0] 3 (?sys torn_store ?half [Summing [] 1 True] {} True {})"
    by (simp add: numeral_3_eq_3 numeral_2_eq_2)
  from route_reach.further[OF this revised]
  have "route_reach torn_store [0] 4 (?sys torn_store ?set [Summing [] 1 True] {} False {})"
    by (simp add: router_replace_def)
  from route_reach.further[OF this keyed[where xs = "[]"]]
  have "route_reach torn_store [0] 5 (?sys torn_store ?set [Keyed 1 2] {} False {(1, 2)})"
    by (simp add: rev)
  from route_reach.further[OF this locked[where xs = "[]"]]
  have "route_reach torn_store [0] 6
      (?sys torn_store ?set [Building 1 2 [] [1] (empty_snapshot, Map.empty)] {} False {(1, 2)})"
    by (simp add: none[unfolded One_nat_def] lock_free_def)
  from route_reach.further[OF this merged[where xs = "[]"]]
  have "route_reach torn_store [0] 7 (?sys torn_store ?set [Building 1 2 [1] [] ?acc] {} False {(1, 2)})"
    by simp
  from route_reach.further[OF this built[where xs = "[]"]]
  have "route_reach torn_store [0] 8 (?sys torn_store ?r [] {} False {(1, 2)})" by simp
  from route_reach.further[OF this published[where a = 1 and snap = empty_snapshot]]
  have "route_reach torn_store [0] 9 (?sys ?st ?r [] {1} False {(1, 2)})" by simp
  from route_reach.further[OF this counted[where a = 1]]
  have r: "route_reach torn_store [0] 10 (?sys (count_refresh ?st 1) ?r [] {} False {(1, 2)})" by simp
  have sum: "Generation (count_refresh ?st 1) ?r = 1"
    by (simp add: Generation_def frame_simps count_refresh_def set_snapshot_def gen[unfolded One_nat_def])
  have "snd ?acc ''a.b.c'' = Some 1"
    by (simp add: merge_workspace_def Let_def torn_store_def sample_store_def sample_workspace_def empty_snapshot_def)
  moreover have "merged_view.hit ?r (1, 2) = Some ?acc"
    by (cases ?acc) (simp add: merged_view.hit_def, simp add: held_merged_def put_merged_def)
  then have "ms_owners (fst (current_keyed (count_refresh ?st 1) 1 2 ?r)) = snd ?acc"
    using current_keyed_cases[where r = ?r and g = 1 and rv = 2 and st = "count_refresh ?st 1"]
    by (simp only: option.case) (metis snd_conv)
  moreover have "rt_revision ?r = 2" by (simp add: frame_simps rev)
  ultimately have hit: "fst (servingFor (count_refresh ?st 1) ?r ''a.b.c'') = Some 1"
    by (simp only: servingFor_fst current_def sum)
  have none: "first_serving (count_refresh ?st 1) (router_snapshot ?r) ''a.b.c'' = None"
    by (simp add: first_serving_def frame_simps count_refresh_def set_snapshot_def ServedGroups_def
        groupNames_def empty_snapshot_def)
  show ?thesis
    by (rule exI[of _ 10], rule exI[of _ "?sys (count_refresh ?st 1) ?r [] {} False {(1, 2)}"], intro conjI r)
       (simp_all only: route_sys.simps quiet_def hit none, simp_all)
qed

text \<open>
  Nothing is routed to a workspace that was not configured for it: whenever a request for a
  group is sent anywhere, the group is one the router owns, and it is sent to a running workspace
  that is both configured for the group and serving it.
\<close>
lemma requests_go_to_their_workspace:
  assumes "route_reach st0 wss0 n s" and "distinct wss0" and "n < 2 ^ 64" and "quiet s"
    and "key_now s \<notin> rs_torn s"
    and "\<forall>a\<in>set (router_snapshot (rs_router s)).
           \<forall>g\<in>ServedGroups (ws_cache (rs_store s a)). Matches (Some (ws_groups (rs_store s a))) g"
    and "fst (servingFor (rs_store s) (rs_router s) g) = Some a"
  shows "router_Owns (rs_store s) (rs_router s) g \<and> a \<in> set (router_snapshot (rs_router s)) \<and>
         g \<in> ServedGroups (ws_cache (rs_store s a)) \<and> Matches (Some (ws_groups (rs_store s a))) g"
proof -
  have "ms_owners (fst (current (rs_store s) (rs_router s))) = snd (rs_view s)"
    using current_is_view[OF route_reach_inv[OF assms(1,2)] assms(3-5)] by (metis snd_conv)
  then have "first_serving (rs_store s) (router_snapshot (rs_router s)) g = Some a"
    using assms(7) by (simp add: servingFor_fst rs_view_def merge_all_owner)
  from first_serving_serves[OF this] assms(6)
  have a: "a \<in> set (router_snapshot (rs_router s))" "g \<in> ServedGroups (ws_cache (rs_store s a))"
    "Matches (Some (ws_groups (rs_store s a))) g" by auto
  then have "router_Owns (rs_store s) (rs_router s) g"
    using find_None_all[of "\<lambda>a. Matches (Some (ws_groups (rs_store s a))) g"]
    by (auto simp: router_Owns_def configuredFor_def)
  with a show ?thesis by simp
qed

lemma requests_go_to_their_workspace_witness:
  "router_Owns sample_store (newRouter [0]) ''a.b.c'' \<and>
   fst (servingFor sample_store (newRouter [0]) ''a.b.c'') = Some 0"
proof -
  let ?s = "\<lparr>rs_store = sample_store, rs_router = newRouter [0], rs_readers = [], rs_pending = {},
    rs_swapping = False, rs_torn = {}\<rparr>"
  have r: "route_reach sample_store [0] 0 ?s" by (rule route_reach.start)
  have d: "distinct [0::addr]" and q: "quiet ?s" and n: "(0::nat) < 2 ^ 64" and t: "key_now ?s \<notin> rs_torn ?s"
    by (simp_all add: quiet_def)
  have "Matches (Some sample_matcher) ''a.b.c''" by code_simp
  then have m: "\<forall>a\<in>set (router_snapshot (rs_router ?s)).
      \<forall>g\<in>ServedGroups (ws_cache (rs_store ?s a)). Matches (Some (ws_groups (rs_store ?s a))) g"
    by (simp add: sample_serves sample_configured)
  have "sn_Groups (rc_snapshot (ws_cache (sample_store 0))) ''a.b.c'' \<noteq> None"
    using sample_serves[of "''a.b.c''" 0] by (simp add: served_iff)
  then have s: "fst (servingFor (rs_store ?s) (rs_router ?s) ''a.b.c'') = Some 0"
    by (simp add: servingFor_fst current_def current_keyed_def merged_hit_def newRouter_def
        router_replace_eq zero_router_def build_merged_def merge_all_def merge_workspace_def
        router_snapshot_def Let_def)
  show ?thesis using requests_go_to_their_workspace[OF r d n q t m s] s by simp
qed

end
