(* ===== verification/Discovery_Handler.thy ===== *)
theory Discovery_Handler
  imports Router Http
begin

text \<open>
  \<open>pkg/apiserver/discovery.go\<close>: answering discovery for the groups the workspaces serve, and keeping
  the server's own discovery documents in step. Writing an answer (content negotiation, encoding) and
  the two document managers are Kubernetes' own: answers are the values they are asked to write, the
  managers are functions over the documents \<open>'d\<close>.
\<close>

section \<open>Answering requests\<close>

datatype 'h discovery_answer =
    AnswerGroup api_group
  | AnswerResources group_version "api_resource list"
  | GroupNotFound string
  | NotProxied group_version string
  | Forwarded 'h

record ('s, 'h) discoveryHandler =
  dh_view :: "'s \<Rightarrow> Snapshot"
  dh_owns :: "('s \<Rightarrow> string \<Rightarrow> bool) option"
  dh_proxy :: "('s \<Rightarrow> string \<Rightarrow> 'h option) option"

definition apis_prefix :: string where
  "apis_prefix = ''/apis/''"

definition resourceFromPath :: "string \<Rightarrow> string" where
  "resourceFromPath path =
     (let segments = split_on slash path
      in if segments ! 0 = ''namespaces'' \<and> 3 \<le> length segments then segments ! 2 else segments ! 0)"

definition proxyTo :: "('s, 'h) discoveryHandler \<Rightarrow> 's \<Rightarrow> string \<Rightarrow> 'h option" where
  "proxyTo h s g = (case dh_proxy h of None \<Rightarrow> None | Some f \<Rightarrow> f s g)"

definition serveGroup :: "('s, 'h) discoveryHandler \<Rightarrow> 's \<Rightarrow> string \<Rightarrow> 'h discovery_answer" where
  "serveGroup h s g =
     (case sn_Groups (dh_view h s) g of None \<Rightarrow> GroupNotFound g | Some ag \<Rightarrow> AnswerGroup ag)"

text \<open>
  A request reads the snapshot and, later, who backs the group: \<open>s2\<close> and \<open>s3\<close> are the states at those
  two moments, and \<open>s1\<close> the one at which the group's ownership is asked.
\<close>

definition serveUnderGroup :: "('s, 'h) discoveryHandler \<Rightarrow> 's \<Rightarrow> 's \<Rightarrow> string \<Rightarrow> string \<Rightarrow> 'h discovery_answer" where
  "serveUnderGroup h s2 s3 g path =
     (case cut slash (trim_prefix path (apis_prefix @ g @ [slash])) of
        (version, rest, _) \<Rightarrow>
          if version = [] then serveGroup h s2 g
          else let gv = GV g version in
               (case sn_Resources (dh_view h s2) gv of
                  None \<Rightarrow> GroupNotFound g
                | Some resources \<Rightarrow>
                    if rest \<noteq> [] then
                      (case proxyTo h s3 g of
                         None \<Rightarrow> NotProxied gv (resourceFromPath rest)
                       | Some forward \<Rightarrow> Forwarded forward)
                    else AnswerResources gv resources))"

definition serve :: "('s, 'h) discoveryHandler \<Rightarrow> 's \<Rightarrow> 's \<Rightarrow> 's \<Rightarrow> string \<Rightarrow> 'h discovery_answer" where
  "serve h s1 s2 s3 path =
     (case cut slash (trim_prefix path apis_prefix) of
        (g, _, hasRest) \<Rightarrow>
          if g = [] \<or> (case dh_owns h of None \<Rightarrow> False | Some owns \<Rightarrow> \<not> owns s1 g) then GroupNotFound g
          else if \<not> hasRest then serveGroup h s2 g
          else serveUnderGroup h s2 s3 g path)"

text \<open>The handler \<open>New\<close> builds (\<open>apiserver.go\<close>), over the router.\<close>

definition router_handler :: "('p store \<times> router, 'p) discoveryHandler" where
  "router_handler =
     \<lparr>dh_view = (\<lambda>s. fst (router_Snapshot (fst s) (snd s))),
      dh_owns = Some (\<lambda>s g. router_Owns (fst s) (snd s) g),
      dh_proxy = Some (\<lambda>s g. fst (proxyFor (fst s) (snd s) g))\<rparr>"

section \<open>The aggregated form of a version\<close>

datatype scope = ScopeCluster | ScopeNamespace

record subresource_discovery =
  su_Subresource :: string
  su_ResponseKind :: group_version_kind
  su_Verbs :: "string list"

record resource_discovery =
  rd_Resource :: string
  rd_ResponseKind :: group_version_kind
  rd_Scope :: scope
  rd_SingularResource :: string
  rd_Verbs :: "string list"
  rd_ShortNames :: "string list"
  rd_Categories :: "string list"
  rd_Subresources :: "subresource_discovery list"

record version_discovery =
  vd_Version :: string
  vd_Freshness :: string
  vd_Resources :: "resource_discovery list"

definition responseKind :: "group_version \<Rightarrow> api_resource \<Rightarrow> group_version_kind" where
  "responseKind gv r =
     (if ar_Group r = [] \<and> ar_Version r = [] then GVK (gv_Group gv) (gv_Version gv) (ar_Kind r)
      else GVK (ar_Group r) (ar_Version r) (ar_Kind r))"

definition subresource_of :: "group_version \<Rightarrow> string \<Rightarrow> api_resource \<Rightarrow> subresource_discovery" where
  "subresource_of gv sub r =
     \<lparr>su_Subresource = sub, su_ResponseKind = responseKind gv r, su_Verbs = ar_Verbs r\<rparr>"

definition parent_of :: "group_version \<Rightarrow> string \<Rightarrow> api_resource \<Rightarrow> resource_discovery" where
  "parent_of gv name r =
     \<lparr>rd_Resource = name, rd_ResponseKind = responseKind gv r,
      rd_Scope = (if ar_Namespaced r then ScopeNamespace else ScopeCluster),
      rd_SingularResource = ar_SingularName r, rd_Verbs = ar_Verbs r, rd_ShortNames = ar_ShortNames r,
      rd_Categories = ar_Categories r, rd_Subresources = []\<rparr>"

text \<open>One turn of the loop over the resources: the parents, the subresources by parent, the order.\<close>

definition aggregate_step :: "group_version \<Rightarrow> api_resource \<Rightarrow>
    (string \<rightharpoonup> resource_discovery) \<times> (string \<Rightarrow> subresource_discovery list) \<times> string list \<Rightarrow>
    (string \<rightharpoonup> resource_discovery) \<times> (string \<Rightarrow> subresource_discovery list) \<times> string list" where
  "aggregate_step gv r acc =
     (case acc of (parents, subs, order) \<Rightarrow>
        (case cut slash (ar_Name r) of
           (name, sub, isSub) \<Rightarrow>
             if isSub then (parents, subs(name := subs name @ [subresource_of gv sub r]), order)
             else (parents(name \<mapsto> parent_of gv name r), subs, order @ [name])))"

definition aggregatedVersion :: "group_version \<Rightarrow> api_resource list \<Rightarrow> version_discovery" where
  "aggregatedVersion gv resources =
     (case fold (aggregate_step gv) resources (Map.empty, (\<lambda>_. []), []) of
        (parents, subs, order) \<Rightarrow>
          \<lparr>vd_Version = gv_Version gv, vd_Freshness = ''Current'',
           vd_Resources = map (\<lambda>name. (the (parents name))\<lparr>rd_Subresources := subs name\<rparr>) order\<rparr>)"

section \<open>Publishing\<close>

record 'd group_managers =
  gm_AddGroup :: "api_group \<Rightarrow> 'd \<Rightarrow> 'd"
  gm_RemoveGroup :: "string \<Rightarrow> 'd \<Rightarrow> 'd"
  gm_aggregated :: bool
  gm_AddGroupVersion :: "string \<Rightarrow> version_discovery \<Rightarrow> 'd \<Rightarrow> 'd"
  gm_SetGroupVersionPriority :: "group_version \<Rightarrow> int \<Rightarrow> int \<Rightarrow> 'd \<Rightarrow> 'd"
  gm_RemoveAggregated :: "string \<Rightarrow> 'd \<Rightarrow> 'd"

definition withdraw :: "'d group_managers \<Rightarrow> string \<Rightarrow> 'd \<Rightarrow> 'd" where
  "withdraw gm g d =
     (let d1 = gm_RemoveGroup gm g d in if gm_aggregated gm then gm_RemoveAggregated gm g d1 else d1)"

definition publish_version :: "(string \<Rightarrow> (string, group_version) result) \<Rightarrow> 'd group_managers \<Rightarrow> Snapshot \<Rightarrow>
    string \<Rightarrow> api_version \<Rightarrow> 'd \<Rightarrow> 'd" where
  "publish_version parse_gv gm snap g v d =
     (case parse_gv (av_GroupVersion v) of
        Err _ \<Rightarrow> d
      | Ok gv \<Rightarrow>
          gm_SetGroupVersionPriority gm gv 1000 15
            (gm_AddGroupVersion gm g
               (aggregatedVersion gv (case sn_Resources snap gv of None \<Rightarrow> [] | Some rs \<Rightarrow> rs)) d))"

definition publish_group :: "(string \<Rightarrow> (string, group_version) result) \<Rightarrow> 'd group_managers \<Rightarrow> Snapshot \<Rightarrow>
    string \<Rightarrow> 'd \<Rightarrow> 'd" where
  "publish_group parse_gv gm snap g d =
     (case sn_Groups snap g of
        None \<Rightarrow> d
      | Some ag \<Rightarrow>
          let d1 = gm_AddGroup gm ag d
          in if gm_aggregated gm then fold (publish_version parse_gv gm snap g) (ag_Versions ag) d1 else d1)"

text \<open>
  \<open>gone\<close> and \<open>group_order\<close> are the orders in which the two ranges happen to run: over what was published
  and is not served any more, and over what is served.
\<close>

definition publish :: "(string \<Rightarrow> (string, group_version) result) \<Rightarrow> 'd group_managers \<Rightarrow> Snapshot \<Rightarrow>
    string list \<Rightarrow> string list \<Rightarrow> string set \<times> 'd \<Rightarrow> string set \<times> 'd" where
  "publish parse_gv gm snap gone group_order st =
     (groupNames snap, fold (publish_group parse_gv gm snap) group_order (fold (withdraw gm) gone (snd st)))"

section \<open>Subresources nest under their parent\<close>

definition is_parent :: "api_resource \<Rightarrow> bool" where
  "is_parent r \<longleftrightarrow> slash \<notin> set (ar_Name r)"

definition under :: "string \<Rightarrow> api_resource \<Rightarrow> bool" where
  "under name q \<longleftrightarrow> \<not> is_parent q \<and> fst (cut slash (ar_Name q)) = name"

definition nested_resource :: "group_version \<Rightarrow> api_resource list \<Rightarrow> api_resource \<Rightarrow> resource_discovery" where
  "nested_resource gv resources r =
     (parent_of gv (ar_Name r) r)
       \<lparr>rd_Subresources :=
          map (\<lambda>q. subresource_of gv (fst (snd (cut slash (ar_Name q)))) q) (filter (under (ar_Name r)) resources)\<rparr>"

lemma cut_parent: "is_parent r \<Longrightarrow> cut slash (ar_Name r) = (ar_Name r, [], False)"
  by (simp add: is_parent_def cut_word)

lemma cut_child:
  assumes "\<not> is_parent r"
  obtains name sub where "cut slash (ar_Name r) = (name, sub, True)"
proof -
  obtain name sub found where c: "cut slash (ar_Name r) = (name, sub, found)" by (metis prod_cases3)
  with assms cut_not_found[of slash "ar_Name r"] have found by (cases found) (auto simp: is_parent_def)
  with c that show thesis by simp
qed

lemma aggregate_fold:
  assumes "distinct (map ar_Name (filter is_parent rs))"
  shows "\<exists>parents subs.
    fold (aggregate_step gv) rs (Map.empty, (\<lambda>_. []), []) = (parents, subs, map ar_Name (filter is_parent rs)) \<and>
    (\<forall>r\<in>set (filter is_parent rs). parents (ar_Name r) = Some (parent_of gv (ar_Name r) r)) \<and>
    (\<forall>name. subs name = map (\<lambda>q. subresource_of gv (fst (snd (cut slash (ar_Name q)))) q) (filter (under name) rs))"
  using assms
proof (induction rs rule: rev_induct)
  case Nil
  then show ?case by simp
next
  case (snoc r rs)
  have "distinct (map ar_Name (filter is_parent rs))" using snoc.prems by simp
  from snoc.IH[OF this] obtain parents subs where
    f: "fold (aggregate_step gv) rs (Map.empty, (\<lambda>_. []), []) = (parents, subs, map ar_Name (filter is_parent rs))"
    and p: "\<forall>r\<in>set (filter is_parent rs). parents (ar_Name r) = Some (parent_of gv (ar_Name r) r)"
    and q: "\<forall>name. subs name = map (\<lambda>q. subresource_of gv (fst (snd (cut slash (ar_Name q)))) q) (filter (under name) rs)"
    by blast
  show ?case
  proof (cases "is_parent r")
    case True
    let ?p = "parents(ar_Name r \<mapsto> parent_of gv (ar_Name r) r)"
    have new: "ar_Name r \<notin> ar_Name ` set (filter is_parent rs)" using snoc.prems True by simp
    have "fold (aggregate_step gv) (rs @ [r]) (Map.empty, (\<lambda>_. []), []) =
        (?p, subs, map ar_Name (filter is_parent (rs @ [r])))"
      using True f cut_parent[OF True] by (simp add: aggregate_step_def del: fun_upd_apply)
    moreover have "\<forall>x\<in>set (filter is_parent (rs @ [r])). ?p (ar_Name x) = Some (parent_of gv (ar_Name x) x)"
    proof
      fix x assume "x \<in> set (filter is_parent (rs @ [r]))"
      then consider "x = r" | "x \<in> set (filter is_parent rs)" using True by auto
      then show "?p (ar_Name x) = Some (parent_of gv (ar_Name x) x)"
      proof cases
        case 2
        with new have "ar_Name x \<noteq> ar_Name r" by (metis imageI)
        with 2 p show ?thesis by simp
      qed simp
    qed
    moreover have "\<forall>name. subs name =
        map (\<lambda>q. subresource_of gv (fst (snd (cut slash (ar_Name q)))) q) (filter (under name) (rs @ [r]))"
      using q True by (simp add: under_def)
    ultimately show ?thesis by blast
  next
    case False
    obtain name sub where c: "cut slash (ar_Name r) = (name, sub, True)" using cut_child[OF False] .
    let ?s = "subs(name := subs name @ [subresource_of gv sub r])"
    have step: "aggregate_step gv r acc =
        (fst acc, (fst (snd acc))(name := fst (snd acc) name @ [subresource_of gv sub r]), snd (snd acc))" for acc
      by (simp add: aggregate_step_def c split_beta)
    have "fold (aggregate_step gv) (rs @ [r]) (Map.empty, (\<lambda>_. []), []) =
        (parents, ?s, map ar_Name (filter is_parent (rs @ [r])))"
      using False f by (simp add: step)
    moreover have "\<forall>x\<in>set (filter is_parent (rs @ [r])). parents (ar_Name x) = Some (parent_of gv (ar_Name x) x)"
      using p False by simp
    moreover have "\<forall>n. ?s n =
        map (\<lambda>q. subresource_of gv (fst (snd (cut slash (ar_Name q)))) q) (filter (under n) (rs @ [r]))"
      using q False c by (simp add: under_def)
    ultimately show ?thesis by blast
  qed
qed

text \<open>
  The aggregated form of a version says what its resource list says: one entry for each resource
  that is not a subresource, in the order of the list, with its scope, names and verbs, and under it,
  in the order of the list, exactly the subresources named after it; a kind without a group and
  version is one of the list's own.
\<close>

theorem aggregated_nests_subresources:
  assumes "distinct (map ar_Name (filter is_parent resources))"
  shows "aggregatedVersion gv resources =
    \<lparr>vd_Version = gv_Version gv, vd_Freshness = ''Current'',
     vd_Resources = map (nested_resource gv resources) (filter is_parent resources)\<rparr>"
proof -
  obtain parents subs where
    f: "fold (aggregate_step gv) resources (Map.empty, (\<lambda>_. []), []) =
      (parents, subs, map ar_Name (filter is_parent resources))"
    and p: "\<forall>r\<in>set (filter is_parent resources). parents (ar_Name r) = Some (parent_of gv (ar_Name r) r)"
    and q: "\<forall>name. subs name = map (\<lambda>q. subresource_of gv (fst (snd (cut slash (ar_Name q)))) q)
      (filter (under name) resources)"
    using aggregate_fold[OF assms] by blast
  show ?thesis using p by (simp add: aggregatedVersion_def f q nested_resource_def)
qed

section \<open>What a path is answered with\<close>

lemma router_handler_view [simp]: "dh_view router_handler (st, r) = view_of (st, r)"
  by (simp add: router_handler_def router_Snapshot_def view_of_def split: prod.splits)

lemma router_handler_owns [simp]: "dh_owns router_handler = Some (\<lambda>s g. router_Owns (fst s) (snd s) g)"
  by (simp add: router_handler_def)

lemma router_handler_proxy [simp]:
  "proxyTo router_handler (st, r) g = map_option (\<lambda>a. ws_proxy (st a)) (backer_of (st, r) g)"
  by (simp add: proxyTo_def router_handler_def proxyFor_def servingFor_def backer_of_def
      split: prod.splits option.splits)

lemma trim_apis [simp]: "trim_prefix (apis_prefix @ x) apis_prefix = x"
  by (simp add: trim_prefix_def)

lemma trim_under [simp]: "trim_prefix (apis_prefix @ g @ slash # x) (apis_prefix @ g @ [slash]) = x"
  using has_prefix_append[of "apis_prefix @ g @ [slash]" x] by (simp add: trim_prefix_def)

definition version_answer :: "'p store \<times> router \<Rightarrow> string \<Rightarrow> string \<Rightarrow> string \<Rightarrow> 'p discovery_answer" where
  "version_answer s g v rest =
     (case sn_Resources (view_of s) (GV g v) of
        None \<Rightarrow> GroupNotFound g
      | Some rs \<Rightarrow>
          if rest = [] then AnswerResources (GV g v) rs
          else Forwarded (ws_proxy (fst s (the (backer_of s g)))))"

text \<open>
  Every discovery path is answered from one consistent view: for a group the configuration owns,
  its own path gives the group as kcp reported it, a version's path the resources of that version, and
  anything below a version that is served goes to the workspace backing the group, so that while the
  workspaces do not change a served resource is never refused as not implemented; a group, version or
  resource that is not there is reported as not found, and so is a group that is not owned.
\<close>

theorem discovery_paths_are_answered:
  assumes "router_sound (st, r)"
    and "g \<noteq> []" "slash \<notin> set g" and "v \<noteq> []" "slash \<notin> set v"
  shows "serve router_handler (st, r) (st, r) (st, r) (apis_prefix @ g) =
      (if router_Owns st r g then serveGroup router_handler (st, r) g else GroupNotFound g) \<and>
    serve router_handler (st, r) (st, r) (st, r) (apis_prefix @ g @ [slash]) =
      (if router_Owns st r g then serveGroup router_handler (st, r) g else GroupNotFound g) \<and>
    serve router_handler (st, r) (st, r) (st, r) (apis_prefix @ g @ slash # v) =
      (if router_Owns st r g then version_answer (st, r) g v [] else GroupNotFound g) \<and>
    serve router_handler (st, r) (st, r) (st, r) (apis_prefix @ g @ slash # v @ slash # rest) =
      (if router_Owns st r g then version_answer (st, r) g v rest else GroupNotFound g) \<and>
    (\<forall>rs. sn_Resources (view_of (st, r)) (GV g v) = Some rs \<longrightarrow> backer_of (st, r) g \<noteq> None)"
    (is "?group \<and> ?group_slash \<and> ?version \<and> ?below \<and> ?backed")
proof (intro conjI)
  show ?group using assms by (simp add: serve_def cut_word)
  show ?group_slash using assms by (simp add: serve_def cut_append serveUnderGroup_def)
  show ?version using assms
    by (simp add: serve_def cut_append serveUnderGroup_def cut_word version_answer_def split: option.split)
  have backed: "\<exists>a. backer_of (st, r) g = Some a" if "sn_Resources (view_of (st, r)) (GV g v) = Some rs" for rs
    using surface.resources_are_backed[OF assms(1) that] by simp
  then show ?backed by blast
  show ?below
  proof (cases "sn_Resources (view_of (st, r)) (GV g v)")
    case None
    then show ?thesis using assms
      by (simp add: serve_def cut_append serveUnderGroup_def version_answer_def)
  next
    case (Some rs)
    with backed obtain a where "backer_of (st, r) g = Some a" by blast
    with Some show ?thesis using assms
      by (simp add: serve_def cut_append serveUnderGroup_def version_answer_def)
  qed
qed

text \<open>Whatever the handler: what is forwarded is below a served version of an owned group.\<close>

lemma serve_forwarded:
  assumes "serve h s1 s2 s3 (apis_prefix @ x) = Forwarded f"
  obtains g v rest where "x = g @ slash # v @ slash # rest" "g \<noteq> []" "slash \<notin> set g" "v \<noteq> []" "slash \<notin> set v" "rest \<noteq> []"
    "\<And>owns. dh_owns h = Some owns \<Longrightarrow> owns s1 g" "sn_Resources (dh_view h s2) (GV g v) \<noteq> None"
    "proxyTo h s3 g = Some f"
proof -
  obtain g y found where c: "cut slash x = (g, y, found)" by (metis prod_cases3)
  have f: "found" using assms c by (auto simp: serve_def serveGroup_def split: if_splits option.splits)
  with cut_found[of slash x g y] c have x: "x = g @ slash # y" "slash \<notin> set g" by simp_all
  have own: "g \<noteq> []" "\<And>owns. dh_owns h = Some owns \<Longrightarrow> owns s1 g"
    and under: "serveUnderGroup h s2 s3 g (apis_prefix @ g @ slash # y) = Forwarded f"
    using assms c f by (auto simp: serve_def x split: if_splits option.splits)
  obtain v rest found' where c': "cut slash y = (v, rest, found')" by (metis prod_cases3)
  have r: "v \<noteq> []" "rest \<noteq> []" "sn_Resources (dh_view h s2) (GV g v) \<noteq> None" "proxyTo h s3 g = Some f"
    using under c' by (auto simp: serveUnderGroup_def serveGroup_def Let_def split: if_splits option.splits)
  have "found'" using c' r(2) cut_not_found[of slash y v rest] by (cases found') simp_all
  with cut_found[of slash y v rest] c' have "y = v @ slash # rest" "slash \<notin> set v" by simp_all
  with that x own r show thesis by blast
qed

lemma serve_below:
  assumes "g \<noteq> []" "slash \<notin> set g" "v \<noteq> []" "slash \<notin> set v" "rest \<noteq> []"
    and "\<And>owns. dh_owns h = Some owns \<Longrightarrow> owns s1 g" and "sn_Resources (dh_view h s2) (GV g v) \<noteq> None"
    and "proxyTo h s3 g = Some f"
  shows "serve h s1 s2 s3 (apis_prefix @ g @ slash # v @ slash # rest) = Forwarded f"
  using assms by (auto simp: serve_def cut_append serveUnderGroup_def split: option.splits)

section \<open>What is published\<close>

text \<open>
  What the two document managers promise: the document of groups is a map by name, the aggregated one
  a map by group and version, and removing a group removes its versions.
\<close>

definition document_laws :: "'d group_managers \<Rightarrow> ('d \<Rightarrow> string \<rightharpoonup> api_group) \<Rightarrow>
    ('d \<Rightarrow> string \<times> string \<rightharpoonup> version_discovery) \<Rightarrow> bool" where
  "document_laws gm listed versions \<longleftrightarrow>
     (\<forall>ag d. listed (gm_AddGroup gm ag d) = (listed d)(ag_Name ag \<mapsto> ag) \<and>
        versions (gm_AddGroup gm ag d) = versions d) \<and>
     (\<forall>g d. listed (gm_RemoveGroup gm g d) = (listed d)(g := None) \<and>
        versions (gm_RemoveGroup gm g d) = versions d) \<and>
     (\<forall>g v d. listed (gm_AddGroupVersion gm g v d) = listed d \<and>
        versions (gm_AddGroupVersion gm g v d) = (versions d)((g, vd_Version v) \<mapsto> v)) \<and>
     (\<forall>gv a b d. listed (gm_SetGroupVersionPriority gm gv a b d) = listed d \<and>
        versions (gm_SetGroupVersionPriority gm gv a b d) = versions d) \<and>
     (\<forall>g d. listed (gm_RemoveAggregated gm g d) = listed d \<and>
        versions (gm_RemoveAggregated gm g d) = (\<lambda>k. if fst k = g then None else versions d k))"

text \<open>Snapshots are keyed by name, and a version parses as one of its own group.\<close>

definition well_keyed :: "(string \<Rightarrow> (string, group_version) result) \<Rightarrow> Snapshot \<Rightarrow> bool" where
  "well_keyed parse_gv snap \<longleftrightarrow>
     (\<forall>g ag. sn_Groups snap g = Some ag \<longrightarrow> ag_Name ag = g \<and>
        (\<forall>v\<in>set (ag_Versions ag). \<forall>gv. parse_gv (av_GroupVersion v) = Ok gv \<longrightarrow> gv_Group gv = g))"

definition published_version :: "(string \<Rightarrow> (string, group_version) result) \<Rightarrow> Snapshot \<Rightarrow> string \<Rightarrow> string \<Rightarrow>
    version_discovery option" where
  "published_version parse_gv snap g v =
     (case sn_Groups snap g of
        None \<Rightarrow> None
      | Some ag \<Rightarrow>
          if \<exists>x\<in>set (ag_Versions ag). parse_gv (av_GroupVersion x) = Ok (GV g v)
          then Some (aggregatedVersion (GV g v)
                 (case sn_Resources snap (GV g v) of None \<Rightarrow> [] | Some rs \<Rightarrow> rs))
          else None)"

lemma withdraw_effect:
  assumes "document_laws gm listed versions"
  shows "listed (fold (withdraw gm) gs d) = (\<lambda>g. if g \<in> set gs then None else listed d g)"
    and "gm_aggregated gm \<Longrightarrow>
      versions (fold (withdraw gm) gs d) = (\<lambda>k. if fst k \<in> set gs then None else versions d k)"
  using assms
  by (induction gs arbitrary: d) (auto simp: withdraw_def document_laws_def Let_def fun_eq_iff)

lemma publish_versions_effect:
  assumes laws: "document_laws gm listed versions"
  shows "listed (fold (publish_version parse_gv gm snap g) vs d) = listed d"
    and "\<forall>x\<in>set vs. \<forall>gv. parse_gv (av_GroupVersion x) = Ok gv \<longrightarrow> gv_Group gv = g \<Longrightarrow>
      versions (fold (publish_version parse_gv gm snap g) vs d) = (\<lambda>k.
        if fst k = g \<and> (\<exists>x\<in>set vs. parse_gv (av_GroupVersion x) = Ok (GV g (snd k)))
        then Some (aggregatedVersion (GV g (snd k))
               (case sn_Resources snap (GV g (snd k)) of None \<Rightarrow> [] | Some rs \<Rightarrow> rs))
        else versions d k)"
proof -
  show "listed (fold (publish_version parse_gv gm snap g) vs d) = listed d"
    using laws
    by (induction vs arbitrary: d) (auto simp: publish_version_def document_laws_def split: sum.split)
  assume "\<forall>x\<in>set vs. \<forall>gv. parse_gv (av_GroupVersion x) = Ok gv \<longrightarrow> gv_Group gv = g"
  then show "versions (fold (publish_version parse_gv gm snap g) vs d) = (\<lambda>k.
        if fst k = g \<and> (\<exists>x\<in>set vs. parse_gv (av_GroupVersion x) = Ok (GV g (snd k)))
        then Some (aggregatedVersion (GV g (snd k))
               (case sn_Resources snap (GV g (snd k)) of None \<Rightarrow> [] | Some rs \<Rightarrow> rs))
        else versions d k)"
  proof (induction vs arbitrary: d)
    case Nil
    then show ?case by simp
  next
    case (Cons x vs)
    have rest: "\<forall>x\<in>set vs. \<forall>gv. parse_gv (av_GroupVersion x) = Ok gv \<longrightarrow> gv_Group gv = g"
      using Cons.prems by simp
    show ?case
    proof (cases "parse_gv (av_GroupVersion x)")
      case (Inl e)
      then show ?thesis using Cons.IH[OF rest, of d] by (simp add: publish_version_def fun_eq_iff)
    next
      case (Inr gv)
      with Cons.prems have g: "gv = GV g (gv_Version gv)" by (cases gv) auto
      have one: "versions (publish_version parse_gv gm snap g x d) =
          (versions d)((g, gv_Version gv) \<mapsto>
             aggregatedVersion gv (case sn_Resources snap gv of None \<Rightarrow> [] | Some rs \<Rightarrow> rs))"
        using laws by (simp add: publish_version_def Inr document_laws_def aggregatedVersion_def split_beta)
      have step: "versions (fold (publish_version parse_gv gm snap g) (x # vs) d) k =
          (if fst k = g \<and> (\<exists>x\<in>set vs. parse_gv (av_GroupVersion x) = Ok (GV g (snd k)))
           then Some (aggregatedVersion (GV g (snd k))
                  (case sn_Resources snap (GV g (snd k)) of None \<Rightarrow> [] | Some rs \<Rightarrow> rs))
           else versions (publish_version parse_gv gm snap g x d) k)" for k
        using Cons.IH[OF rest, of "publish_version parse_gv gm snap g x d"] by simp
      show ?thesis
      proof
        fix k :: "string \<times> string"
        obtain kg kv where k: "k = (kg, kv)" by (cases k)
        show "versions (fold (publish_version parse_gv gm snap g) (x # vs) d) k =
          (if fst k = g \<and> (\<exists>x\<in>set (x # vs). parse_gv (av_GroupVersion x) = Ok (GV g (snd k)))
           then Some (aggregatedVersion (GV g (snd k))
                  (case sn_Resources snap (GV g (snd k)) of None \<Rightarrow> [] | Some rs \<Rightarrow> rs))
           else versions d k)"
          unfolding step one k using g Inr by (cases "kg = g \<and> kv = gv_Version gv") auto
      qed
    qed
  qed
qed

lemma publish_groups_effect:
  assumes laws: "document_laws gm listed versions" and keyed: "well_keyed parse_gv snap"
  shows "listed (fold (publish_group parse_gv gm snap) gs d) =
      (\<lambda>g. if g \<in> set gs \<and> sn_Groups snap g \<noteq> None then sn_Groups snap g else listed d g)"
    and "gm_aggregated gm \<Longrightarrow> versions (fold (publish_group parse_gv gm snap) gs d) =
      (\<lambda>k. if fst k \<in> set gs \<and> published_version parse_gv snap (fst k) (snd k) \<noteq> None
           then published_version parse_gv snap (fst k) (snd k) else versions d k)"
proof -
  have one_listed: "listed (publish_group parse_gv gm snap g d) =
      (case sn_Groups snap g of None \<Rightarrow> listed d | Some ag \<Rightarrow> (listed d)(g \<mapsto> ag))" for g d
    using laws keyed publish_versions_effect(1)[OF laws]
    by (cases "sn_Groups snap g") (simp_all add: publish_group_def Let_def document_laws_def well_keyed_def)
  show "listed (fold (publish_group parse_gv gm snap) gs d) =
      (\<lambda>g. if g \<in> set gs \<and> sn_Groups snap g \<noteq> None then sn_Groups snap g else listed d g)"
    by (induction gs arbitrary: d) (auto simp: one_listed fun_eq_iff split: option.splits)
  assume agg: "gm_aggregated gm"
  have one: "versions (publish_group parse_gv gm snap g d) =
      (\<lambda>k. if fst k = g \<and> published_version parse_gv snap g (snd k) \<noteq> None
           then published_version parse_gv snap g (snd k) else versions d k)" for g d
  proof (cases "sn_Groups snap g")
    case None
    then show ?thesis by (simp add: publish_group_def published_version_def)
  next
    case (Some ag)
    with keyed have "\<forall>x\<in>set (ag_Versions ag). \<forall>gv. parse_gv (av_GroupVersion x) = Ok gv \<longrightarrow> gv_Group gv = g"
      unfolding well_keyed_def by blast
    from publish_versions_effect(2)[OF laws this] Some agg laws show ?thesis
      by (auto simp: publish_group_def Let_def published_version_def document_laws_def fun_eq_iff)
  qed
  show "versions (fold (publish_group parse_gv gm snap) gs d) =
      (\<lambda>k. if fst k \<in> set gs \<and> published_version parse_gv snap (fst k) (snd k) \<noteq> None
           then published_version parse_gv snap (fst k) (snd k) else versions d k)"
    by (induction gs arbitrary: d) (auto simp: one fun_eq_iff)
qed

text \<open>
  Publishing brings the server's discovery documents in step with the workspaces: whatever was
  published before, the document of groups afterwards lists exactly the groups that are served, as kcp
  reported them, and the aggregated one has the current resources under every version of theirs and
  nothing of any other group. What it does not do is withdraw a version that a group still served has
  lost: that entry stays as it was.
\<close>

lemma publish_keeps_documents_current:
  assumes "document_laws gm listed versions" and "well_keyed parse_gv snap" and "gm_aggregated gm"
    and "pub = dom (listed d)" and "\<forall>k. versions d k \<noteq> None \<longrightarrow> fst k \<in> pub"
    and "set gone = pub - groupNames snap" and "set group_order = groupNames snap"
    and "publish parse_gv gm snap gone group_order (pub, d) = (pub', d')"
  shows "listed d' = sn_Groups snap \<and> pub' = dom (listed d') \<and>
    (\<forall>k. versions d' k \<noteq> None \<longrightarrow> fst k \<in> pub') \<and>
    (\<forall>g v. versions d' (g, v) =
       (if g \<notin> pub' then None
        else (case published_version parse_gv snap g v of Some x \<Rightarrow> Some x | None \<Rightarrow> versions d (g, v))))"
proof -
  let ?d1 = "fold (withdraw gm) gone d"
  have pub': "pub' = groupNames snap" and d': "d' = fold (publish_group parse_gv gm snap) group_order ?d1"
    using assms(8) by (simp_all add: publish_def)
  have l: "listed d' = sn_Groups snap"
    unfolding d' publish_groups_effect(1)[OF assms(1,2)] withdraw_effect(1)[OF assms(1)]
    using assms(4,6,7) by (auto simp: fun_eq_iff groupNames_def)
  have v: "versions d' (g, v) =
      (if g \<in> groupNames snap \<and> published_version parse_gv snap g v \<noteq> None then published_version parse_gv snap g v
       else if g \<in> pub - groupNames snap then None else versions d (g, v))" for g v
    unfolding d' publish_groups_effect(2)[OF assms(1,2,3)] withdraw_effect(2)[OF assms(1,3)]
    using assms(6,7) by auto
  have out: "versions d (g, v) = None" if "g \<notin> pub" for g v using assms(5) that by force
  have v': "versions d' (g, v) =
       (if g \<notin> pub' then None
        else (case published_version parse_gv snap g v of Some x \<Rightarrow> Some x | None \<Rightarrow> versions d (g, v)))" for g v
    unfolding v pub' using out[of g v] by (cases "published_version parse_gv snap g v") auto
  have "fst k \<in> pub'" if "versions d' k \<noteq> None" for k
    using that v'[of "fst k" "snd k"] by (auto split: if_splits)
  with l v' show ?thesis by (simp add: pub' groupNames_def)
qed

section \<open>Documents, and a group that lost its version\<close>

type_synonym sample_documents = "(string \<rightharpoonup> api_group) \<times> (string \<times> string \<rightharpoonup> version_discovery)"

definition sample_managers :: "sample_documents group_managers" where
  "sample_managers =
     \<lparr>gm_AddGroup = (\<lambda>ag d. ((fst d)(ag_Name ag \<mapsto> ag), snd d)),
      gm_RemoveGroup = (\<lambda>g d. ((fst d)(g := None), snd d)), gm_aggregated = True,
      gm_AddGroupVersion = (\<lambda>g v d. (fst d, (snd d)((g, vd_Version v) \<mapsto> v))),
      gm_SetGroupVersionPriority = (\<lambda>_ _ _ d. d),
      gm_RemoveAggregated = (\<lambda>g d. (fst d, \<lambda>k. if fst k = g then None else snd d k))\<rparr>"

lemma sample_document_laws: "document_laws sample_managers fst snd"
  by (simp add: document_laws_def sample_managers_def)

definition sample_published :: sample_documents where
  "sample_published =
     ([''a.b.c'' \<mapsto> sample_group], [(''a.b.c'', ''v1'') \<mapsto> aggregatedVersion (GV ''a.b.c'' ''v1'') []])"

text \<open>The version the group lost is still in the aggregated document.\<close>

theorem publish_keeps_documents_current_witness:
  "\<exists>pub' d'. publish sample_parse sample_managers
       \<lparr>sn_Groups = [''a.b.c'' \<mapsto> sample_group\<lparr>ag_Versions := []\<rparr>], sn_Resources = Map.empty\<rparr>
       [] [''a.b.c''] ({''a.b.c''}, sample_published) = (pub', d') \<and>
     fst d' = [''a.b.c'' \<mapsto> sample_group\<lparr>ag_Versions := []\<rparr>] \<and>
     snd d' (''a.b.c'', ''v1'') = Some (aggregatedVersion (GV ''a.b.c'' ''v1'') [])"
proof -
  let ?snap = "\<lparr>sn_Groups = [''a.b.c'' \<mapsto> sample_group\<lparr>ag_Versions := []\<rparr>], sn_Resources = Map.empty\<rparr>"
  obtain pub' d' where run: "publish sample_parse sample_managers ?snap [] [''a.b.c''] ({''a.b.c''}, sample_published) = (pub', d')"
    by (metis surj_pair)
  have keyed: "well_keyed sample_parse ?snap" by (simp add: well_keyed_def sample_group_def)
  have agg: "gm_aggregated sample_managers" by (simp add: sample_managers_def)
  have pub: "{''a.b.c''} = dom (fst sample_published)" by (simp add: sample_published_def)
  have inside: "\<forall>k. snd sample_published k \<noteq> None \<longrightarrow> fst k \<in> {''a.b.c''}" by (simp add: sample_published_def)
  have gone: "set [] = {''a.b.c''} - groupNames ?snap" and order: "set [''a.b.c''] = groupNames ?snap"
    by (simp_all add: groupNames_def)
  from publish_keeps_documents_current[OF sample_document_laws keyed agg pub inside gone order run]
  have l: "fst d' = sn_Groups ?snap" "pub' = dom (fst d')" and v: "snd d' (''a.b.c'', ''v1'') =
      (if ''a.b.c'' \<notin> pub' then None
       else (case published_version sample_parse ?snap ''a.b.c'' ''v1'' of Some x \<Rightarrow> Some x
             | None \<Rightarrow> snd sample_published (''a.b.c'', ''v1'')))"
    by blast+
  have "published_version sample_parse ?snap ''a.b.c'' ''v1'' = None" by (simp add: published_version_def)
  with l v have "snd d' (''a.b.c'', ''v1'') = Some (aggregatedVersion (GV ''a.b.c'' ''v1'') [])"
    by (simp add: sample_published_def)
  with run l(1) show ?thesis by simp
qed

definition sample_resource :: "string \<Rightarrow> api_resource" where
  "sample_resource name =
     \<lparr>ar_Name = name, ar_SingularName = [], ar_Namespaced = True, ar_Group = [], ar_Version = [], ar_Kind = ''Widget'',
      ar_Verbs = [''get''], ar_ShortNames = [], ar_Categories = []\<rparr>"

theorem aggregated_nests_subresources_witness:
  "map rd_Resource (vd_Resources (aggregatedVersion (GV ''a.b.c'' ''v1'')
      [sample_resource ''widgets/status'', sample_resource ''widgets''])) = [''widgets''] \<and>
   map su_Subresource (rd_Subresources (hd (vd_Resources (aggregatedVersion (GV ''a.b.c'' ''v1'')
      [sample_resource ''widgets/status'', sample_resource ''widgets''])))) = [''status'']"
proof -
  have d: "distinct (map ar_Name (filter is_parent [sample_resource ''widgets/status'', sample_resource ''widgets'']))"
    by (simp add: is_parent_def sample_resource_def)
  show ?thesis unfolding aggregated_nests_subresources[OF d]
    by (simp add: is_parent_def under_def nested_resource_def parent_of_def subresource_of_def sample_resource_def)
qed

theorem discovery_paths_are_answered_witness:
  "serve router_handler (sample_store, newRouter [1, 0]) (sample_store, newRouter [1, 0])
     (sample_store, newRouter [1, 0]) (apis_prefix @ ''a.b.c'' @ slash # ''v1'') = GroupNotFound ''a.b.c'' \<and>
   router_Owns sample_store (newRouter [1, 0]) ''a.b.c''"
proof -
  have s: "router_sound (sample_store, newRouter [1, 0])" by (rule router_sound_new)
  have g: "''a.b.c'' \<noteq> []" "slash \<notin> set ''a.b.c''" "''v1'' \<noteq> []" "slash \<notin> set ''v1''" by simp_all
  have o: "router_Owns sample_store (newRouter [1, 0]) ''a.b.c''"
  proof -
    have "Matches (Some sample_matcher) ''a.b.c''" by code_simp
    then show ?thesis
      by (simp add: router_Owns_def configuredFor_def sample_configured newRouter_def router_replace_eq router_snapshot_def)
  qed
  have "sn_Resources (view_of (sample_store, newRouter [1, 0])) (GV ''a.b.c'' ''v1'') = None"
    by (simp add: view_of_def current_def current_keyed_def merged_hit_def newRouter_def router_replace_eq
        zero_router_def build_merged_def merge_all_def router_snapshot_def merge_workspace_def Let_def
        sample_store_def sample_workspace_def split_beta)
  then have "version_answer (sample_store, newRouter [1, 0]) ''a.b.c'' ''v1'' [] = GroupNotFound ''a.b.c''"
    by (simp add: version_answer_def)
  with discovery_paths_are_answered[OF s g, of "[]"] o show ?thesis by simp
qed

end
