(* ===== verification/Admission_Match.thy ===== *)
theory Admission_Match
  imports K8s
begin

text \<open>
  \<open>pkg/apiserver/admissionmatch.go\<close>: whether anything in the workload cluster would act on a write.
  The listers are client-go's; a lister is what \<open>List\<close> answers, an error or the configurations.
\<close>

section \<open>Rules and operations\<close>

datatype operation = Create | Update | Delete | Connect
datatype operation_type = CreateOp | UpdateOp | DeleteOp | ConnectOp | OperationAll

record rule_with_operations =
  ru_Operations :: "operation_type list"
  ru_APIGroups :: "string list"
  ru_APIVersions :: "string list"
  ru_Resources :: "string list"

text \<open>A configuration is its webhooks, a webhook its rules.\<close>

type_synonym webhook_rules = "rule_with_operations list"

record admissionMatcher =
  am_validating :: "(string, webhook_rules list list) result option"
  am_mutating :: "(string, webhook_rules list list) result option"
  am_bindings :: "(string, string list) result option"
  am_synced :: "bool list"

definition operationType :: "operation \<Rightarrow> operation_type" where
  "operationType op = (case op of Create \<Rightarrow> CreateOp | Update \<Rightarrow> UpdateOp | Delete \<Rightarrow> DeleteOp | _ \<Rightarrow> OperationAll)"

fun containsOperation :: "operation_type list \<Rightarrow> operation_type \<Rightarrow> bool" where
  "containsOperation [] wanted = False"
| "containsOperation (op # ops) wanted =
     (if op = OperationAll \<or> op = wanted then True else containsOperation ops wanted)"

fun contains_value :: "string list \<Rightarrow> string \<Rightarrow> bool" where
  "contains_value [] wanted = False"
| "contains_value (v # vs) wanted = (if v = ''*'' \<or> v = wanted then True else contains_value vs wanted)"

fun containsResource :: "string list \<Rightarrow> string \<Rightarrow> bool" where
  "containsResource [] wanted = False"
| "containsResource (r # rs) wanted =
     (if r = ''*'' \<or> r = ''*/*'' \<or> r = wanted \<or> r = wanted @ ''/*'' then True
      else containsResource rs wanted)"

definition ruleMatches :: "rule_with_operations \<Rightarrow> group_version_resource \<Rightarrow> operation_type \<Rightarrow> bool" where
  "ruleMatches rule gvr op =
     (if \<not> containsOperation (ru_Operations rule) op then False
      else if \<not> contains_value (ru_APIGroups rule) (gvr_Group gvr) then False
      else if \<not> contains_value (ru_APIVersions rule) (gvr_Version gvr) then False
      else containsResource (ru_Resources rule) (gvr_Resource gvr))"

fun rulesMatch :: "rule_with_operations list \<Rightarrow> group_version_resource \<Rightarrow> operation_type \<Rightarrow> bool" where
  "rulesMatch [] gvr op = False"
| "rulesMatch (rule # rules) gvr op = (if ruleMatches rule gvr op then True else rulesMatch rules gvr op)"

text \<open>The loop over a lister's configurations; an error counts as a match.\<close>

definition listed_match :: "(string, webhook_rules list list) result option \<Rightarrow> group_version_resource \<Rightarrow>
    operation_type \<Rightarrow> bool" where
  "listed_match lister gvr op =
     (case lister of None \<Rightarrow> False
      | Some (Err _) \<Rightarrow> True
      | Some (Ok configurations) \<Rightarrow> list_ex (list_ex (\<lambda>rules. rulesMatch rules gvr op)) configurations)"

definition binding_match :: "(string, string list) result option \<Rightarrow> bool" where
  "binding_match lister =
     (case lister of None \<Rightarrow> False | Some (Err _) \<Rightarrow> True | Some (Ok bindings) \<Rightarrow> bindings \<noteq> [])"

definition matcher_matches :: "admissionMatcher option \<Rightarrow> group_version_resource \<Rightarrow> operation \<Rightarrow> bool" where
  "matcher_matches mo gvr op =
     (case mo of None \<Rightarrow> True
      | Some m \<Rightarrow>
          if \<not> list_all id (am_synced m) then True
          else if binding_match (am_bindings m) then True
          else if listed_match (am_mutating m) gvr (operationType op) then True
          else listed_match (am_validating m) gvr (operationType op))"

section \<open>The matcher of a server\<close>

text \<open>The workload cluster's informers: what each of the three lists, and whether it has synced.\<close>

record admission_informers =
  ai_validating :: "(string, webhook_rules list list) result \<times> bool"
  ai_mutating :: "(string, webhook_rules list list) result \<times> bool"
  ai_bindings :: "(string, string list) result \<times> bool"

definition informer_matcher :: "admission_informers \<Rightarrow> admissionMatcher" where
  "informer_matcher ai =
     \<lparr>am_validating = Some (fst (ai_validating ai)), am_mutating = Some (fst (ai_mutating ai)),
      am_bindings = Some (fst (ai_bindings ai)),
      am_synced = [snd (ai_validating ai), snd (ai_mutating ai), snd (ai_bindings ai)]\<rparr>"

text \<open>Nothing is skipped before every cache is populated, or while one cannot be listed.\<close>

lemma unsynced_informers_match:
  "\<not> (snd (ai_validating ai) \<and> snd (ai_mutating ai) \<and> snd (ai_bindings ai)) \<Longrightarrow>
   matcher_matches (Some (informer_matcher ai)) gvr op"
  by (auto simp: matcher_matches_def informer_matcher_def)

lemma failing_informers_match:
  "\<not> (is_ok (fst (ai_validating ai)) \<and> is_ok (fst (ai_mutating ai)) \<and> is_ok (fst (ai_bindings ai))) \<Longrightarrow>
   matcher_matches (Some (informer_matcher ai)) gvr op"
  by (auto simp: matcher_matches_def informer_matcher_def binding_match_def listed_match_def is_ok_def
      split: sum.splits)

section \<open>What Kubernetes means by a rule\<close>

text \<open>
  The documented meaning: a resource entry is a resource and, after a slash, a subresource (none
  when there is no slash), either of which may be a wildcard, and a request matches when both do.
\<close>

definition resource_entry_covers :: "string \<Rightarrow> string \<Rightarrow> string \<Rightarrow> bool" where
  "resource_entry_covers entry res sub =
     (case cut slash entry of (er, es, _) \<Rightarrow> (er = ''*'' \<or> er = res) \<and> (es = ''*'' \<or> es = sub))"

definition rule_covers :: "rule_with_operations \<Rightarrow> group_version_resource \<Rightarrow> string \<Rightarrow> operation_type \<Rightarrow> bool" where
  "rule_covers rule gvr sub op \<longleftrightarrow>
     (OperationAll \<in> set (ru_Operations rule) \<or> op \<in> set (ru_Operations rule)) \<and>
     (''*'' \<in> set (ru_APIGroups rule) \<or> gvr_Group gvr \<in> set (ru_APIGroups rule)) \<and>
     (''*'' \<in> set (ru_APIVersions rule) \<or> gvr_Version gvr \<in> set (ru_APIVersions rule)) \<and>
     (\<exists>entry\<in>set (ru_Resources rule). resource_entry_covers entry (gvr_Resource gvr) sub)"

text \<open>A rule as the API admits it: no resource entry ends in a slash.\<close>

definition valid_rule :: "rule_with_operations \<Rightarrow> bool" where
  "valid_rule rule \<longleftrightarrow> (\<forall>entry\<in>set (ru_Resources rule). \<not> has_suffix entry [slash])"

lemma containsOperation_iff: "containsOperation ops op \<longleftrightarrow> OperationAll \<in> set ops \<or> op \<in> set ops"
  by (induction ops) auto

lemma contains_value_iff: "contains_value vs v \<longleftrightarrow> ''*'' \<in> set vs \<or> v \<in> set vs"
  by (induction vs) auto

lemma containsResource_iff:
  "containsResource rs r \<longleftrightarrow> (\<exists>e\<in>set rs. e = ''*'' \<or> e = ''*/*'' \<or> e = r \<or> e = r @ ''/*'')"
  by (induction rs) auto

lemma entry_covers_whole_resource:
  assumes "slash \<notin> set r" and "\<not> has_suffix e [slash]"
  shows "resource_entry_covers e r [] \<longleftrightarrow> e = ''*'' \<or> e = ''*/*'' \<or> e = r \<or> e = r @ ''/*''"
proof -
  obtain er es found where c: "cut slash e = (er, es, found)" by (metis surj_pair)
  have star: "slash \<notin> set ''*''" by simp
  show ?thesis
  proof (cases found)
    case True
    with c have ct: "cut slash e = (er, es, True)" by simp
    from cut_found[OF this] have e: "e = er @ slash # es" "slash \<in> set e" by auto
    with assms(2) have ne: "es \<noteq> []" by (auto simp: has_suffix_def)
    have "e = x @ ''/*'' \<longleftrightarrow> er = x \<and> es = ''*''" if "slash \<notin> set x" for x
    proof
      assume "e = x @ ''/*''"
      then have "cut slash e = (x, ''*'', True)" using cut_append[OF that, of "''*''"] by simp
      with ct show "er = x \<and> es = ''*''" by simp
    next
      assume "er = x \<and> es = ''*''"
      then show "e = x @ ''/*''" using e(1) by simp
    qed
    from this[OF assms(1)] this[OF star]
    have "e = r @ ''/*'' \<longleftrightarrow> er = r \<and> es = ''*''" "e = ''*/*'' \<longleftrightarrow> er = ''*'' \<and> es = ''*''" by simp_all
    moreover have "e \<noteq> ''*''" "e \<noteq> r" using e(2) star assms(1) by auto
    ultimately show ?thesis using ct ne by (auto simp: resource_entry_covers_def)
  next
    case False
    with c have "cut slash e = (er, es, False)" by simp
    from cut_not_found[OF this] have e: "er = e" "es = []" "slash \<notin> set e" by auto
    then have "e \<noteq> ''*/*''" "e \<noteq> r @ ''/*''" by auto
    with e c show ?thesis by (auto simp: resource_entry_covers_def)
  qed
qed

lemma ruleMatches_covers:
  "slash \<notin> set (gvr_Resource gvr) \<Longrightarrow> valid_rule rule \<Longrightarrow>
   ruleMatches rule gvr op \<longleftrightarrow> rule_covers rule gvr [] op"
  by (auto simp: ruleMatches_def rule_covers_def containsOperation_iff contains_value_iff
      containsResource_iff entry_covers_whole_resource valid_rule_def)

lemma rulesMatch_iff: "rulesMatch rules gvr op \<longleftrightarrow> (\<exists>rule\<in>set rules. ruleMatches rule gvr op)"
  by (induction rules) auto

text \<open>Every rule a lister holds.\<close>

definition listed_rules :: "(string, webhook_rules list list) result option \<Rightarrow> rule_with_operations set" where
  "listed_rules lister =
     (case lister of Some (Ok configurations) \<Rightarrow> set (concat (concat configurations)) | _ \<Rightarrow> {})"

lemma listed_match_iff:
  "listed_match lister gvr op \<longleftrightarrow>
   (\<exists>e. lister = Some (Err e)) \<or> (\<exists>rule\<in>listed_rules lister. ruleMatches rule gvr op)"
  by (auto simp: listed_match_def listed_rules_def list_ex_iff rulesMatch_iff split: option.splits sum.splits)

section \<open>Properties\<close>

text \<open>A rule that covers a subresource but not what the matcher is asked about says which one.\<close>

lemma entry_covers_subresource:
  assumes "resource_entry_covers e r sub" and "sub \<noteq> []" and "e \<noteq> ''*/*''" and "e \<noteq> r @ ''/*''"
  shows "e = ''*'' @ slash # sub \<or> e = r @ slash # sub"
proof -
  obtain er es found where c: "cut slash e = (er, es, found)" by (metis surj_pair)
  have "es \<noteq> []" using assms(1,2) c by (auto simp: resource_entry_covers_def)
  with c have found by (cases found) (auto dest: cut_not_found)
  with c have e: "e = er @ slash # es" using cut_found[of slash e er es] by auto
  with assms c show ?thesis by (auto simp: resource_entry_covers_def)
qed

lemma missed_rule_names_the_subresource:
  assumes "rule_covers rule gvr sub op" and "sub \<noteq> []" and "\<not> ruleMatches rule gvr op"
  shows "(''*'' @ slash # sub) \<in> set (ru_Resources rule) \<or> (gvr_Resource gvr @ slash # sub) \<in> set (ru_Resources rule)"
proof -
  from assms(1) obtain e where e: "e \<in> set (ru_Resources rule)" "resource_entry_covers e (gvr_Resource gvr) sub"
    by (auto simp: rule_covers_def)
  moreover from assms(1,3) e(1) have "e \<noteq> ''*/*''" "e \<noteq> gvr_Resource gvr @ ''/*''"
    by (auto simp: rule_covers_def ruleMatches_def containsOperation_iff contains_value_iff containsResource_iff)
  ultimately show ?thesis using entry_covers_subresource[OF _ assms(2)] by blast
qed


definition sample_rule :: rule_with_operations where
  "sample_rule = \<lparr>ru_Operations = [UpdateOp], ru_APIGroups = [''a.b.c''], ru_APIVersions = [''*''],
     ru_Resources = [''widgets'', ''gadgets/status'']\<rparr>"

definition sample_informers :: admission_informers where
  "sample_informers = \<lparr>ai_validating = (Ok [[[sample_rule]]], True), ai_mutating = (Ok [], True), ai_bindings = (Ok [], True)\<rparr>"

definition sample_webhooks :: admissionMatcher where
  "sample_webhooks = informer_matcher sample_informers"


text \<open>
  The matcher is not asked about a subresource, so a rule that covers only one is missed for a
  write to it.
\<close>

lemma subresource_rule_is_missed:
  "rule_covers sample_rule (GVR ''a.b.c'' ''v1'' ''gadgets'') ''status'' UpdateOp \<and>
   \<not> matcher_matches (Some sample_webhooks) (GVR ''a.b.c'' ''v1'' ''gadgets'') Update"
  by (simp add: rule_covers_def sample_rule_def resource_entry_covers_def) code_simp

end
