(* ===== verification/Conversion.thy ===== *)
theory Conversion
  imports Keyed_Cache K8s
begin

text \<open>
  \<open>pkg/apiserver/conversion.go\<close>: whether a resource's versions are interchangeable, and presenting
  an object as another version of itself. The workspace's answer for its definitions and the JSON
  decoder of \<open>decodeCRDList\<close> are parameters; the mutex makes each question one step.
\<close>

section \<open>The policy\<close>

text \<open>Where a workspace lists its definitions (\<open>openapi.go\<close>).\<close>

definition crdPath :: string where
  "crdPath = ''/apis/apiextensions.k8s.io/v1/customresourcedefinitions''"

record conversionPolicy =
  cp_cached :: "group_kind \<rightharpoonup> bool"
  cp_cachedFrom :: "64 word"
  cp_loaded :: bool

text \<open>
  The two function fields: how to list the definitions (absent in a policy that was not given one),
  and the generation.
\<close>

record ('w, 'e) policy_source =
  ps_definitions :: "('w \<Rightarrow> ('e, string) result \<times> 'w) option"
  ps_generation :: "('w \<Rightarrow> 64 word) option"

definition emptyPolicy :: conversionPolicy where
  "emptyPolicy = \<lparr>cp_cached = Map.empty, cp_cachedFrom = 0, cp_loaded = False\<rparr>"

definition NoneConverter :: string where
  "NoneConverter = ''None''"

definition relabelable :: "crd \<Rightarrow> bool" where
  "relabelable c \<longleftrightarrow> crd_Conversion c = None \<or> crd_Conversion c = Some NoneConverter"

text \<open>The loop that fills the table: a later definition of a kind replaces an earlier one.\<close>

fun fill_table :: "crd list \<Rightarrow> (group_kind \<rightharpoonup> bool) \<Rightarrow> group_kind \<rightharpoonup> bool" where
  "fill_table [] table = table"
| "fill_table (c # cs) table = fill_table cs (table(GK (crd_Group c) (crd_Kind c) \<mapsto> relabelable c))"

definition relabels :: "(string \<Rightarrow> (string, crd list) result) \<Rightarrow> ('w, 'e) policy_source \<Rightarrow>
    group_kind \<Rightarrow> conversionPolicy option \<times> 'w \<Rightarrow> bool \<times> (conversionPolicy option \<times> 'w)" where
  "relabels decodeCRDList src kind st =
     (case st of (None, w) \<Rightarrow> (False, (None, w))
      | (Some p, w) \<Rightarrow>
         (case ps_definitions src of None \<Rightarrow> (False, (Some p, w))
          | Some definitions \<Rightarrow>
              let generation = (case ps_generation src of None \<Rightarrow> 0 | Some g \<Rightarrow> g w) in
              if \<not> cp_loaded p \<or> cp_cachedFrom p \<noteq> generation then
                (case definitions w of
                   (Err _, w') \<Rightarrow> (False, (Some p, w'))
                 | (Ok raw, w') \<Rightarrow>
                     (case decodeCRDList raw of
                        Err _ \<Rightarrow> (False, (Some p, w'))
                      | Ok defs \<Rightarrow>
                          let p' = p\<lparr>cp_cached := fill_table defs Map.empty, cp_cachedFrom := generation,
                                     cp_loaded := True\<rparr>
                          in (cp_cached p' kind = Some True, (Some p', w'))))
              else (cp_cached p kind = Some True, (Some p, w))))"

section \<open>Converting\<close>

datatype any_object = UObj k8s_object | OtherObject string

datatype convert_error =
    NotUnstructured string
  | NotIntoUnstructured string
  | DifferentKind group_version_kind group_version_kind
  | NotInterchangeable group_version_kind group_version_kind

text \<open>On success, what the target holds afterwards.\<close>

definition Convert :: "(string \<Rightarrow> (string, crd list) result) \<Rightarrow> ('w, 'e) policy_source \<Rightarrow>
    any_object \<Rightarrow> any_object \<Rightarrow> conversionPolicy option \<times> 'w \<Rightarrow>
    (convert_error, k8s_object) result \<times> (conversionPolicy option \<times> 'w)" where
  "Convert decodeCRDList src inp out st =
     (case inp of OtherObject t \<Rightarrow> (Err (NotUnstructured t), st)
      | UObj source \<Rightarrow>
     (case out of OtherObject t \<Rightarrow> (Err (NotIntoUnstructured t), st)
      | UObj target \<Rightarrow>
          let fromk = ob_gvk source; tok = ob_gvk target in
          if fromk = tok then (Ok source, st)
          else if gvk_Group fromk \<noteq> gvk_Group tok \<or> gvk_Kind fromk \<noteq> gvk_Kind tok
          then (Err (DifferentKind fromk tok), st)
          else (case relabels decodeCRDList src (GK (gvk_Group fromk) (gvk_Kind fromk)) st of
                  (False, st') \<Rightarrow> (Err (NotInterchangeable fromk tok), st')
                | (True, st') \<Rightarrow> (Ok (source\<lparr>ob_gvk := tok\<rparr>), st'))))"

text \<open>\<open>accepts\<close> is the target's \<open>KindForGroupVersionKinds\<close> on the object's kind.\<close>

definition ConvertToVersion :: "(group_version_kind \<Rightarrow> bool) \<Rightarrow> k8s_object \<Rightarrow> (group_version_kind, k8s_object) result" where
  "ConvertToVersion accepts inp = (if accepts (ob_gvk inp) then Ok inp else Err (ob_gvk inp))"

definition ConvertFieldLabel :: "group_version_kind \<Rightarrow> string \<Rightarrow> string \<Rightarrow> string \<times> string" where
  "ConvertFieldLabel k label v = (label, v)"

section \<open>Facts\<close>

definition held_policy :: "conversionPolicy \<Rightarrow> (64 word \<times> (group_kind \<rightharpoonup> bool)) option" where
  "held_policy p = (if cp_loaded p then Some (cp_cachedFrom p, cp_cached p) else None)"

definition put_policy :: "64 word \<Rightarrow> (group_kind \<rightharpoonup> bool) \<Rightarrow> conversionPolicy \<Rightarrow> conversionPolicy" where
  "put_policy g t p = p\<lparr>cp_cached := t, cp_cachedFrom := g, cp_loaded := True\<rparr>"

interpretation policies: keyed_cache held_policy put_policy
  by unfold_locales (simp add: held_policy_def put_policy_def)

text \<open>What a listing says of a kind: the last definition of it decides.\<close>

definition definitions_of :: "group_kind \<Rightarrow> crd list \<Rightarrow> crd list" where
  "definitions_of k defs = filter (\<lambda>c. GK (crd_Group c) (crd_Kind c) = k) defs"

lemma fill_table_last:
  "fill_table defs t k = (if definitions_of k defs = [] then t k else Some (relabelable (last (definitions_of k defs))))"
proof (induction defs arbitrary: t)
  case Nil
  then show ?case by (simp add: definitions_of_def)
next
  case (Cons c defs)
  then show ?case by (auto simp: definitions_of_def)
qed

lemma fill_table_True:
  "fill_table defs Map.empty k = Some True \<longleftrightarrow>
   definitions_of k defs \<noteq> [] \<and> relabelable (last (definitions_of k defs))"
  by (simp add: fill_table_last)

lemma relabels_cases:
  assumes "ps_definitions src = Some definitions"
    and "g = (case ps_generation src of None \<Rightarrow> 0 | Some g \<Rightarrow> g w)"
  shows "relabels decode src kind (Some p, w) =
     (case policies.hit p g of
        Some t \<Rightarrow> (t kind = Some True, (Some p, w))
      | None \<Rightarrow>
          (case definitions w of
             (Err _, w') \<Rightarrow> (False, (Some p, w'))
           | (Ok raw, w') \<Rightarrow>
               (case decode raw of Err _ \<Rightarrow> (False, (Some p, w'))
                | Ok defs \<Rightarrow> (fill_table defs Map.empty kind = Some True,
                      (Some (put_policy g (fill_table defs Map.empty) p), w')))))"
  using assms
  by (auto simp: relabels_def policies.hit_def held_policy_def put_policy_def Let_def
      split: prod.splits sum.splits option.splits)

text \<open>
  The generation a policy compares with, and what the workspace declares when it is asked: \<open>declares\<close>
  says that listing the definitions in the world \<open>w\<close> gives exactly \<open>defs\<close>.
\<close>

definition generation_at :: "('w, 'e) policy_source \<Rightarrow> 'w \<Rightarrow> 64 word" where
  "generation_at src w = (case ps_generation src of None \<Rightarrow> 0 | Some g \<Rightarrow> g w)"

definition declares :: "(string \<Rightarrow> (string, crd list) result) \<Rightarrow> ('w, 'e) policy_source \<Rightarrow> 'w \<Rightarrow> crd list \<Rightarrow> bool" where
  "declares decode src w defs \<longleftrightarrow>
     (\<exists>definitions raw w'. ps_definitions src = Some definitions \<and> definitions w = (Ok raw, w') \<and> decode raw = Ok defs)"

text \<open>The policy after questions that were asked one after the other, each in a world of its own.\<close>

definition asked :: "(string \<Rightarrow> (string, crd list) result) \<Rightarrow> ('w, 'e) policy_source \<Rightarrow>
    (group_kind \<times> 'w) list \<Rightarrow> conversionPolicy \<Rightarrow> conversionPolicy" where
  "asked decode src qs p =
     fold (\<lambda>(kind, w) p. case relabels decode src kind (Some p, w) of
             (_, (Some p', _)) \<Rightarrow> p' | (_, (None, _)) \<Rightarrow> p) qs p"

text \<open>
  What a policy holds is what the workspace declared in one of those worlds, under the generation it
  had there.
\<close>

definition policy_from :: "(string \<Rightarrow> (string, crd list) result) \<Rightarrow> ('w, 'e) policy_source \<Rightarrow> 'w set \<Rightarrow>
    conversionPolicy \<Rightarrow> bool" where
  "policy_from decode src ws p \<longleftrightarrow>
     policies.holds_only (\<lambda>g t. \<exists>w\<in>ws. \<exists>defs. generation_at src w = g \<and> declares decode src w defs \<and>
        t = fill_table defs Map.empty) p"

lemma policy_from_empty [wf_intros]: "policy_from decode src ws emptyPolicy"
  by (simp add: policy_from_def policies.holds_only_empty held_policy_def emptyPolicy_def)

lemma policy_from_mono: "policy_from decode src ws p \<Longrightarrow> ws \<subseteq> ws' \<Longrightarrow> policy_from decode src ws' p"
  unfolding policy_from_def by (erule policies.holds_only_mono) blast

lemma relabels_from:
  assumes "policy_from decode src ws p" and "relabels decode src kind (Some p, w) = (r, (po, w'))"
  shows "(\<exists>p'. po = Some p' \<and> policy_from decode src (insert w ws) p') \<and>
     (r \<longrightarrow> (\<exists>w0\<in>insert w ws. \<exists>defs. generation_at src w0 = generation_at src w \<and> declares decode src w0 defs \<and>
        definitions_of kind defs \<noteq> [] \<and> relabelable (last (definitions_of kind defs))))"
proof (cases "ps_definitions src")
  case None
  with assms policy_from_mono[OF assms(1), of "insert w ws"] show ?thesis by (auto simp: relabels_def)
next
  case (Some definitions)
  let ?g = "generation_at src w"
  note eq = relabels_cases[OF Some generation_at_def[of src w], of decode kind p]
  have kept: "policy_from decode src (insert w ws) p" by (rule policy_from_mono[OF assms(1)]) blast
  show ?thesis
  proof (cases "policies.hit p ?g")
    case h: (Some t)
    from policies.holds_only_hit[OF kept[unfolded policy_from_def] h] obtain w0 defs where
      d: "w0 \<in> insert w ws" "generation_at src w0 = ?g" "declares decode src w0 defs" and t: "t = fill_table defs Map.empty"
      by blast
    from eq h assms(2) have "po = Some p" "r = (t kind = Some True)" by simp_all
    with d t kept fill_table_True[of defs kind] show ?thesis by blast
  next
    case None
    obtain a w1 where d: "definitions w = (a, w1)" by (metis surj_pair)
    show ?thesis
    proof (cases "\<exists>raw defs. a = Ok raw \<and> decode raw = Ok defs")
      case True
      then obtain raw defs where a: "a = Ok raw" "decode raw = Ok defs" by blast
      with Some d have says: "declares decode src w defs" by (auto simp: declares_def)
      from a eq None d assms(2) have "po = Some (put_policy ?g (fill_table defs Map.empty) p)"
        "r = (fill_table defs Map.empty kind = Some True)" by simp_all
      moreover have "policy_from decode src (insert w ws) (put_policy ?g (fill_table defs Map.empty) p)"
        unfolding policy_from_def by (rule policies.holds_only_put) (use says in blast)
      ultimately show ?thesis using says fill_table_True[of defs kind] by blast
    next
      case False
      with eq None d assms(2) have "po = Some p \<and> \<not> r" by (auto split: sum.splits)
      with kept show ?thesis by blast
    qed
  qed
qed

lemma asked_from:
  "policy_from decode src ws p \<Longrightarrow> policy_from decode src (ws \<union> snd ` set qs) (asked decode src qs p)"
proof (induction qs arbitrary: ws p)
  case Nil
  then show ?case by (simp add: asked_def)
next
  case (Cons q qs)
  obtain kind w where q: "q = (kind, w)" by (cases q)
  obtain r po w' where ask: "relabels decode src kind (Some p, w) = (r, (po, w'))" by (metis surj_pair)
  from relabels_from[OF Cons.prems ask] obtain p' where
    p': "po = Some p'" "policy_from decode src (insert w ws) p'" by blast
  from ask p'(1) have "asked decode src (q # qs) p = asked decode src qs p'" by (simp add: asked_def q)
  with Cons.IH[OF p'(2)] show ?case by (simp add: q)
qed

section \<open>Properties\<close>

text \<open>
  C38. A conversion is a label or a refusal. Whatever the policy was asked before, and whatever worlds it
  was asked in, what is converted keeps its content byte for byte and only takes the version of the
  target, never another kind. Between different versions that takes the word of this very workspace: a
  listing of its definitions, fetched for one of those questions or for this one while the generation of
  its API surface was what it is now, whose last definition of that very kind declares no conversion or
  the None strategy.
\<close>
theorem conversion_is_only_a_label:
  assumes "Convert decode src (UObj source) (UObj target) (Some (asked decode src qs emptyPolicy), w) =
    (Ok result, (po, w'))"
  shows "result = source\<lparr>ob_gvk := ob_gvk target\<rparr> \<and>
     gvk_Group (ob_gvk source) = gvk_Group (ob_gvk target) \<and>
     gvk_Kind (ob_gvk source) = gvk_Kind (ob_gvk target) \<and>
     (ob_gvk source \<noteq> ob_gvk target \<longrightarrow>
        (\<exists>w0\<in>insert w (snd ` set qs). \<exists>defs cs.
           generation_at src w0 = generation_at src w \<and> declares decode src w0 defs \<and>
           cs = definitions_of (GK (gvk_Group (ob_gvk source)) (gvk_Kind (ob_gvk source))) defs \<and> cs \<noteq> [] \<and>
           (crd_Conversion (last cs) = None \<or> crd_Conversion (last cs) = Some ''None'')))"
proof (cases "ob_gvk source = ob_gvk target")
  case True
  then show ?thesis using assms by (auto simp: Convert_def Let_def)
next
  case False
  let ?k = "GK (gvk_Group (ob_gvk source)) (gvk_Kind (ob_gvk source))" and ?p = "asked decode src qs emptyPolicy"
  obtain r po1 w1 where q: "relabels decode src ?k (Some ?p, w) = (r, (po1, w1))" by (metis surj_pair)
  with False assms have s: "r" "result = source\<lparr>ob_gvk := ob_gvk target\<rparr>"
    "gvk_Group (ob_gvk source) = gvk_Group (ob_gvk target)" "gvk_Kind (ob_gvk source) = gvk_Kind (ob_gvk target)"
    by (auto simp: Convert_def Let_def split: if_splits bool.splits)
  have "policy_from decode src ({} \<union> snd ` set qs) ?p" by (rule asked_from) (rule policy_from_empty)
  from relabels_from[OF this q] s(1) obtain w0 defs where
    "w0 \<in> insert w (snd ` set qs)" "generation_at src w0 = generation_at src w" "declares decode src w0 defs"
    "definitions_of ?k defs \<noteq> []" "relabelable (last (definitions_of ?k defs))" by auto
  with s show ?thesis by (auto simp: relabelable_def NoneConverter_def)
qed

definition sample_crd :: "string option \<Rightarrow> crd" where
  "sample_crd strategy = \<lparr>crd_Name = ''widgets.a.b.c'', crd_Group = ''a.b.c'', crd_Kind = ''Widget'',
     crd_Versions = [], crd_Conversion = strategy\<rparr>"

definition sample_widget :: "string \<Rightarrow> k8s_object" where
  "sample_widget v = \<lparr>ob_gvk = GVK ''a.b.c'' v ''Widget'', ob_name = ''w'', ob_resourceVersion = ''1'',
     ob_owners = [], ob_content = ''spec''\<rparr>"

text \<open>
  A workspace whose world is its generation and whether it can be reached: asked once while it answered,
  it is then believed without being asked while the generation stays the same.
\<close>

definition sample_source :: "(64 word \<times> bool, string) policy_source" where
  "sample_source = \<lparr>ps_definitions = Some (\<lambda>w. (if snd w then Ok [] else Err ''unreachable'', w)), ps_generation = Some fst\<rparr>"

theorem conversion_is_only_a_label_witness:
  "\<exists>po w'. Convert (\<lambda>_. Ok [sample_crd (Some ''None'')]) sample_source
       (UObj (sample_widget ''v1'')) (UObj (sample_widget ''v2''))
       (Some (asked (\<lambda>_. Ok [sample_crd (Some ''None'')]) sample_source
          [(GK ''a.b.c'' ''Widget'', (7, True))] emptyPolicy), (7, False)) =
     (Ok (sample_widget ''v2''), (po, w'))"
proof -
  let ?dec = "\<lambda>_::string. Ok [sample_crd (Some ''None'')] :: (string, crd list) result"
  let ?p = "asked ?dec sample_source [(GK ''a.b.c'' ''Widget'', (7, True))] emptyPolicy"
  obtain r po w' where out: "Convert ?dec sample_source (UObj (sample_widget ''v1'')) (UObj (sample_widget ''v2''))
      (Some ?p, (7, False)) = (r, (po, w'))" by (metis surj_pair)
  have "is_ok r"
    using out by (auto simp: Convert_def asked_def relabels_def emptyPolicy_def sample_source_def sample_crd_def
        sample_widget_def relabelable_def NoneConverter_def Let_def)
  then obtain result where r: "r = Ok result" by (auto simp: is_ok_iff)
  show ?thesis
    using conversion_is_only_a_label[OF out[unfolded r]] out r by (auto simp: sample_widget_def)
qed

end
