(* ===== verification/Admission.thy ===== *)
theory Admission
  imports Admission_Match Backend_Client Conversion
begin

text \<open>
  \<open>pkg/apiserver/admission.go\<close>: the workload cluster's admission chain over objects kcp stores. The
  chain itself is k8s.io/apiserver's: which interfaces it implements, what it handles, and what
  \<open>Admit\<close> and \<open>Validate\<close> answer over a world. \<open>Admit\<close> edits the object in place; it answers with
  what the attributes hold afterwards. The JSON codec is the parameters \<open>decode\<close> and \<open>encode\<close>.
\<close>

section \<open>Object machinery\<close>

definition unstructured_New :: "k8s_object \<Rightarrow> group_version_kind \<Rightarrow> k8s_object" where
  "unstructured_New blank kind = blank\<lparr>ob_gvk := kind\<rparr>"

datatype typer_error = MissingKind | MissingVersion

definition ObjectKinds :: "k8s_object \<Rightarrow> (typer_error, group_version_kind list \<times> bool) result" where
  "ObjectKinds ob =
     (if gvk_Kind (ob_gvk ob) = [] then Err MissingKind
      else if gvk_Version (ob_gvk ob) = [] then Err MissingVersion
      else Ok ([ob_gvk ob], False))"

definition Recognizes :: "group_version_kind \<Rightarrow> bool" where
  "Recognizes k = True"

definition noop_Default :: "k8s_object \<Rightarrow> k8s_object" where
  "noop_Default ob = ob"

text \<open>
  \<open>unstructuredInterfaces\<close>, what the chain is given to work on objects with. Its convertor asks the
  conversion policy, which the gate holds a pointer to: the policy lives in the world, with a way to read
  it and one to write it, and fetches definitions over it. The registry of equivalent resources is the
  library's, and empty.
\<close>

record 'w conversion_pointer =
  cr_decode :: "string \<Rightarrow> (string, crd list) result"
  cr_source :: "('w, backend_error) policy_source"
  cr_policy :: "'w \<Rightarrow> conversionPolicy"
  cr_put :: "conversionPolicy \<Rightarrow> 'w \<Rightarrow> 'w"

definition versionConvertor :: "'w conversion_pointer option \<Rightarrow> any_object \<Rightarrow> any_object \<Rightarrow> 'w \<Rightarrow>
    (convert_error, k8s_object) result \<times> 'w" where
  "versionConvertor policy inp out w =
     (case policy of
        None \<Rightarrow>
          (case Convert (\<lambda>_. Err []) (\<lparr>ps_definitions = None, ps_generation = None\<rparr> :: ('w, backend_error) policy_source)
                inp out (None, w) of
             (r, (_, w')) \<Rightarrow> (r, w'))
      | Some p \<Rightarrow>
          (case Convert (cr_decode p) (cr_source p) inp out (Some (cr_policy p w), w) of
             (r, (None, w')) \<Rightarrow> (r, w')
           | (r, (Some q, w')) \<Rightarrow> (r, cr_put p q w')))"

record 'w object_interfaces =
  oi_Creater :: "k8s_object \<Rightarrow> group_version_kind \<Rightarrow> k8s_object"
  oi_Typer :: "k8s_object \<Rightarrow> (typer_error, group_version_kind list \<times> bool) result"
  oi_Defaulter :: "k8s_object \<Rightarrow> k8s_object"
  oi_Convertor :: "any_object \<Rightarrow> any_object \<Rightarrow> 'w \<Rightarrow> (convert_error, k8s_object) result \<times> 'w"

definition unstructuredInterfaces :: "'w conversion_pointer option \<Rightarrow> 'w object_interfaces" where
  "unstructuredInterfaces policy =
     \<lparr>oi_Creater = unstructured_New, oi_Typer = ObjectKinds, oi_Defaulter = noop_Default,
      oi_Convertor = versionConvertor policy\<rparr>"

section \<open>The chain and the gate\<close>

record attributes =
  at_object :: "k8s_object option"
  at_oldObject :: "k8s_object option"
  at_kind :: group_version_kind
  at_Namespace :: string
  at_Name :: string
  at_resource :: group_version_resource
  at_Subresource :: string
  at_operation :: operation
  at_dryRun :: bool
  at_user :: user_info

datatype admission_error =
    NoCallerAtAdmission
  | UnknownKind string string string
  | ReencodingAdmitted string
  | ReplacedWith string
  | Denied string

text \<open>
  \<open>ch_Admit\<close> answers the chain's error, if any, and the object the attributes hold afterwards (none
  when they held none). An answer of another type than unstructured is \<open>OtherObject\<close>. Both halves are
  handed the gate's interfaces with every call, and may ask its convertor while they run.
\<close>

record 'w admission_chain =
  ch_mutates :: bool
  ch_validates :: bool
  ch_Handles :: "operation \<Rightarrow> bool"
  ch_Admit :: "'w object_interfaces \<Rightarrow> attributes \<Rightarrow> 'w \<Rightarrow> (string option \<times> any_object option) \<times> 'w"
  ch_Validate :: "'w object_interfaces \<Rightarrow> attributes \<Rightarrow> 'w \<Rightarrow> string option \<times> 'w"

record 'w patch_backend =
  pb_fetch :: "string \<Rightarrow> 'w \<Rightarrow> (backend_error, string) result \<times> 'w"
  pb_patchDryRun :: "string \<Rightarrow> query \<Rightarrow> string \<Rightarrow> string option \<Rightarrow> 'w \<Rightarrow> (backend_error, string) result \<times> 'w"

record 'w admissionGate =
  ag_admit :: "'w admission_chain option"
  ag_interfaces :: "'w object_interfaces"
  ag_backend :: "'w patch_backend option"
  ag_matcher :: "admissionMatcher option"

definition newAdmissionGate :: "'w admission_chain option \<Rightarrow> 'w patch_backend option \<Rightarrow> admissionMatcher option \<Rightarrow>
    'w conversion_pointer option \<Rightarrow> 'w admissionGate" where
  "newAdmissionGate admit backend matcher conversion =
     \<lparr>ag_admit = admit, ag_interfaces = unstructuredInterfaces conversion, ag_backend = backend, ag_matcher = matcher\<rparr>"

text \<open>The backend client as the gate's side channel.\<close>

definition client_backend :: "(url \<Rightarrow> bool) \<Rightarrow> 'w transport \<Rightarrow> backendClient \<Rightarrow> 'w patch_backend" where
  "client_backend ok rt c = \<lparr>pb_fetch = fetch ok rt c, pb_patchDryRun = patchDryRun ok rt c\<rparr>"

section \<open>Reading the request\<close>

definition resourceFor :: "request_info \<Rightarrow> group_version_resource" where
  "resourceFor info = GVR (ri_APIGroup info) (ri_APIVersion info) (ri_Resource info)"

definition operationFor :: "string \<Rightarrow> operation option" where
  "operationFor verb =
     (if verb = ''create'' then Some Create
      else if verb = ''update'' then Some Update
      else if verb = ''delete'' then Some Delete
      else None)"

definition isDryRun :: "http_request \<Rightarrow> bool" where
  "isDryRun req =
     (case url_query (rq_url req) ''dryRun'' of None \<Rightarrow> False | Some values \<Rightarrow> ''All'' \<in> set values)"

definition kindFor :: "k8s_object option \<Rightarrow> k8s_object option \<Rightarrow> request_info \<Rightarrow>
    (admission_error, group_version_kind) result" where
  "kindFor subject old info =
     (case subject of
        Some s \<Rightarrow>
          if gvk_Kind (ob_gvk s) \<noteq> [] then Ok (ob_gvk s)
          else (case old of
                  Some ob \<Rightarrow> if gvk_Kind (ob_gvk ob) \<noteq> [] then Ok (ob_gvk ob)
                             else Err (UnknownKind (ri_APIGroup info) (ri_APIVersion info) (ri_Resource info))
                | None \<Rightarrow> Err (UnknownKind (ri_APIGroup info) (ri_APIVersion info) (ri_Resource info)))
      | None \<Rightarrow>
          (case old of
             Some ob \<Rightarrow> if gvk_Kind (ob_gvk ob) \<noteq> [] then Ok (ob_gvk ob)
                        else Err (UnknownKind (ri_APIGroup info) (ri_APIVersion info) (ri_Resource info))
           | None \<Rightarrow> Err (UnknownKind (ri_APIGroup info) (ri_APIVersion info) (ri_Resource info))))"

definition handlesAnything :: "'w admission_chain \<Rightarrow> bool" where
  "handlesAnything chain =
     (if ch_mutates chain \<and> ch_Handles chain Update then True
      else ch_validates chain \<and> ch_Handles chain Update)"

text \<open>\<open>oldObject\<close>; every failure is an absent object, never an error.\<close>

definition oldObject :: "(string \<Rightarrow> k8s_object option) \<Rightarrow> 'w patch_backend option \<Rightarrow> http_request \<Rightarrow>
    operation \<Rightarrow> 'w \<Rightarrow> k8s_object option \<times> 'w" where
  "oldObject decode backend req op w =
     (if op = Create then (None, w)
      else (case backend of None \<Rightarrow> (None, w)
            | Some b \<Rightarrow>
                (case pb_fetch b (url_path (rq_url req)) w of
                   (Err _, w') \<Rightarrow> (None, w')
                 | (Ok body, w') \<Rightarrow> (decode body, w'))))"

section \<open>Running the chain\<close>

text \<open>
  Mutation then validation, each when the chain implements it and handles the operation; validation
  sees what mutation left. The object the attributes hold at the end.
\<close>

definition after_mutation :: "attributes \<Rightarrow> any_object option \<Rightarrow> attributes" where
  "after_mutation attrs left =
     (case left of Some (UObj ob) \<Rightarrow> attrs\<lparr>at_object := Some ob\<rparr> | _ \<Rightarrow> attrs)"

definition run_chain :: "'w object_interfaces \<Rightarrow> 'w admission_chain \<Rightarrow> operation \<Rightarrow> attributes \<Rightarrow> 'w \<Rightarrow>
    (admission_error, any_object option) result \<times> 'w" where
  "run_chain interfaces chain op attrs w =
     (case (if ch_mutates chain \<and> ch_Handles chain op then ch_Admit chain interfaces attrs w
            else ((None, map_option UObj (at_object attrs)), w)) of
        ((Some e, _), w') \<Rightarrow> (Err (Denied e), w')
      | ((None, left), w') \<Rightarrow>
          (if ch_validates chain \<and> ch_Handles chain op
           then (case ch_Validate chain interfaces (after_mutation attrs left) w' of
                   (Some e, w'') \<Rightarrow> (Err (Denied e), w'')
                 | (None, w'') \<Rightarrow> (Ok left, w''))
           else (Ok left, w')))"

definition attributes_for :: "http_request \<Rightarrow> request_info \<Rightarrow> user_info \<Rightarrow> k8s_object option \<Rightarrow>
    k8s_object option \<Rightarrow> group_version_kind \<Rightarrow> string \<Rightarrow> operation \<Rightarrow> attributes" where
  "attributes_for req info caller subject old kind name op =
     \<lparr>at_object = subject, at_oldObject = old, at_kind = kind, at_Namespace = ri_Namespace info,
      at_Name = name, at_resource = GVR (ri_APIGroup info) (ri_APIVersion info) (ri_Resource info),
      at_Subresource = ri_Subresource info, at_operation = op, at_dryRun = isDryRun req, at_user = caller\<rparr>"

text \<open>The name admission is told: the one in the path, else the object's own.\<close>

definition admitted_name :: "request_info \<Rightarrow> k8s_object option \<Rightarrow> string" where
  "admitted_name info subject =
     (if ri_Name info = [] then (case subject of None \<Rightarrow> [] | Some s \<Rightarrow> ob_name s) else ri_Name info)"

text \<open>\<open>run\<close>: no object means the body is left as it is.\<close>

definition run_admission :: "(string \<Rightarrow> k8s_object option) \<Rightarrow> 'w admissionGate option \<Rightarrow> http_request \<Rightarrow>
    k8s_object option \<Rightarrow> 'w \<Rightarrow> (admission_error, k8s_object option) result \<times> 'w" where
  "run_admission decode gate req obj w =
     (case gate of None \<Rightarrow> (Ok None, w) | Some g \<Rightarrow>
     (case ag_admit g of None \<Rightarrow> (Ok None, w) | Some chain \<Rightarrow>
     (case rq_info req of None \<Rightarrow> (Ok None, w) | Some info \<Rightarrow>
      if \<not> ri_IsResourceRequest info then (Ok None, w) else
     (case operationFor (ri_Verb info) of None \<Rightarrow> (Ok None, w) | Some op \<Rightarrow>
     (case rq_user req of None \<Rightarrow> (Err NoCallerAtAdmission, w) | Some caller \<Rightarrow>
      let watched = matcher_matches (ag_matcher g) (resourceFor info) op in
      if op = Delete \<and> \<not> watched then (Ok None, w) else
     (case (if watched then oldObject decode (ag_backend g) req op w else (None, w)) of (old, w1) \<Rightarrow>
      let subject = (if op = Delete then None else obj) in
     (case kindFor subject old info of Err e \<Rightarrow> (Err e, w1) | Ok kind \<Rightarrow>
      let attrs = attributes_for req info caller subject old kind (admitted_name info subject) op in
     (case run_chain (ag_interfaces g) chain op attrs w1 of
        (Err e, w2) \<Rightarrow> (Err e, w2)
      | (Ok left, w2) \<Rightarrow>
         (case subject of None \<Rightarrow> (Ok None, w2)
          | Some _ \<Rightarrow>
             (case left of
                Some (UObj ob) \<Rightarrow> (Ok (Some ob), w2)
              | Some (OtherObject t) \<Rightarrow> (Err (ReplacedWith t), w2)
              | None \<Rightarrow> (Err (ReplacedWith ''<nil>''), w2)))))))))))"

text \<open>
  \<open>runPatch\<close>: no decision, or one that may carry the object to write instead of the patch. The
  object compared and written is the resolved one, which the chain edits in place.
\<close>

record patchDecision =
  pd_replacement :: "string option"

definition run_patch :: "(string \<Rightarrow> k8s_object option) \<Rightarrow> (k8s_object \<Rightarrow> (string, string) result) \<Rightarrow>
    'w admissionGate option \<Rightarrow> http_request \<Rightarrow> string option \<Rightarrow> 'w \<Rightarrow>
    (admission_error, patchDecision option) result \<times> 'w" where
  "run_patch decode encode gate req patch w =
     (case gate of None \<Rightarrow> (Ok None, w) | Some g \<Rightarrow>
     (case ag_admit g of None \<Rightarrow> (Ok None, w) | Some chain \<Rightarrow>
     (case ag_backend g of None \<Rightarrow> (Ok None, w) | Some backend \<Rightarrow>
     (case rq_info req of None \<Rightarrow> (Ok None, w) | Some info \<Rightarrow>
      if \<not> ri_IsResourceRequest info \<or> ri_Verb info \<noteq> ''patch'' then (Ok None, w)
      else if \<not> matcher_matches (ag_matcher g) (resourceFor info) Update then (Ok None, w)
      else if \<not> handlesAnything chain then (Ok None, w) else
     (case rq_user req of None \<Rightarrow> (Err NoCallerAtAdmission, w) | Some caller \<Rightarrow>
     (case oldObject decode (Some backend) req Update w of (old, w1) \<Rightarrow>
     (case pb_patchDryRun backend (url_path (rq_url req)) (url_query (rq_url req)) (rq_contentType req) patch w1 of
        (Err _, w2) \<Rightarrow> (Ok None, w2)
      | (Ok resolvedBody, w2) \<Rightarrow>
         (case decode resolvedBody of None \<Rightarrow> (Ok None, w2) | Some before \<Rightarrow>
          let op = (if old = None then Create else Update);
              attrs = attributes_for req info caller (Some before) old (ob_gvk before) (ri_Name info) op in
         (case run_chain (ag_interfaces g) chain op attrs w2 of
            (Err e, w3) \<Rightarrow> (Err e, w3)
          | (Ok left, w3) \<Rightarrow>
              let resolved = (case left of Some (UObj ob) \<Rightarrow> ob | _ \<Rightarrow> before) in
              if resolved = before then (Ok (Some \<lparr>pd_replacement = None\<rparr>), w3)
              else
                let guarded = (case old of None \<Rightarrow> resolved
                               | Some ob \<Rightarrow> resolved\<lparr>ob_resourceVersion := ob_resourceVersion ob\<rparr>) in
                (case encode guarded of
                   Err e \<Rightarrow> (Err (ReencodingAdmitted e), w3)
                 | Ok replacement \<Rightarrow> (Ok (Some \<lparr>pd_replacement = Some replacement\<rparr>), w3)))))))))))"

section \<open>What an admitted write went through\<close>

text \<open>The chain let the attributes pass: each half it has, and handles the operation with, said yes.\<close>

definition approves :: "'w object_interfaces \<Rightarrow> 'w admission_chain \<Rightarrow> operation \<Rightarrow> attributes \<Rightarrow> any_object option \<Rightarrow> 'w \<Rightarrow> 'w \<Rightarrow> bool" where
  "approves interfaces chain op attrs left w w' \<longleftrightarrow>
     (\<exists>w1. (if ch_mutates chain \<and> ch_Handles chain op then ch_Admit chain interfaces attrs w = ((None, left), w1)
            else left = map_option UObj (at_object attrs) \<and> w1 = w) \<and>
           (if ch_validates chain \<and> ch_Handles chain op
            then ch_Validate chain interfaces (after_mutation attrs left) w1 = (None, w') else w' = w1))"

lemma run_chain_ok: "run_chain i chain op attrs w = (Ok left, w') \<longleftrightarrow> approves i chain op attrs left w w'"
  by (auto simp: run_chain_def approves_def split: prod.splits option.splits)

lemma oldObject_log:
  assumes "logs_requests rt log"
  shows "\<exists>rs. log (snd (oldObject decode (Some (client_backend ok rt c)) req op w)) = log w @ rs \<and>
     length rs \<le> 1 \<and> (\<forall>r\<in>set rs. rq_method r = GET)"
proof -
  let ?path = "url_path (rq_url req)"
  have "log (snd (fetch ok rt c ?path w)) = log w @ (if ok (side_target c ?path None)
      then [side_request c GET ?path None [] None ''spillway'' ''read''] else [])"
    by (simp add: fetch_def client_do_log[OF assms])
  moreover have "snd (oldObject decode (Some (client_backend ok rt c)) req op w) =
      (if op = Create then w else snd (fetch ok rt c ?path w))"
    by (simp add: oldObject_def client_backend_def case_prod_beta split: sum.splits)
  ultimately show ?thesis by simp
qed

lemma dry_run_log:
  assumes "logs_requests rt log"
  shows "\<exists>rs. log (snd (patchDryRun ok rt c path caller ct patch w)) = log w @ rs \<and>
     length rs \<le> 1 \<and> (\<forall>r\<in>set rs. rq_method r = PATCH \<and> url_query (rq_url r) ''dryRun'' = Some [''All''])"
  by (simp add: patchDryRun_def client_do_log[OF assms] side_target_def dry_run_query_def)

text \<open>
  The requests a piece of code sends: \<open>sends P log w w'\<close> says that between \<open>w\<close> and \<open>w'\<close> only
  requests of kind \<open>P\<close> were sent.
\<close>

definition sends :: "(http_request \<Rightarrow> bool) \<Rightarrow> ('w \<Rightarrow> http_request list) \<Rightarrow> 'w \<Rightarrow> 'w \<Rightarrow> bool" where
  "sends P log w w' \<longleftrightarrow> (\<exists>rs. log w' = log w @ rs \<and> list_all P rs)"

lemma sends_none: "log w' = log w \<Longrightarrow> sends P log w w'"
  by (auto simp: sends_def)

lemma sends_trans: "sends P log w w1 \<Longrightarrow> sends P log w1 w2 \<Longrightarrow> sends P log w w2"
  by (auto simp: sends_def)

text \<open>
  A chain that does not use the workspace's transport itself: all it sends is what the convertor it was
  handed sends.
\<close>

definition asks_only_the_convertor :: "'w admission_chain \<Rightarrow> ('w \<Rightarrow> http_request list) \<Rightarrow> bool" where
  "asks_only_the_convertor chain log \<longleftrightarrow>
     (\<forall>i P. (\<forall>inp out w. sends P log w (snd (oi_Convertor i inp out w))) \<longrightarrow>
        (\<forall>attrs w. sends P log w (snd (ch_Admit chain i attrs w)) \<and> sends P log w (snd (ch_Validate chain i attrs w))))"

lemma run_chain_sends:
  assumes "asks_only_the_convertor chain log" and "\<And>inp out w. sends P log w (snd (oi_Convertor i inp out w))"
  shows "sends P log w (snd (run_chain i chain op attrs w))"
proof -
  have a: "sends P log w1 w2" if "ch_Admit chain i x w1 = (r, w2)" for x w1 r w2
    using assms that unfolding asks_only_the_convertor_def by (metis snd_conv)
  have v: "sends P log w1 w2" if "ch_Validate chain i x w1 = (r, w2)" for x w1 r w2
    using assms that unfolding asks_only_the_convertor_def by (metis snd_conv)
  show ?thesis
    by (auto simp: run_chain_def sends_none split: prod.splits option.splits dest!: a v intro: sends_trans)
qed

text \<open>The convertor of a workspace reads its definitions, and that is all it sends.\<close>

definition definitions_read :: "backendClient \<Rightarrow> http_request \<Rightarrow> bool" where
  "definitions_read c r \<longleftrightarrow> rq_method r = GET \<and> rq_url r = side_target c crdPath None"

lemma relabels_sends:
  assumes "logs_requests rt log" and "ps_definitions src = Some (fetchSpec ok rt c crdPath)"
    and "relabels decode src kind (Some p, w) = (r, (po, w'))"
  shows "sends (definitions_read c) log w w'"
proof -
  have "log (snd (fetchSpec ok rt c crdPath w)) = log w @ (if ok (side_target c crdPath None)
      then [side_request c GET crdPath None [] None ''openapi'' ''get''] else [])"
    by (simp add: fetchSpec_def client_do_log[OF assms(1)])
  then have "sends (definitions_read c) log w (snd (fetchSpec ok rt c crdPath w))"
    by (simp add: sends_def definitions_read_def side_request_def)
  moreover have "w' = w \<or> w' = snd (fetchSpec ok rt c crdPath w)"
    using assms(3) unfolding relabels_def option.case prod.case assms(2) Let_def
    by (auto split: if_splits prod.splits sum.splits)
  ultimately show ?thesis by (auto simp: sends_none)
qed

lemma convertor_sends:
  assumes "logs_requests rt log" and "ps_definitions (cr_source p) = Some (fetchSpec ok rt c crdPath)"
    and "\<And>q w. log (cr_put p q w) = log w"
  shows "sends (definitions_read c) log w (snd (oi_Convertor (unstructuredInterfaces (Some p)) inp out w))"
proof -
  obtain r po w' where conv: "Convert (cr_decode p) (cr_source p) inp out (Some (cr_policy p w), w) = (r, (po, w'))"
    by (metis surj_pair)
  have "w' = w \<or> (\<exists>kind b po1. relabels (cr_decode p) (cr_source p) kind (Some (cr_policy p w), w) = (b, (po1, w')))"
    using conv unfolding Convert_def Let_def
    by (auto split: any_object.splits if_splits prod.splits bool.splits)
  then have "sends (definitions_read c) log w w'"
    using relabels_sends[OF assms(1,2)] by (auto simp: sends_none)
  with assms(3) show ?thesis
    by (simp add: unstructuredInterfaces_def versionConvertor_def conv sends_def split: option.splits)
qed

text \<open>Where a run of the gate goes, branch by branch: it is skipped, refused on the way, or run.\<close>

lemma run_admission_ok:
  assumes "run_admission decode (Some g) req obj w = (Ok out, w')" and "ag_admit g = Some chain"
    and "rq_info req = Some info" and "ri_IsResourceRequest info"
    and "operationFor (ri_Verb info) = Some op"
    and "op \<noteq> Delete \<or> matcher_matches (ag_matcher g) (resourceFor info) op"
  shows "\<exists>caller old w1 kind left.
     rq_user req = Some caller \<and>
     (old, w1) = (if matcher_matches (ag_matcher g) (resourceFor info) op
                  then oldObject decode (ag_backend g) req op w else (None, w)) \<and>
     kindFor (if op = Delete then None else obj) old info = Ok kind \<and>
     approves (ag_interfaces g) chain op (attributes_for req info caller (if op = Delete then None else obj) old kind
        (admitted_name info (if op = Delete then None else obj)) op) left w1 w' \<and>
     (if op = Delete \<or> obj = None then out = None else \<exists>ob. left = Some (UObj ob) \<and> out = Some ob)"
proof -
  let ?watched = "matcher_matches (ag_matcher g) (resourceFor info) op"
  let ?subject = "if op = Delete then None else obj"
  obtain caller where u: "rq_user req = Some caller"
    using assms by (cases "rq_user req") (simp_all add: run_admission_def)
  obtain old w1 where o: "(if ?watched then oldObject decode (ag_backend g) req op w else (None, w)) = (old, w1)"
    by (metis surj_pair)
  have no_skip: "\<not> (op = Delete \<and> \<not> ?watched)" using assms(6) by blast
  obtain kind where k: "kindFor ?subject old info = Ok kind"
    using assms(1-5) u o no_skip
    by (cases "kindFor ?subject old info") (simp_all add: run_admission_def Let_def)
  let ?attrs = "attributes_for req info caller ?subject old kind (admitted_name info ?subject) op"
  have eq: "run_admission decode (Some g) req obj w =
      (case run_chain (ag_interfaces g) chain op ?attrs w1 of
        (Err e, w2) \<Rightarrow> (Err e, w2)
      | (Ok left, w2) \<Rightarrow>
         (case ?subject of None \<Rightarrow> (Ok None, w2)
          | Some _ \<Rightarrow>
             (case left of
                Some (UObj ob) \<Rightarrow> (Ok (Some ob), w2)
              | Some (OtherObject t) \<Rightarrow> (Err (ReplacedWith t), w2)
              | None \<Rightarrow> (Err (ReplacedWith ''<nil>''), w2))))"
    unfolding run_admission_def option.case assms(2-5) u Let_def o prod.case k sum.case
    using assms(4) no_skip by simp
  obtain r w2 where r: "run_chain (ag_interfaces g) chain op ?attrs w1 = (r, w2)" by (metis surj_pair)
  with eq assms(1) obtain left where left: "r = Ok left" by (cases r) simp_all
  have out: "w2 = w' \<and> (if ?subject = None then out = None else \<exists>ob. left = Some (UObj ob) \<and> out = Some ob)"
    using eq r left assms(1) by (auto split: option.splits any_object.splits)
  have "approves (ag_interfaces g) chain op ?attrs left w1 w'" using r left out by (simp flip: run_chain_ok)
  with u o k out show ?thesis by (intro exI conjI) (auto split: if_splits)
qed

lemma run_admission_world:
  assumes "ag_admit g = Some chain"
  shows "snd (run_admission decode (Some g) req obj w) = w \<or>
     (\<exists>op attrs w1. (w1 = w \<or> w1 = snd (oldObject decode (ag_backend g) req op w)) \<and>
        (snd (run_admission decode (Some g) req obj w) = w1 \<or>
         snd (run_admission decode (Some g) req obj w) = snd (run_chain (ag_interfaces g) chain op attrs w1)))"
proof -
  have chain_world: "snd (case p of (Err e, w2) \<Rightarrow> (Err e, w2)
      | (Ok left, w2) \<Rightarrow> (case subject of None \<Rightarrow> (Ok None, w2)
          | Some _ \<Rightarrow> (case left of Some (UObj ob) \<Rightarrow> (Ok (Some ob), w2)
              | Some (OtherObject t) \<Rightarrow> (Err (ReplacedWith t), w2)
              | None \<Rightarrow> (Err (ReplacedWith ''<nil>''), w2)))) = snd p"
    for p :: "(admission_error, any_object option) result \<times> 'a" and subject :: "k8s_object option"
    by (auto split: prod.splits sum.splits option.splits any_object.splits)
  show ?thesis
  proof (cases "\<exists>info op caller. rq_info req = Some info \<and> ri_IsResourceRequest info \<and>
      operationFor (ri_Verb info) = Some op \<and> rq_user req = Some caller")
    case False
    then have "snd (run_admission decode (Some g) req obj w) = w"
      by (auto simp: run_admission_def assms split: option.splits)
    then show ?thesis by simp
  next
    case True
    then obtain info op caller where i: "rq_info req = Some info" "ri_IsResourceRequest info"
      "operationFor (ri_Verb info) = Some op" "rq_user req = Some caller" by blast
    let ?watched = "matcher_matches (ag_matcher g) (resourceFor info) op"
    obtain old w1 where o: "(if ?watched then oldObject decode (ag_backend g) req op w else (None, w)) = (old, w1)"
      by (metis surj_pair)
    have w1: "w1 = w \<or> w1 = snd (oldObject decode (ag_backend g) req op w)"
      using o by (auto split: if_splits)
    have "snd (run_admission decode (Some g) req obj w) = w \<or>
      snd (run_admission decode (Some g) req obj w) = w1 \<or>
      (\<exists>attrs. snd (run_admission decode (Some g) req obj w) = snd (run_chain (ag_interfaces g) chain op attrs w1))"
      unfolding run_admission_def option.case assms i Let_def o prod.case
      using i(2) by (auto simp: chain_world split: sum.splits)
    with w1 show ?thesis by blast
  qed
qed

text \<open>
  A patch, likewise: it is skipped without a request, refused for want of a caller, or the workspace
  is asked what it would make, twice, before the chain runs.
\<close>

lemma run_patch_cases:
  assumes "ag_admit g = Some chain" and "ag_backend g = Some backend"
    and "oldObject decode (Some backend) req Update w = (old, w1)"
    and "pb_patchDryRun backend (url_path (rq_url req)) (url_query (rq_url req)) (rq_contentType req) patch w1 = (resolved, w2)"
  shows "(\<exists>r. run_patch decode encode (Some g) req patch w = (r, w) \<and> (r = Ok None \<or> r = Err NoCallerAtAdmission)) \<or>
     run_patch decode encode (Some g) req patch w = (Ok None, w2) \<or>
     (\<exists>info caller body before attrs rc w3.
        rq_info req = Some info \<and> rq_user req = Some caller \<and> resolved = Ok body \<and> decode body = Some before \<and>
        attrs = attributes_for req info caller (Some before) old (ob_gvk before) (ri_Name info)
                  (if old = None then Create else Update) \<and>
        run_chain (ag_interfaces g) chain (if old = None then Create else Update) attrs w2 = (rc, w3) \<and>
        run_patch decode encode (Some g) req patch w =
          (case rc of Err e \<Rightarrow> (Err e, w3)
           | Ok left \<Rightarrow>
              let after = (case left of Some (UObj ob) \<Rightarrow> ob | _ \<Rightarrow> before) in
              if after = before then (Ok (Some \<lparr>pd_replacement = None\<rparr>), w3)
              else (case encode (case old of None \<Rightarrow> after
                               | Some ob \<Rightarrow> after\<lparr>ob_resourceVersion := ob_resourceVersion ob\<rparr>) of
                      Err e \<Rightarrow> (Err (ReencodingAdmitted e), w3)
                    | Ok replacement \<Rightarrow> (Ok (Some \<lparr>pd_replacement = Some replacement\<rparr>), w3))))"
proof (cases "\<exists>info caller. rq_info req = Some info \<and> ri_IsResourceRequest info \<and> ri_Verb info = ''patch'' \<and>
      matcher_matches (ag_matcher g) (resourceFor info) Update \<and> handlesAnything chain \<and> rq_user req = Some caller")
  case False
  then have "\<exists>r. run_patch decode encode (Some g) req patch w = (r, w) \<and> (r = Ok None \<or> r = Err NoCallerAtAdmission)"
    by (auto simp: run_patch_def assms(1,2) split: option.splits)
  then show ?thesis by blast
next
  case True
  then obtain info caller where i: "rq_info req = Some info" "rq_user req = Some caller"
    and c: "ri_IsResourceRequest info" "ri_Verb info = ''patch''"
      "matcher_matches (ag_matcher g) (resourceFor info) Update" "handlesAnything chain" by blast
  show ?thesis
  proof (cases "\<exists>body before. resolved = Ok body \<and> decode body = Some before")
    case False
    then have "run_patch decode encode (Some g) req patch w = (Ok None, w2)"
      by (cases resolved) (auto simp: run_patch_def assms i c split: option.splits)
    then show ?thesis by blast
  next
    case True
    then obtain body before where b: "resolved = Ok body" "decode body = Some before" by blast
    let ?op = "if old = None then Create else Update"
    let ?attrs = "attributes_for req info caller (Some before) old (ob_gvk before) (ri_Name info) ?op"
    obtain rc w3 where rc: "run_chain (ag_interfaces g) chain ?op ?attrs w2 = (rc, w3)" by (metis surj_pair)
    have "run_patch decode encode (Some g) req patch w =
          (case rc of Err e \<Rightarrow> (Err e, w3)
           | Ok left \<Rightarrow>
              let after = (case left of Some (UObj ob) \<Rightarrow> ob | _ \<Rightarrow> before) in
              if after = before then (Ok (Some \<lparr>pd_replacement = None\<rparr>), w3)
              else (case encode (case old of None \<Rightarrow> after
                               | Some ob \<Rightarrow> after\<lparr>ob_resourceVersion := ob_resourceVersion ob\<rparr>) of
                      Err e \<Rightarrow> (Err (ReencodingAdmitted e), w3)
                    | Ok replacement \<Rightarrow> (Ok (Some \<lparr>pd_replacement = Some replacement\<rparr>), w3)))"
      unfolding run_patch_def option.case assms i c(2) b Let_def prod.case sum.case rc
      using c by simp
    with i b rc show ?thesis by blast
  qed
qed

lemma run_patch_world:
  assumes "ag_admit g = Some chain" and "ag_backend g = Some backend"
    and "oldObject decode (Some backend) req Update w = (old, w1)"
    and "pb_patchDryRun backend (url_path (rq_url req)) (url_query (rq_url req)) (rq_contentType req) patch w1 = (resolved, w2)"
  shows "snd (run_patch decode encode (Some g) req patch w) = w \<or>
     snd (run_patch decode encode (Some g) req patch w) = w2 \<or>
     (\<exists>op attrs. snd (run_patch decode encode (Some g) req patch w) = snd (run_chain (ag_interfaces g) chain op attrs w2))"
  using run_patch_cases[OF assms, of encode]
proof (elim disjE exE conjE)
  fix attrs rc w3
  assume "run_chain (ag_interfaces g) chain (if old = None then Create else Update) attrs w2 = (rc, w3)"
  then have w3: "w3 = snd (run_chain (ag_interfaces g) chain (if old = None then Create else Update) attrs w2)" by simp
  fix before
  assume "run_patch decode encode (Some g) req patch w =
          (case rc of Err e \<Rightarrow> (Err e, w3)
           | Ok left \<Rightarrow>
              let after = (case left of Some (UObj ob) \<Rightarrow> ob | _ \<Rightarrow> before) in
              if after = before then (Ok (Some \<lparr>pd_replacement = None\<rparr>), w3)
              else (case encode (case old of None \<Rightarrow> after
                               | Some ob \<Rightarrow> after\<lparr>ob_resourceVersion := ob_resourceVersion ob\<rparr>) of
                      Err e \<Rightarrow> (Err (ReencodingAdmitted e), w3)
                    | Ok replacement \<Rightarrow> (Ok (Some \<lparr>pd_replacement = Some replacement\<rparr>), w3)))"
  then have "snd (run_patch decode encode (Some g) req patch w) = w3"
    by (cases rc) (simp_all add: Let_def split: sum.split)
  with w3 show ?thesis by blast
qed auto

section \<open>Properties\<close>


text \<open>
  C16. A patch is forwarded as it came or replaced by exactly what was admitted: when the gate
  decides about a patch, the chain approved the object kcp said the patch would make, as a create
  when kcp holds none and as an update of what it holds otherwise; the patch is kept exactly when
  the chain left that object alone, and otherwise replaced by the object the chain left, carrying
  the resourceVersion of the object it was derived from, so that a concurrent write conflicts.
\<close>
theorem patch_decision_sound:
  assumes "run_patch decode encode (Some g) req patch w = (Ok (Some d), w')"
    and "ag_admit g = Some chain" and "ag_backend g = Some backend"
    and "oldObject decode (Some backend) req Update w = (old, w1)"
    and "pb_patchDryRun backend (url_path (rq_url req)) (url_query (rq_url req)) (rq_contentType req) patch w1 = (resolved, w2)"
  shows "\<exists>body before attrs left.
     resolved = Ok body \<and> decode body = Some before \<and>
     approves (ag_interfaces g) chain (if old = None then Create else Update) attrs left w2 w' \<and>
     at_object attrs = Some before \<and> at_oldObject attrs = old \<and> rq_user req = Some (at_user attrs) \<and>
     (let after = (case left of Some (UObj ob) \<Rightarrow> ob | _ \<Rightarrow> before) in
      if after = before then pd_replacement d = None
      else \<exists>written replacement. encode written = Ok replacement \<and> pd_replacement d = Some replacement \<and>
             written = (case old of None \<Rightarrow> after
                        | Some ob \<Rightarrow> after\<lparr>ob_resourceVersion := ob_resourceVersion ob\<rparr>))"
proof -
  from run_patch_cases[OF assms(2-5), of encode] assms(1)
  obtain info caller body before attrs rc w3 where
    b: "rq_user req = Some caller" "resolved = Ok body" "decode body = Some before"
    and a: "attrs = attributes_for req info caller (Some before) old (ob_gvk before) (ri_Name info)
                  (if old = None then Create else Update)"
    and r: "run_chain (ag_interfaces g) chain (if old = None then Create else Update) attrs w2 = (rc, w3)"
    and out: "(Ok (Some d), w') =
          (case rc of Err e \<Rightarrow> (Err e, w3)
           | Ok left \<Rightarrow>
              let after = (case left of Some (UObj ob) \<Rightarrow> ob | _ \<Rightarrow> before) in
              if after = before then (Ok (Some \<lparr>pd_replacement = None\<rparr>), w3)
              else (case encode (case old of None \<Rightarrow> after
                               | Some ob \<Rightarrow> after\<lparr>ob_resourceVersion := ob_resourceVersion ob\<rparr>) of
                      Err e \<Rightarrow> (Err (ReencodingAdmitted e), w3)
                    | Ok replacement \<Rightarrow> (Ok (Some \<lparr>pd_replacement = Some replacement\<rparr>), w3)))"
    by fastforce
  from out obtain left where left: "rc = Ok left" by (cases rc) simp_all
  let ?after = "case left of Some (UObj ob) \<Rightarrow> ob | _ \<Rightarrow> before"
  have w3: "w3 = w'" and d: "if ?after = before then pd_replacement d = None
      else \<exists>written replacement. encode written = Ok replacement \<and> pd_replacement d = Some replacement \<and>
             written = (case old of None \<Rightarrow> ?after
                        | Some ob \<Rightarrow> ?after\<lparr>ob_resourceVersion := ob_resourceVersion ob\<rparr>)"
    using out left by (auto simp: Let_def split: if_splits sum.splits)
  have "approves (ag_interfaces g) chain (if old = None then Create else Update) attrs left w2 w'"
    using r left w3 by (simp flip: run_chain_ok)
  with a b d show ?thesis
    by (intro exI[of _ body] exI[of _ before] exI[of _ attrs] exI[of _ left])
       (simp add: attributes_for_def Let_def)
qed


text \<open>
  A world that is the log of requests and the conversion policy, and a chain that relabels what it admits
  and asks the convertor before it lets anything pass.
\<close>

type_synonym sample_world = "http_request list \<times> conversionPolicy"

definition sample_chain :: "sample_world admission_chain" where
  "sample_chain = \<lparr>ch_mutates = True, ch_validates = True, ch_Handles = (\<lambda>_. True),
     ch_Admit = (\<lambda>i attrs w. ((None, map_option (\<lambda>ob. UObj (ob\<lparr>ob_content := ''mutated''\<rparr>)) (at_object attrs)), w)),
     ch_Validate = (\<lambda>i attrs w. (None, snd (oi_Convertor i (UObj (sample_widget ''v1'')) (UObj (sample_widget ''v2'')) w)))\<rparr>"

definition log_transport :: "sample_world transport" where
  "log_transport w req = (Ok \<lparr>rs_status = 200, rs_body = ''{}'', rs_body_error = False\<rparr>, (fst w @ [req], snd w))"

definition sample_client :: backendClient where
  "sample_client = \<lparr>bc_location = \<lparr>url_base = ''https://kcp'', url_path = ''/clusters/a'', url_query = Map.empty\<rparr>\<rparr>"

definition sample_policy :: "sample_world conversion_pointer" where
  "sample_policy = \<lparr>cr_decode = (\<lambda>_. Ok []),
     cr_source = \<lparr>ps_definitions = Some (fetchSpec (\<lambda>_. True) log_transport sample_client crdPath), ps_generation = None\<rparr>,
     cr_policy = snd, cr_put = (\<lambda>p w. (fst w, p))\<rparr>"

definition sample_gate :: "sample_world admissionGate" where
  "sample_gate = newAdmissionGate (Some sample_chain) (Some (client_backend (\<lambda>_. True) log_transport sample_client))
     None (Some sample_policy)"

definition sample_user :: user_info where
  "sample_user = \<lparr>us_Name = ''jane'', us_UID = [], us_Groups = [], us_Extra = []\<rparr>"

definition resource_request :: "string \<Rightarrow> string \<Rightarrow> http_request" where
  "resource_request verb_http verb =
     \<lparr>rq_method = verb_http, rq_url = \<lparr>url_base = [], url_path = ''/apis/a.b.c/v1/widgets/w'', url_query = Map.empty\<rparr>,
      rq_contentType = ''application/json'', rq_accept = [], rq_authorization = Some ''Bearer t'',
      rq_body = Some ''{}'', rq_body_error = False,
      rq_info = Some \<lparr>ri_IsResourceRequest = True, ri_Verb = verb, ri_APIGroup = ''a.b.c'', ri_APIVersion = ''v1'',
        ri_Namespace = [], ri_Resource = ''widgets'', ri_Subresource = [], ri_Name = ''w''\<rparr>,
      rq_user = Some sample_user\<rparr>"

definition stored_widget :: "string \<Rightarrow> k8s_object option" where
  "stored_widget body = Some (sample_widget ''v1'')"

lemma sample_gate_chain: "ag_admit sample_gate = Some sample_chain"
  and sample_gate_backend: "ag_backend sample_gate = Some (client_backend (\<lambda>_. True) log_transport sample_client)"
  and sample_gate_matcher: "ag_matcher sample_gate = None"
  by (simp_all add: sample_gate_def newAdmissionGate_def)

lemma log_transport_logs: "logs_requests log_transport fst"
  by (simp add: logs_requests_def log_transport_def)

lemma sample_chain_asks: "asks_only_the_convertor sample_chain fst"
  by (simp add: asks_only_the_convertor_def sample_chain_def sends_none)


theorem patch_decision_sound_witness:
  "\<exists>d w'. run_patch stored_widget (\<lambda>ob. Ok (ob_content ob)) (Some sample_gate) (resource_request PATCH ''patch'') (Some ''{}'')
     ([], emptyPolicy) = (Ok (Some d), w') \<and> pd_replacement d = Some ''mutated''"
proof -
  let ?req = "resource_request PATCH ''patch''" and ?w = "([], emptyPolicy)"
  let ?b = "client_backend (\<lambda>_. True) log_transport sample_client"
  obtain old w1 where o: "oldObject stored_widget (Some ?b) ?req Update ?w = (old, w1)" by (metis surj_pair)
  obtain resolved w2 where p: "pb_patchDryRun ?b (url_path (rq_url ?req)) (url_query (rq_url ?req))
      (rq_contentType ?req) (Some ''{}'') w1 = (resolved, w2)" by (metis surj_pair)
  have old: "old = Some (sample_widget ''v1'')"
    using o by (auto simp: oldObject_def client_backend_def fetch_def client_do_def log_transport_def
        stored_widget_def Let_def)
  have res: "\<exists>body. resolved = Ok body"
    using p by (auto simp: client_backend_def patchDryRun_def client_do_def log_transport_def Let_def)
  obtain r w' where run: "run_patch stored_widget (\<lambda>ob. Ok (ob_content ob)) (Some sample_gate) ?req (Some ''{}'') ?w = (r, w')"
    by (metis surj_pair)
  have "\<exists>d. r = Ok (Some d)"
    using run res o p old
    by (auto simp: run_patch_def sample_gate_chain sample_gate_backend sample_gate_matcher resource_request_def
        matcher_matches_def handlesAnything_def sample_chain_def stored_widget_def run_chain_def
        attributes_for_def after_mutation_def sample_widget_def Let_def)
  then obtain d where r: "r = Ok (Some d)" by blast
  from patch_decision_sound[OF run[unfolded r] sample_gate_chain sample_gate_backend o p] old
  have "pd_replacement d = Some ''mutated''"
    by (auto simp: stored_widget_def approves_def sample_chain_def sample_widget_def Let_def)
  with run r show ?thesis by blast
qed


end
