(* ===== verification/Owner_Refs.thy ===== *)
theory Owner_Refs
  imports K8s Http
begin

text \<open>
  \<open>pkg/apiserver/ownerrefs.go\<close>: reading the body of a write before it is forwarded, and refusing
  an ownerReference that points out of the workspace. \<open>encoding/json\<close> into an unstructured object
  is the parameter \<open>decode\<close> and apimachinery's \<open>ParseGroupVersion\<close> the parameter \<open>parse_gv\<close>.
\<close>

definition maxWriteBytes :: nat where
  "maxWriteBytes = 3 * 2 ^ 20"

definition ownerReferencesField :: string where
  "ownerReferencesField = ''ownerReferences''"

datatype inspect_error = ReadingBody | BodyTooLarge

datatype owner_error =
    UnparseableOwner owner_reference string
  | CrossBoundaryOwner owner_reference string

definition crossBoundaryOwner :: "owner_reference \<Rightarrow> string \<Rightarrow> owner_error" where
  "crossBoundaryOwner owner g = CrossBoundaryOwner owner g"

definition decodesObject :: "string \<Rightarrow> bool" where
  "decodesObject verb \<longleftrightarrow> verb = POST \<or> verb = PUT"

text \<open>The content types whose bodies are read.\<close>

definition inspected_type :: "string \<Rightarrow> bool" where
  "inspected_type ct \<longleftrightarrow>
     \<not> (ct \<noteq> [] \<and> \<not> has_prefix ct ''application/json'' \<and> \<not> has_suffix ct ''+json'' \<and> \<not> has_suffix ct ''+yaml'')"

text \<open>The object, the body and the error, as \<open>inspectWrite\<close> returns them.\<close>

definition inspectWrite :: "(string \<Rightarrow> k8s_object option) \<Rightarrow> http_request \<Rightarrow>
    k8s_object option \<times> string option \<times> inspect_error option" where
  "inspectWrite decode req =
     (case rq_body req of
        None \<Rightarrow> (None, None, None)
      | Some sent \<Rightarrow>
          if \<not> inspected_type (rq_contentType req) then (None, None, None)
          else if rq_body_error req then (None, None, Some ReadingBody)
          else let body = take (maxWriteBytes + 1) sent in
            if length body > maxWriteBytes then (None, Some body, Some BodyTooLarge)
            else if \<not> decodesObject (rq_method req) \<and> \<not> str_contains body ownerReferencesField
            then (None, Some body, None)
            else (case decode body of None \<Rightarrow> (None, Some body, None) | Some ob \<Rightarrow> (Some ob, Some body, None)))"

definition restoreBody :: "http_request \<Rightarrow> string \<Rightarrow> http_request" where
  "restoreBody req body = req\<lparr>rq_body := Some body, rq_body_error := False\<rparr>"

fun check_owners :: "(string \<Rightarrow> (string, group_version) result) \<Rightarrow> string set \<Rightarrow> owner_reference list \<Rightarrow>
    owner_error option" where
  "check_owners parse_gv served [] = None"
| "check_owners parse_gv served (owner # owners) =
     (case parse_gv (or_APIVersion owner) of
        Err e \<Rightarrow> Some (UnparseableOwner owner e)
      | Ok gv \<Rightarrow>
          if gv_Group gv \<notin> served then Some (crossBoundaryOwner owner (gv_Group gv))
          else check_owners parse_gv served owners)"

definition checkOwnerReferences :: "(string \<Rightarrow> (string, group_version) result) \<Rightarrow> k8s_object option \<Rightarrow>
    string set \<Rightarrow> owner_error option" where
  "checkOwnerReferences parse_gv obj served =
     (case obj of None \<Rightarrow> None | Some ob \<Rightarrow> check_owners parse_gv served (ob_owners ob))"

section \<open>Facts\<close>

definition owner_inside :: "(string \<Rightarrow> (string, group_version) result) \<Rightarrow> string set \<Rightarrow> owner_reference \<Rightarrow> bool" where
  "owner_inside parse_gv served owner \<longleftrightarrow> (\<exists>gv. parse_gv (or_APIVersion owner) = Ok gv \<and> gv_Group gv \<in> served)"

lemma check_owners_None:
  "check_owners parse_gv served owners = None \<longleftrightarrow> (\<forall>owner\<in>set owners. owner_inside parse_gv served owner)"
  by (induction owners) (auto simp: owner_inside_def crossBoundaryOwner_def split: sum.splits)

lemma inspectWrite_body:
  "inspectWrite decode req = (ob, Some body, None) \<Longrightarrow> rq_body req = Some body"
  by (auto simp: inspectWrite_def Let_def split: option.splits if_splits)

lemma inspectWrite_decoded:
  "inspectWrite decode req = (Some ob, body, err) \<Longrightarrow>
   \<exists>b. rq_body req = Some b \<and> body = Some b \<and> err = None \<and> decode b = Some ob"
  by (auto simp: inspectWrite_def Let_def split: option.splits if_splits)

lemma inspectWrite_reads:
  assumes "inspectWrite decode req = (ob, body, None)" and "rq_body req = Some b"
    and "inspected_type (rq_contentType req)" and "decodesObject (rq_method req)"
  shows "ob = decode b \<and> body = Some b"
  using assms by (auto simp: inspectWrite_def Let_def split: option.splits if_splits)

section \<open>Properties\<close>

text \<open>
  C36. Inspecting a write loses nothing and lets no stray owner by: when a write is inspected and
  passes, what was read is the whole body, byte for byte, so forwarding it forwards what the client
  sent; and when the body of a create or an update decodes, every owner it names is one whose group
  the workspace serves.
\<close>
theorem inspection_keeps_the_body:
  assumes "inspectWrite decode req = (ob, body, None)"
    and "checkOwnerReferences parse_gv ob served = None"
  shows "(body = None \<longrightarrow> rq_body req = None \<or> \<not> inspected_type (rq_contentType req)) \<and>
     (\<forall>b. body = Some b \<longrightarrow> rq_body req = Some b \<and> length b \<le> maxWriteBytes \<and>
        (\<forall>decoded. decodesObject (rq_method req) \<and> decode b = Some decoded \<longrightarrow>
           (\<forall>owner\<in>set (ob_owners decoded). owner_inside parse_gv served owner)))"
proof (cases "rq_body req")
  case None
  with assms show ?thesis by (simp add: inspectWrite_def)
next
  case (Some b)
  with assms show ?thesis
    by (cases "decode b")
       (auto simp: Some inspectWrite_def Let_def checkOwnerReferences_def check_owners_None
          split: if_splits)
qed

definition sample_decode :: "string \<Rightarrow> k8s_object option" where
  "sample_decode b =
     (if b = ''{}'' then Some \<lparr>ob_gvk = GVK ''a.b.c'' ''v1'' ''Widget'', ob_name = ''w'', ob_resourceVersion = [],
        ob_owners = [\<lparr>or_APIVersion = ''a.b.c/v1'', or_Kind = ''Widget'', or_Name = ''p''\<rparr>], ob_content = b\<rparr>
      else None)"

definition sample_write :: "string \<Rightarrow> string \<Rightarrow> http_request" where
  "sample_write verb path =
     \<lparr>rq_method = verb, rq_url = \<lparr>url_base = [], url_path = path, url_query = Map.empty\<rparr>,
      rq_contentType = ''application/json'', rq_accept = [], rq_authorization = Some ''Bearer t'',
      rq_body = Some ''{}'', rq_body_error = False, rq_info = None, rq_user = None\<rparr>"

lemma maxWriteBytes_pos: "0 < maxWriteBytes" "2 \<le> maxWriteBytes"
  by (simp_all add: maxWriteBytes_def)

lemma sample_inspected:
  "inspectWrite sample_decode (sample_write POST path) = (sample_decode ''{}'', Some ''{}'', None)"
  using maxWriteBytes_pos
  by (simp add: inspectWrite_def sample_write_def inspected_type_def has_prefix_def decodesObject_def
      sample_decode_def Let_def)

theorem inspection_keeps_the_body_witness:
  "inspectWrite sample_decode (sample_write POST ''/x'') = (sample_decode ''{}'', Some ''{}'', None) \<and>
   owner_inside (\<lambda>_. Ok (GV ''a.b.c'' ''v1'')) {''a.b.c''}
     \<lparr>or_APIVersion = ''a.b.c/v1'', or_Kind = ''Widget'', or_Name = ''p''\<rparr>"
proof -
  have c: "checkOwnerReferences (\<lambda>_. Ok (GV ''a.b.c'' ''v1'')) (sample_decode ''{}'') {''a.b.c''} = None"
    by (simp add: checkOwnerReferences_def sample_decode_def)
  show ?thesis
    using inspection_keeps_the_body[OF sample_inspected c, of "''/x''"] sample_inspected
    by (simp add: sample_write_def decodesObject_def sample_decode_def)
qed

text \<open>
  What the check does not reach: a content type the proxy does not read is passed through
  unchecked, whatever its body says, \<open>application/yaml\<close> among them.
\<close>

lemma uninspected_is_unchecked:
  "rq_contentType req = ''application/yaml'' \<Longrightarrow>
   inspectWrite decode req = (None, None, None) \<and> checkOwnerReferences parse_gv None served = None"
  by (auto simp: inspectWrite_def inspected_type_def has_prefix_def has_suffix_def checkOwnerReferences_def
      split: option.splits)

end
