(* ===== verification/Namespace_Mirror.thy ===== *)
theory Namespace_Mirror
  imports Backend_Client
begin

text \<open>
  \<open>pkg/apiserver/namespaces.go\<close>: creating a namespace in the workspace the first time something is
  written into it. The side channel is the backend client's \<open>fetch\<close> and \<open>create\<close>; the JSON encoder
  is the parameter \<open>marshal\<close>, applied to the namespace object as a value of \<open>ns_object\<close>; the clock
  is a function of the world.
\<close>

section \<open>State and operations\<close>

record 'w namespace_backend =
  nb_fetch :: "string \<Rightarrow> 'w \<Rightarrow> (backend_error, string) result \<times> 'w"
  nb_create :: "string \<Rightarrow> string \<Rightarrow> 'w \<Rightarrow> (backend_error, string) result \<times> 'w"

record namespaceMirror =
  nm_ttl :: duration
  nm_known :: "string \<rightharpoonup> time"

record ns_object =
  no_apiVersion :: string
  no_kind :: string
  no_name :: string
  no_labels :: "(string \<times> string) list"

definition namespacePath :: string where
  "namespacePath = ''/api/v1/namespaces''"

definition namespaceTTL :: duration where
  "namespaceTTL = 10 * minute"

definition managedByLabel :: string where
  "managedByLabel = ''app.kubernetes.io/managed-by''"

definition managedByValue :: string where
  "managedByValue = ''spillway''"

definition newNamespaceMirror :: namespaceMirror where
  "newNamespaceMirror = \<lparr>nm_ttl = namespaceTTL, nm_known = Map.empty\<rparr>"

text \<open>\<open>fresh\<close> forgets an entry that has expired.\<close>

definition fresh :: "namespaceMirror \<Rightarrow> string \<Rightarrow> time \<Rightarrow> bool \<times> namespaceMirror" where
  "fresh m ns now =
     (case nm_known m ns of
        None \<Rightarrow> (False, m)
      | Some seen \<Rightarrow>
          if nm_ttl m \<le> now - seen then (False, m\<lparr>nm_known := (nm_known m)(ns := None)\<rparr>)
          else (True, m))"

definition remember :: "namespaceMirror \<Rightarrow> string \<Rightarrow> time \<Rightarrow> namespaceMirror" where
  "remember m ns now = m\<lparr>nm_known := (nm_known m)(ns \<mapsto> now)\<rparr>"

definition ns_body :: "string \<Rightarrow> ns_object" where
  "ns_body ns = \<lparr>no_apiVersion = ''v1'', no_kind = ''Namespace'', no_name = ns,
     no_labels = [(managedByLabel, managedByValue)]\<rparr>"

definition ensure :: "'w namespace_backend \<Rightarrow> (ns_object \<Rightarrow> (string, string) result) \<Rightarrow> ('w \<Rightarrow> time) \<Rightarrow>
    string \<Rightarrow> namespaceMirror option \<times> 'w \<Rightarrow> namespaceMirror option \<times> 'w" where
  "ensure backend marshal now ns st =
     (case st of (None, w) \<Rightarrow> (None, w)
      | (Some m, w) \<Rightarrow>
          if ns = [] then (Some m, w)
          else (case fresh m ns (now w) of
                  (True, m') \<Rightarrow> (Some m', w)
                | (False, m') \<Rightarrow>
                    (case nb_fetch backend (namespacePath @ [slash] @ ns) w of
                       (Ok _, w') \<Rightarrow> (Some (remember m' ns (now w')), w')
                     | (Err _, w') \<Rightarrow>
                         (case marshal (ns_body ns) of
                            Err _ \<Rightarrow> (Some m', w')
                          | Ok body \<Rightarrow>
                              (case nb_create backend namespacePath body w' of
                                 (Ok _, w'') \<Rightarrow> (Some (remember m' ns (now w'')), w'')
                               | (Err e, w'') \<Rightarrow>
                                   if isAlreadyExists e then (Some (remember m' ns (now w'')), w'')
                                   else (Some m', w''))))))"

definition mirrorsNamespace :: "http_request \<Rightarrow> bool" where
  "mirrorsNamespace req \<longleftrightarrow> rq_method req = POST \<or> rq_method req = PUT \<or> rq_method req = PATCH"

section \<open>Facts\<close>

lemma fresh_known: "nm_known (snd (fresh m ns now)) ns' = (if ns' = ns \<and> \<not> fst (fresh m ns now) then None else nm_known m ns')"
  by (auto simp: fresh_def split: option.splits)

lemma fresh_iff: "fst (fresh m ns now) \<longleftrightarrow> (\<exists>seen. nm_known m ns = Some seen \<and> now - seen < nm_ttl m)"
  by (auto simp: fresh_def split: option.splits)

lemma fresh_ttl [frame_simps]: "nm_ttl (snd (fresh m ns now)) = nm_ttl m"
  by (auto simp: fresh_def split: option.splits)

text \<open>What kcp answered that tells the namespace is there.\<close>

definition confirmed :: "'w namespace_backend \<Rightarrow> (ns_object \<Rightarrow> (string, string) result) \<Rightarrow> string \<Rightarrow> 'w \<Rightarrow> bool" where
  "confirmed backend marshal ns w \<longleftrightarrow>
     (case nb_fetch backend (namespacePath @ [slash] @ ns) w of
        (Ok _, _) \<Rightarrow> True
      | (Err _, w') \<Rightarrow>
          (case marshal (ns_body ns) of Err _ \<Rightarrow> False
           | Ok body \<Rightarrow>
               (case nb_create backend namespacePath body w' of
                  (Ok _, _) \<Rightarrow> True | (Err e, _) \<Rightarrow> isAlreadyExists e)))"

lemma ensure_stale:
  assumes "ns \<noteq> []" and "\<not> fst (fresh m ns (now w))" and "ensure backend marshal now ns (Some m, w) = (mo, w')"
  shows "mo = Some (if confirmed backend marshal ns w then remember (snd (fresh m ns (now w))) ns (now w')
                    else snd (fresh m ns (now w)))"
proof -
  obtain m1 where m1: "fresh m ns (now w) = (False, m1)" using assms(2) by (metis prod.collapse)
  obtain rf w1 where f: "nb_fetch backend (namespacePath @ [slash] @ ns) w = (rf, w1)" by (metis surj_pair)
  show ?thesis
  proof (cases rf)
    case (Inr doc)
    with assms m1 f show ?thesis by (auto simp: ensure_def confirmed_def)
  next
    case ef: (Inl e)
    show ?thesis
    proof (cases "marshal (ns_body ns)")
      case (Inl em)
      with ef assms m1 f show ?thesis by (auto simp: ensure_def confirmed_def)
    next
      case (Inr body)
      obtain rc w2 where "nb_create backend namespacePath body w1 = (rc, w2)" by (metis surj_pair)
      with Inr ef assms m1 f show ?thesis by (cases rc) (auto simp: ensure_def confirmed_def)
    qed
  qed
qed

lemma ensure_fresh:
  "fst (fresh m ns (now w)) \<Longrightarrow> ensure backend marshal now ns (Some m, w) = (Some m, w)"
  by (auto simp: ensure_def fresh_def split: option.splits if_splits)

section \<open>Properties\<close>

text \<open>
  C37. What the mirror believes it was told. Within the time to live of the last confirmation a
  write costs no request at all; otherwise the namespace is looked up, and created if need be, and
  it is remembered exactly when kcp confirmed it: by finding it, by creating it, or by answering
  that it is there already. No other namespace's entry moves, and the mirror never refuses a write.
\<close>
theorem mirror_believes_only_kcp:
  assumes "ns \<noteq> []" and "ensure backend marshal now ns (Some m, w) = (mo, w')"
  shows "\<exists>m'. mo = Some m' \<and> nm_ttl m' = nm_ttl m \<and> (\<forall>other. other \<noteq> ns \<longrightarrow> nm_known m' other = nm_known m other) \<and>
     (if \<exists>seen. nm_known m ns = Some seen \<and> now w - seen < nm_ttl m
      then w' = w \<and> m' = m
      else nm_known m' ns = (if confirmed backend marshal ns w then Some (now w') else None))"
proof (cases "fst (fresh m ns (now w))")
  case True
  then show ?thesis using ensure_fresh[of m ns now w backend marshal] assms fresh_iff[of m ns "now w"] by auto
next
  case False
  from ensure_stale[OF assms(1) False assms(2)] obtain m' where m': "mo = Some m'"
    "m' = (if confirmed backend marshal ns w then remember (snd (fresh m ns (now w))) ns (now w')
                    else snd (fresh m ns (now w)))" by blast
  then have "nm_ttl m' = nm_ttl m" by (simp add: remember_def frame_simps)
  moreover have "\<forall>other. other \<noteq> ns \<longrightarrow> nm_known m' other = nm_known m other"
    using m'(2) fresh_known[of m ns "now w"] by (auto simp: remember_def)
  moreover have "nm_known m' ns = (if confirmed backend marshal ns w then Some (now w') else None)"
    using m'(2) fresh_known[of m ns "now w" ns] False by (simp add: remember_def)
  ultimately show ?thesis using m'(1) False fresh_iff[of m ns "now w"] by auto
qed

theorem mirror_believes_only_kcp_witness:
  "\<exists>m'. ensure \<lparr>nb_fetch = (\<lambda>_ w. (Err (StatusError 404 [] []), w + 1)),
                nb_create = (\<lambda>_ _ w. (Err (StatusError 409 [] []), w + 1))\<rparr>
          (\<lambda>_. Ok ''{}'') int ''team'' (Some newNamespaceMirror, 5::nat) = (Some m', 7) \<and>
        nm_known m' ''team'' = Some 7"
proof -
  let ?b = "\<lparr>nb_fetch = (\<lambda>_ w. (Err (StatusError 404 [] []), w + 1)),
             nb_create = (\<lambda>_ _ w. (Err (StatusError 409 [] []), w + 1))\<rparr> :: nat namespace_backend"
  obtain mo w' where out: "ensure ?b (\<lambda>_. Ok ''{}'') int ''team'' (Some newNamespaceMirror, 5) = (mo, w')"
    by (metis surj_pair)
  have ne: "''team'' \<noteq> []" by simp
  have c: "confirmed ?b (\<lambda>_. Ok ''{}'') ''team'' 5" by (simp add: confirmed_def isAlreadyExists_def)
  have w: "w' = 7" using out by (auto simp: ensure_def fresh_def newNamespaceMirror_def isAlreadyExists_def)
  show ?thesis
    using mirror_believes_only_kcp[OF ne out] c out w by (auto simp: newNamespaceMirror_def)
qed

end
