(* ===== verification/Kcp_Client.thy ===== *)
theory Kcp_Client
  imports Prelude
begin

text \<open>
  \<open>pkg/kcp/client.go\<close>: a client configuration for a workspace out of a kubeconfig. The default loading
  rules and what client-go's clientcmd makes of loading rules are parameters; the configuration read may
  depend on, and reading it may change, a world.
\<close>

record loading_rules =
  lr_ExplicitPath :: string
  lr_Precedence :: "string list"

record ('c, 'w) clientcmd =
  cm_DefaultLoadingRules :: "'w \<Rightarrow> loading_rules"
  cm_ClientConfig :: "loading_rules \<Rightarrow> 'w \<Rightarrow> (string, 'c) result \<times> 'w"

datatype rest_config_error = LoadingKcpKubeconfig string string

definition RestConfig :: "('c, 'w) clientcmd \<Rightarrow> string \<Rightarrow> 'w \<Rightarrow> (rest_config_error, 'c) result \<times> 'w" where
  "RestConfig cm kubeconfigPath w =
     (case cm_ClientConfig cm ((cm_DefaultLoadingRules cm w)\<lparr>lr_ExplicitPath := kubeconfigPath\<rparr>) w of
        (Err e, w') \<Rightarrow> (Err (LoadingKcpKubeconfig kubeconfigPath e), w')
      | (Ok config, w') \<Rightarrow> (Ok config, w'))"

text \<open>Two paths that load the same are told apart by the error only.\<close>

lemma RestConfig_ok:
  "RestConfig cm path w = (Ok config, w') \<longleftrightarrow>
     cm_ClientConfig cm ((cm_DefaultLoadingRules cm w)\<lparr>lr_ExplicitPath := path\<rparr>) w = (Ok config, w')"
  by (auto simp: RestConfig_def split: prod.splits sum.splits)

end
