(* ===== verification/Credentials.thy ===== *)
theory Credentials
  imports Backend Kcp_Client Loops
begin

text \<open>
  \<open>pkg/apiserver/credentials.go\<close>, and the two functions of \<open>proxy.go\<close> that build what it holds: the
  transport that carries spillway's identity, replaced when the kubeconfig on disk changes. The file,
  client-go's clientcmd, its TLS settings and its wrapping of a transport, and the hash are functions of
  an environment; reading and loading go over a world in which the file may change at any moment.
\<close>

section \<open>The source\<close>

text \<open>The fields of an \<open>http.Transport\<close> that are set, over the TLS settings \<open>'s\<close>.\<close>

record 's base_transport =
  ht_TLSClientConfig :: 's
  ht_ResponseHeaderTimeout :: duration
  ht_DialTimeout :: duration
  ht_KeepAlive :: duration
  ht_MaxIdleConnsPerHost :: int

record ('w, 'c, 's, 't, 'd) credential_env =
  ce_ReadFile :: "string \<Rightarrow> 'w \<Rightarrow> (string, string) result \<times> 'w"
  ce_clientcmd :: "('c, 'w) clientcmd"
  ce_Host :: "'c \<Rightarrow> string"
  ce_TLSConfigFor :: "'c \<Rightarrow> (string, 's) result"
  ce_SetTransportDefaults :: "'s base_transport \<Rightarrow> 's base_transport"
  ce_HTTPWrappersForConfig :: "'c \<Rightarrow> 's base_transport \<Rightarrow> (string, 't) result"
  ce_Sum256 :: "string \<Rightarrow> 'd"
  ce_zero :: 'd

record ('t, 'd) credentialSource =
  cs_path :: string
  cs_options :: BackendOptions
  cs_server :: string
  cs_digest :: 'd
  cs_current :: 't

datatype transport_build_error = BuildingTLS string | ApplyingCredentials string

definition dialTimeout :: duration where "dialTimeout = 10 * second"
definition maxIdleConnsPerHost :: int where "maxIdleConnsPerHost = 25"

definition credentialedRoundTripper :: "('w, 'c, 's, 't, 'd) credential_env \<Rightarrow> 'c \<Rightarrow> BackendOptions \<Rightarrow>
    (transport_build_error, 't) result" where
  "credentialedRoundTripper env config options =
     (case ce_TLSConfigFor env config of
        Err e \<Rightarrow> Err (BuildingTLS e)
      | Ok tlsConfig \<Rightarrow>
          let base = ce_SetTransportDefaults env
                \<lparr>ht_TLSClientConfig = tlsConfig, ht_ResponseHeaderTimeout = bo_RequestTimeout options,
                 ht_DialTimeout = dialTimeout, ht_KeepAlive = 30 * second,
                 ht_MaxIdleConnsPerHost = maxIdleConnsPerHost\<rparr>
          in (case ce_HTTPWrappersForConfig env config base of
                Err e \<Rightarrow> Err (ApplyingCredentials e) | Ok credentialed \<Rightarrow> Ok credentialed))"

definition fileDigest :: "('w, 'c, 's, 't, 'd) credential_env \<Rightarrow> string \<Rightarrow> 'w \<Rightarrow> (string, 'd) result \<times> 'w" where
  "fileDigest env path w =
     (if path = [] then (Ok (ce_zero env), w)
      else (case ce_ReadFile env path w of
              (Err e, w') \<Rightarrow> (Err e, w')
            | (Ok content, w') \<Rightarrow> (Ok (ce_Sum256 env content), w')))"

definition newCredentialSource :: "('w, 'c, 's, 't, 'd) credential_env \<Rightarrow> string \<Rightarrow> 'c \<Rightarrow> BackendOptions \<Rightarrow> 'w \<Rightarrow>
    (transport_build_error, ('t, 'd) credentialSource) result \<times> 'w" where
  "newCredentialSource env path config options w =
     (case credentialedRoundTripper env config options of
        Err e \<Rightarrow> (Err e, w)
      | Ok transport \<Rightarrow>
          (case fileDigest env path w of
             (d, w') \<Rightarrow>
               (Ok \<lparr>cs_path = path, cs_options = options, cs_server = ce_Host env config,
                    cs_digest = (case d of Ok digest \<Rightarrow> digest | Err _ \<Rightarrow> ce_zero env),
                    cs_current = transport\<rparr>, w')))"

text \<open>
  A request goes through the transport in force when it is sent; \<open>round_trip\<close> is what a transport does.
\<close>

definition cred_RoundTrip :: "('t \<Rightarrow> 'w \<Rightarrow> http_request \<Rightarrow> (transport_error, http_response) result \<times> 'w) \<Rightarrow>
    ('t, 'd) credentialSource \<Rightarrow> 'w \<Rightarrow> http_request \<Rightarrow> (transport_error, http_response) result \<times> 'w" where
  "cred_RoundTrip round_trip s w req = round_trip (cs_current s) w req"

text \<open>The transport to a workspace: the breaker and the retries around the credentials.\<close>

definition backendRoundTripper :: "('w, 'c, 's, 't, 'd) credential_env \<Rightarrow> string \<Rightarrow> string \<Rightarrow> 'c \<Rightarrow> BackendOptions \<Rightarrow> 'w \<Rightarrow>
    (transport_build_error, (backendTransport \<times> breaker) \<times> ('t, 'd) credentialSource) result \<times> 'w" where
  "backendRoundTripper env workspace path config options w =
     (case newCredentialSource env path config options w of
        (Err e, w') \<Rightarrow> (Err e, w')
      | (Ok credentials, w') \<Rightarrow> (Ok (newBackendTransport workspace options, credentials), w'))"

datatype reload_error =
    ReadingKubeconfig string
  | LoadingKubeconfig rest_config_error
  | ServerMoved string string
  | RebuildingTransport transport_build_error

definition cred_reload :: "('w, 'c, 's, 't, 'd) credential_env \<Rightarrow> ('t, 'd) credentialSource \<Rightarrow> 'w \<Rightarrow>
    (reload_error, bool) result \<times> ('t, 'd) credentialSource \<times> 'w" where
  "cred_reload env s w =
     (if cs_path s = [] then (Ok False, s, w)
      else (case fileDigest env (cs_path s) w of
              (Err e, w1) \<Rightarrow> (Err (ReadingKubeconfig e), s, w1)
            | (Ok digest, w1) \<Rightarrow>
                if digest = cs_digest s then (Ok False, s, w1)
                else (case RestConfig (ce_clientcmd env) (cs_path s) w1 of
                        (Err e, w2) \<Rightarrow> (Err (LoadingKubeconfig e), s, w2)
                      | (Ok config, w2) \<Rightarrow>
                          if ce_Host env config \<noteq> cs_server s
                          then (Err (ServerMoved (ce_Host env config) (cs_server s)), s\<lparr>cs_digest := digest\<rparr>, w2)
                          else (case credentialedRoundTripper env config (cs_options s) of
                                  Err e \<Rightarrow> (Err (RebuildingTransport e), s, w2)
                                | Ok transport \<Rightarrow>
                                    (Ok True, s\<lparr>cs_current := transport, cs_digest := digest\<rparr>, w2)))))"

text \<open>One tick of \<open>run\<close>, and a number of them.\<close>

definition cred_tick :: "('w, 'c, 's, 't, 'd) credential_env \<Rightarrow> string \<Rightarrow>
    ('t, 'd) credentialSource \<times> metrics \<times> 'w \<Rightarrow> ('t, 'd) credentialSource \<times> metrics \<times> 'w" where
  "cred_tick env ws st =
     (case st of (s, mx, w) \<Rightarrow>
        (case cred_reload env s w of
           (Err _, s', w') \<Rightarrow> (s', ObserveCredentialReload ws ''error'' mx, w')
         | (Ok changed, s', w') \<Rightarrow> (s', if changed then ObserveCredentialReload ws ''reloaded'' mx else mx, w')))"

text \<open>The first ticks of \<open>run\<close>, and the whole of it.\<close>

definition cred_run :: "('w, 'c, 's, 't, 'd) credential_env \<Rightarrow> string \<Rightarrow> duration \<Rightarrow> nat \<Rightarrow>
    ('t, 'd) credentialSource \<times> metrics \<times> 'w \<Rightarrow> ('t, 'd) credentialSource \<times> metrics \<times> 'w" where
  "cred_run env ws period ticks st =
     (if cs_path (fst st) = [] \<or> period \<le> 0 then st else (cred_tick env ws ^^ ticks) st)"

definition cred_loop :: "('w, 'c, 's, 't, 'd) credential_env \<Rightarrow> string \<Rightarrow> duration \<Rightarrow> (nat \<Rightarrow> tick_case) \<Rightarrow>
    ('t, 'd) credentialSource \<times> metrics \<times> 'w \<Rightarrow> (string, ('t, 'd) credentialSource \<times> metrics \<times> 'w) result option" where
  "cred_loop env ws period chosen st =
     (if cs_path (fst st) = [] \<or> period \<le> 0 then Some (Ok st)
      else ticking period (tick_turn (cred_tick env ws)) chosen st)"

lemma cred_loop_returns:
  assumes "heeds (\<lambda>e. e = Ended) over chosen" and "cs_path (fst st) \<noteq> []" and "0 < period"
  shows "returns_when over (cred_loop env ws period chosen st) (\<lambda>n. cred_run env ws period n st)"
  using ticker_returns[OF assms(1,3), of "cred_tick env ws" st] assms(2,3) by (simp add: cred_loop_def cred_run_def)

section \<open>What a reload does\<close>

lemma cred_reload_frame [frame_simps]:
  assumes "cred_reload env s w = (r, s', w')"
  shows "cs_path s' = cs_path s" "cs_options s' = cs_options s" "cs_server s' = cs_server s"
  using assms by (auto simp: cred_reload_def split: if_splits sum.splits prod.splits)

text \<open>The transport is replaced exactly when the reload says so, and then by one to the same server.\<close>

lemma cred_reload_current:
  assumes "cred_reload env s w = (r, s', w')"
  shows "r = Ok True \<longrightarrow> (\<exists>config. ce_Host env config = cs_server s \<and>
           credentialedRoundTripper env config (cs_options s) = Ok (cs_current s'))"
    and "r \<noteq> Ok True \<longrightarrow> cs_current s' = cs_current s"
  using assms by (auto simp: cred_reload_def split: if_splits sum.splits prod.splits)

text \<open>A failure other than a moved server leaves the digest, so the next tick tries again.\<close>

lemma cred_reload_retries:
  assumes "cred_reload env s w = (Err e, s', w')" and "\<And>a b. e \<noteq> ServerMoved a b"
  shows "s' = s"
  using assms by (auto simp: cred_reload_def split: if_splits sum.splits prod.splits)

definition belongs :: "('w, 'c, 's, 't, 'd) credential_env \<Rightarrow> string \<Rightarrow> BackendOptions \<Rightarrow> 't \<Rightarrow> bool" where
  "belongs env server options t \<longleftrightarrow>
     (\<exists>config. ce_Host env config = server \<and> credentialedRoundTripper env config options = Ok t)"

definition cred_inv :: "('w, 'c, 's, 't, 'd) credential_env \<Rightarrow> string \<Rightarrow> BackendOptions \<Rightarrow> ('t, 'd) credentialSource \<Rightarrow> bool" where
  "cred_inv env server options s \<longleftrightarrow>
     cs_server s = server \<and> cs_options s = options \<and> belongs env server options (cs_current s)"

lemma new_cred_inv:
  assumes "newCredentialSource env path config options w = (Ok s, w')"
  shows "cred_inv env (ce_Host env config) options s" and "cs_path s = path"
  using assms
  by (auto simp: newCredentialSource_def cred_inv_def belongs_def split: sum.splits prod.splits)

lemma cred_tick_inv:
  assumes "cred_inv env server options (fst st)"
  shows "cred_inv env server options (fst (cred_tick env ws st))"
proof -
  obtain s mx w where st: "st = (s, mx, w)" by (metis prod_cases3)
  obtain r s' w' where run: "cred_reload env s w = (r, s', w')" by (metis prod_cases3)
  have "cred_inv env server options s'"
    using assms cred_reload_frame(2,3)[OF run] cred_reload_current[OF run]
    by (cases "r = Ok True") (auto simp: st cred_inv_def belongs_def)
  then show ?thesis by (cases r) (simp_all add: st run cred_tick_def)
qed

lemma cred_run_inv:
  "cred_inv env server options (fst st) \<Longrightarrow> cred_inv env server options (fst (cred_run env ws period n st))"
proof -
  assume "cred_inv env server options (fst st)"
  then have "cred_inv env server options (fst ((cred_tick env ws ^^ n) st))"
    by (induction n) (simp_all add: cred_tick_inv)
  with \<open>cred_inv env server options (fst st)\<close> show ?thesis by (simp add: cred_run_def)
qed

text \<open>
  Where credentials come from: the path they watch, the server they are for, and the kubeconfig at that
  path, from which the transport in force was built.
\<close>

definition from_kubeconfig :: "('w, 'c, 's, 't, 'd) credential_env \<Rightarrow> string \<Rightarrow> 'c \<Rightarrow> bool" where
  "from_kubeconfig env path config \<longleftrightarrow> (\<exists>w w'. RestConfig (ce_clientcmd env) path w = (Ok config, w'))"

definition cred_home :: "('w, 'c, 's, 't, 'd) credential_env \<Rightarrow> string \<Rightarrow> string \<Rightarrow> BackendOptions \<Rightarrow>
    ('t, 'd) credentialSource \<Rightarrow> bool" where
  "cred_home env path server options s \<longleftrightarrow>
     cs_path s = path \<and> cs_server s = server \<and> cs_options s = options \<and>
     (\<exists>config. from_kubeconfig env path config \<and> ce_Host env config = server \<and>
        credentialedRoundTripper env config options = Ok (cs_current s))"

lemma new_cred_home:
  assumes "newCredentialSource env path config options w = (Ok s, w')" and "from_kubeconfig env path config"
  shows "cred_home env path (ce_Host env config) options s"
  using assms by (auto simp: newCredentialSource_def cred_home_def split: sum.splits prod.splits)

lemma cred_tick_home:
  assumes "cred_home env path server options (fst st)"
  shows "cred_home env path server options (fst (cred_tick env ws st))"
proof -
  obtain s mx w where st: "st = (s, mx, w)" by (metis prod_cases3)
  obtain r s' w' where run: "cred_reload env s w = (r, s', w')" by (metis prod_cases3)
  have "s' = s \<or> (\<exists>d. s' = s\<lparr>cs_digest := d\<rparr>) \<or>
      (\<exists>config t d. from_kubeconfig env (cs_path s) config \<and> ce_Host env config = cs_server s \<and>
         credentialedRoundTripper env config (cs_options s) = Ok t \<and> s' = s\<lparr>cs_current := t, cs_digest := d\<rparr>)"
    using run by (fastforce simp: cred_reload_def from_kubeconfig_def split: if_splits sum.splits prod.splits)
  then have "cred_home env path server options s'" using assms by (auto simp: st cred_home_def)
  then show ?thesis by (cases r) (simp_all add: st run cred_tick_def)
qed

lemma cred_run_home:
  "cred_home env path server options (fst st) \<Longrightarrow> cred_home env path server options (fst (cred_run env ws period n st))"
proof -
  assume h: "cred_home env path server options (fst st)"
  then have "cred_home env path server options (fst ((cred_tick env ws ^^ n) st))"
    by (induction n) (simp_all add: cred_tick_home)
  with h show ?thesis by (simp add: cred_run_def)
qed

lemma cred_run_path:
  assumes "cred_run env ws period n (s, mx, w) = (s', mx', w')"
  shows "cs_path s' = cs_path s"
proof -
  have tick: "cs_path (fst (cred_tick env ws st)) = cs_path (fst st)" for st
    by (cases "cred_reload env (fst st) (snd (snd st))")
       (auto simp: cred_tick_def split: prod.splits sum.splits dest: cred_reload_frame)
  have "cs_path (fst ((cred_tick env ws ^^ n) st)) = cs_path (fst st)" for st
    by (induction n) (simp_all add: tick)
  from this[of "(s, mx, w)"] assms show ?thesis by (simp add: cred_run_def split: if_splits)
qed

section \<open>Rotation\<close>

text \<open>
  From now on the file stays as it is: it reads as \<open>content\<close> and loads as \<open>config\<close> in every world of
  \<open>now\<close>, and asking does not leave \<open>now\<close>.
\<close>

definition steady :: "('w, 'c, 's, 't, 'd) credential_env \<Rightarrow> string \<Rightarrow> string \<Rightarrow> 'c \<Rightarrow> 'w set \<Rightarrow> bool" where
  "steady env path content config now \<longleftrightarrow>
     (\<forall>w\<in>now. fst (ce_ReadFile env path w) = Ok content \<and> snd (ce_ReadFile env path w) \<in> now \<and>
        fst (RestConfig (ce_clientcmd env) path w) = Ok config \<and> snd (RestConfig (ce_clientcmd env) path w) \<in> now)"

lemma cred_reload_steady:
  assumes "steady env (cs_path s) content config now" and "w \<in> now" and "cs_path s \<noteq> []"
    and "ce_Host env config = cs_server s" and "credentialedRoundTripper env config (cs_options s) = Ok t"
  shows "\<exists>w'\<in>now. cred_reload env s w =
    (if ce_Sum256 env content = cs_digest s then (Ok False, s, w')
     else (Ok True, s\<lparr>cs_current := t, cs_digest := ce_Sum256 env content\<rparr>, w'))"
proof -
  obtain w1 where r: "ce_ReadFile env (cs_path s) w = (Ok content, w1)" "w1 \<in> now"
    using assms(1,2) unfolding steady_def by (metis prod.collapse)
  obtain w2 where l: "RestConfig (ce_clientcmd env) (cs_path s) w1 = (Ok config, w2)" "w2 \<in> now"
    using assms(1) r(2) unfolding steady_def by (metis prod.collapse)
  show ?thesis
  proof (cases "ce_Sum256 env content = cs_digest s")
    case True
    then show ?thesis using assms r by (intro bexI[of _ w1]) (simp_all add: cred_reload_def fileDigest_def)
  next
    case False
    then show ?thesis using assms r l by (intro bexI[of _ w2]) (simp_all add: cred_reload_def fileDigest_def)
  qed
qed

text \<open>
  A source whose digest is already that of the file changes nothing, whatever it was built from: a
  rotation that falls between loading the configuration and taking the digest is not noticed.
\<close>

lemma cred_ticks_settled:
  assumes "steady env (cs_path s) content config now" and "cs_path s \<noteq> []"
    and "ce_Host env config = cs_server s" and "credentialedRoundTripper env config (cs_options s) = Ok t"
    and "cs_digest s = ce_Sum256 env content" and "w \<in> now"
  shows "\<exists>w'\<in>now. (cred_tick env ws ^^ n) (s, mx, w) = (s, mx, w')"
proof (induction n)
  case 0
  then show ?case using assms(6) by simp
next
  case (Suc n)
  then obtain w' where w': "(cred_tick env ws ^^ n) (s, mx, w) = (s, mx, w')" "w' \<in> now" by blast
  obtain w'' where w'': "cred_reload env s w' = (Ok False, s, w'')" "w'' \<in> now"
    using cred_reload_steady[OF assms(1) w'(2) assms(2-4)] assms(5) by auto
  have "cred_tick env ws (s, mx, w') = (s, mx, w'')" by (simp add: cred_tick_def w''(1))
  with w' w'' show ?case by (intro bexI[of _ w'']) simp_all
qed

text \<open>
  C25. A rotation is picked up by the first tick after it, once, and without leaving the workspace:
  from a source built by \<open>newCredentialSource\<close>, after any run of ticks over a file that changes as it
  likes, when the file then settles on contents that are new and loads a configuration for the same
  server, any positive number of further ticks leaves the transport built from it in force and
  counts exactly one reload and no error. At every moment the transport in force belongs to the
  server the workspace was started with.
\<close>

theorem rotation_is_picked_up_once:
  assumes "newCredentialSource env path config0 options w0 = (Ok s0, w1)"
    and "path \<noteq> []" and "0 < period"
    and "cred_run env ws period before (s0, mx0, w1) = (s, mx, w)"
    and "steady env path content config now" and "w \<in> now"
    and "ce_Host env config = ce_Host env config0" and "credentialedRoundTripper env config options = Ok t"
    and "ce_Sum256 env content \<noteq> cs_digest s" and "0 < n"
    and "cred_run env ws period n (s, mx, w) = (s', mx', w')"
  shows "belongs env (ce_Host env config0) options (cs_current s) \<and> cs_current s' = t \<and>
    credentialReloads mx' (ws, ''reloaded'') = credentialReloads mx (ws, ''reloaded'') + 1 \<and>
    credentialReloads mx' (ws, ''error'') = credentialReloads mx (ws, ''error'')"
proof -
  have inv: "cred_inv env (ce_Host env config0) options s"
    using cred_run_inv[of env "ce_Host env config0" options "(s0, mx0, w1)" ws period before]
      new_cred_inv(1)[OF assms(1)] by (simp add: assms(4))
  have p: "cs_path s = path"
    using cred_run_path[OF assms(4)] new_cred_inv(2)[OF assms(1)] by simp
  have home: "steady env (cs_path s) content config now" "cs_path s \<noteq> []" "ce_Host env config = cs_server s"
      "credentialedRoundTripper env config (cs_options s) = Ok t"
    using assms(2,5,7,8) inv p by (simp_all add: cred_inv_def)
  let ?s = "s\<lparr>cs_current := t, cs_digest := ce_Sum256 env content\<rparr>"
  obtain w2 where first: "cred_reload env s w = (Ok True, ?s, w2)" "w2 \<in> now"
    using cred_reload_steady[OF home(1) assms(6) home(2-4)] assms(9) by auto
  obtain m where m: "n = Suc m" using assms(10) by (cases n) auto
  have settled: "steady env (cs_path ?s) content config now" "cs_path ?s \<noteq> []" "ce_Host env config = cs_server ?s"
      "credentialedRoundTripper env config (cs_options ?s) = Ok t" "cs_digest ?s = ce_Sum256 env content"
    using home by simp_all
  obtain w3 where "(cred_tick env ws ^^ m) (?s, ObserveCredentialReload ws ''reloaded'' mx, w2) =
      (?s, ObserveCredentialReload ws ''reloaded'' mx, w3)"
    using cred_ticks_settled[OF settled first(2)] by blast
  with first(1) have "(cred_tick env ws ^^ n) (s, mx, w) = (?s, ObserveCredentialReload ws ''reloaded'' mx, w3)"
    unfolding m funpow_Suc_right by (simp add: cred_tick_def)
  with assms(3,11) home(2) have "s' = ?s" "mx' = ObserveCredentialReload ws ''reloaded'' mx"
    by (simp_all add: cred_run_def)
  with inv show ?thesis by (simp add: cred_inv_def ObserveCredentialReload_def)
qed

section \<open>A token rotated under a running workspace\<close>

definition sample_cred_env :: "(nat, string, unit, string, string) credential_env" where
  "sample_cred_env =
     \<lparr>ce_ReadFile = (\<lambda>_ n. (Ok (if n = 0 then ''old'' else ''new''), Suc n)),
      ce_clientcmd = \<lparr>cm_DefaultLoadingRules = (\<lambda>_. \<lparr>lr_ExplicitPath = [], lr_Precedence = []\<rparr>),
                      cm_ClientConfig = (\<lambda>_ n. (Ok (if n = 0 then ''old'' else ''new''), n))\<rparr>,
      ce_Host = (\<lambda>_. ''https://kcp''), ce_TLSConfigFor = (\<lambda>_. Ok ()), ce_SetTransportDefaults = id,
      ce_HTTPWrappersForConfig = (\<lambda>config _. Ok config), ce_Sum256 = id, ce_zero = []\<rparr>"

definition sample_cred_options :: BackendOptions where
  "sample_cred_options = \<lparr>bo_RequestTimeout = 0, bo_Retries = 0, bo_FailureThreshold = 0, bo_CircuitCooldown = 0\<rparr>"

definition sample_cred_source :: "string \<Rightarrow> (string, string) credentialSource" where
  "sample_cred_source t =
     \<lparr>cs_path = ''kubeconfig'', cs_options = sample_cred_options, cs_server = ''https://kcp'', cs_digest = t,
      cs_current = t\<rparr>"

lemma sample_transport: "credentialedRoundTripper sample_cred_env config options = Ok config"
  by (simp add: credentialedRoundTripper_def sample_cred_env_def)

lemma sample_steady: "steady sample_cred_env ''kubeconfig'' ''new'' ''new'' {0<..}"
  by (simp add: steady_def sample_cred_env_def RestConfig_def)

theorem rotation_is_picked_up_once_witness:
  "\<exists>s' mx' w'. cred_run sample_cred_env ''team'' 1 2 (sample_cred_source ''old'', no_metrics, 1) = (s', mx', w') \<and>
     cs_current s' = ''new'' \<and> credentialReloads mx' (''team'', ''reloaded'') = 1"
proof -
  obtain s' mx' w' where run:
    "cred_run sample_cred_env ''team'' 1 2 (sample_cred_source ''old'', no_metrics, 1) = (s', mx', w')"
    by (metis prod_cases3)
  have new: "newCredentialSource sample_cred_env ''kubeconfig'' ''old'' sample_cred_options 0 =
      (Ok (sample_cred_source ''old''), 1)"
    unfolding newCredentialSource_def sample_transport
    by (simp add: fileDigest_def sample_cred_env_def sample_cred_source_def)
  have none: "cred_run sample_cred_env ''team'' 1 0 (sample_cred_source ''old'', no_metrics, 1) =
      (sample_cred_source ''old'', no_metrics, 1)"
    by (simp add: cred_run_def)
  from rotation_is_picked_up_once[OF new _ _ none sample_steady, where n = 2 and t = "''new''", OF _ _ _ _ _ _ _ run]
  have "cs_current s' = ''new''" "credentialReloads mx' (''team'', ''reloaded'') =
      credentialReloads no_metrics (''team'', ''reloaded'') + 1"
    using sample_transport by (simp_all add: sample_cred_env_def sample_cred_source_def)
  with run show ?thesis by (simp add: no_metrics_def)
qed

end
