(* ===== verification/Proxy.thy ===== *)
theory Proxy
  imports Admission Owner_Refs Namespace_Mirror Credentials
begin

text \<open>
  \<open>pkg/apiserver/proxy.go\<close>: forwarding a resource request to the workspace that stores it. What
  happens after the request is handed to apimachinery's upgrade aware handler is not modelled: the
  outcome of \<open>ServeHTTP\<close> is either the refusal written, or what was handed over.
\<close>

section \<open>State\<close>

text \<open>
  \<open>rp_served\<close> reads the groups served now; the namespace mirror's state is threaded through
  \<open>ServeHTTP\<close>, \<open>None\<close> when mirroring was not asked for.
\<close>

record 'w resourceProxy =
  rp_location :: url
  rp_impersonate :: bool
  rp_timeout :: duration
  rp_served :: "'w \<Rightarrow> string set"
  rp_admission :: "'w admissionGate option"

text \<open>The third party functions the proxy uses, and the mirror's side channel and clock.\<close>

record 'w proxy_env =
  pe_decode :: "string \<Rightarrow> k8s_object option"
  pe_encode :: "k8s_object \<Rightarrow> (string, string) result"
  pe_parse_gv :: "string \<Rightarrow> (string, group_version) result"
  pe_namespaces :: "'w namespace_backend"
  pe_marshal :: "ns_object \<Rightarrow> (string, string) result"
  pe_now :: "'w \<Rightarrow> time"

datatype refusal =
    NotCanonical string
  | BadBody inspect_error
  | BadOwner group_version_kind string owner_error
  | NotAdmitted admission_error
  | Reencoding string
  | OutsideWorkspace string
  | NoUser

record proxied =
  px_target :: url
  px_request :: http_request
  px_impersonating :: "user_info option"
  px_deadline :: "duration option"

datatype outcome = Refused refusal | Handed proxied

section \<open>Building a proxy\<close>

datatype proxy_error = ParsingHost string | HostNotAbsolute string | BuildingTransport transport_build_error

record parsed_url =
  pu_Scheme :: string
  pu_Host :: string
  pu_url :: url

text \<open>
  \<open>parse\<close> is \<open>url.Parse\<close>; \<open>round_tripper\<close> is \<open>backendRoundTripper\<close> for this workspace, whose transport and
  credentials the proxy carries: they are the second component of what is built.
\<close>

definition newResourceProxy :: "(string \<Rightarrow> (string, parsed_url) result) \<Rightarrow>
    ('w \<Rightarrow> (transport_build_error, 't) result \<times> 'w) \<Rightarrow> string \<Rightarrow>
    bool \<Rightarrow> BackendOptions \<Rightarrow> ('v \<Rightarrow> string set) \<Rightarrow> 'w \<Rightarrow> (proxy_error, 'v resourceProxy \<times> 't) result \<times> 'w" where
  "newResourceProxy parse round_tripper host impersonate options served w =
     (case parse host of
        Err e \<Rightarrow> (Err (ParsingHost e), w)
      | Ok u \<Rightarrow>
          if pu_Scheme u = [] \<or> pu_Host u = [] then (Err (HostNotAbsolute host), w)
          else (case round_tripper w of
                  (Err e, w') \<Rightarrow> (Err (BuildingTransport e), w')
                | (Ok t, w') \<Rightarrow>
                    (Ok (\<lparr>rp_location = pu_url u, rp_impersonate = impersonate,
                          rp_timeout = bo_RequestTimeout options, rp_served = served,
                          rp_admission = None\<rparr>, t), w')))"

section \<open>Reading the request\<close>

definition targetFor :: "'w resourceProxy \<Rightarrow> http_request \<Rightarrow> url" where
  "targetFor p req =
     (rp_location p)\<lparr>url_path := path_join [url_path (rp_location p), url_path (rq_url req)],
                     url_query := url_query (rq_url req)\<rparr>"

definition writesObject :: "http_request \<Rightarrow> bool" where
  "writesObject req \<longleftrightarrow> rq_method req = POST \<or> rq_method req = PUT \<or> rq_method req = DELETE"

definition canonicalPath :: "string \<Rightarrow> bool" where
  "canonicalPath p =
     (let trimmed = trim_suffix p [slash] in
      if trimmed = [] then p = [slash] else path_clean trimmed = trimmed)"

definition isWatch :: "http_request \<Rightarrow> bool" where
  "isWatch req =
     (case rq_info req of
        Some info \<Rightarrow> ri_Verb info = ''watch''
      | None \<Rightarrow> query_get (url_query (rq_url req)) ''watch'' = ''true'' \<or>
                query_get (url_query (rq_url req)) ''watch'' = ''1'')"

definition deadline_for :: "'w resourceProxy \<Rightarrow> http_request \<Rightarrow> duration option" where
  "deadline_for p req = (if rp_timeout p > 0 \<and> \<not> isWatch req then Some (rp_timeout p) else None)"

section \<open>The three stages of a request\<close>

text \<open>A create, update or delete: inspected, its owners checked, admitted, its body put back.\<close>

definition stage_write :: "'w proxy_env \<Rightarrow> 'w resourceProxy \<Rightarrow> http_request \<Rightarrow> 'w \<Rightarrow>
    (refusal, http_request) result \<times> 'w" where
  "stage_write env p req w =
     (if \<not> writesObject req then (Ok req, w)
      else (case inspectWrite (pe_decode env) req of
              (_, _, Some e) \<Rightarrow> (Err (BadBody e), w)
            | (object, body, None) \<Rightarrow>
                (case checkOwnerReferences (pe_parse_gv env) object (rp_served p w) of
                   Some e \<Rightarrow>
                     (Err (BadOwner (case object of None \<Rightarrow> GVK [] [] [] | Some ob \<Rightarrow> ob_gvk ob)
                             (case object of None \<Rightarrow> [] | Some ob \<Rightarrow> ob_name ob) e), w)
                 | None \<Rightarrow>
                     (case run_admission (pe_decode env) (rp_admission p) req object w of
                        (Err e, w') \<Rightarrow> (Err (NotAdmitted e), w')
                      | (Ok None, w') \<Rightarrow>
                          (Ok (case body of None \<Rightarrow> req | Some b \<Rightarrow> restoreBody req b), w')
                      | (Ok (Some mutated), w') \<Rightarrow>
                          (case pe_encode env mutated of
                             Err e \<Rightarrow> (Err (Reencoding e), w')
                           | Ok b \<Rightarrow> (Ok (restoreBody req b), w'))))))"

text \<open>A patch: admitted on what it would make, and possibly written as that object instead.\<close>

definition stage_patch :: "'w proxy_env \<Rightarrow> 'w resourceProxy \<Rightarrow> http_request \<Rightarrow> 'w \<Rightarrow>
    (refusal, http_request) result \<times> 'w" where
  "stage_patch env p req w =
     (if rq_method req \<noteq> PATCH then (Ok req, w)
      else (case inspectWrite (pe_decode env) req of
              (_, _, Some e) \<Rightarrow> (Err (BadBody e), w)
            | (_, patch, None) \<Rightarrow>
                (case run_patch (pe_decode env) (pe_encode env) (rp_admission p) req patch w of
                   (Err e, w') \<Rightarrow> (Err (NotAdmitted e), w')
                 | (Ok decision, w') \<Rightarrow>
                     (case Option.bind decision pd_replacement of
                        Some replacement \<Rightarrow>
                          (Ok (restoreBody (req\<lparr>rq_method := PUT, rq_contentType := ''application/json''\<rparr>)
                                 replacement), w')
                      | None \<Rightarrow>
                          (Ok (case patch of None \<Rightarrow> req | Some b \<Rightarrow> restoreBody req b), w')))))"

definition stage_namespace :: "'w proxy_env \<Rightarrow> http_request \<Rightarrow> namespaceMirror option \<times> 'w \<Rightarrow>
    namespaceMirror option \<times> 'w" where
  "stage_namespace env req st =
     (if fst st \<noteq> None \<and> mirrorsNamespace req then
        (case rq_info req of
           Some info \<Rightarrow>
             if ri_IsResourceRequest info
             then ensure (pe_namespaces env) (pe_marshal env) (pe_now env) (ri_Namespace info) st
             else st
         | None \<Rightarrow> st)
      else st)"

definition hand_over :: "'w resourceProxy \<Rightarrow> http_request \<Rightarrow> duration option \<Rightarrow> outcome" where
  "hand_over p req deadline =
     (let target = targetFor p req in
      if \<not> has_prefix (url_path target) (url_path (rp_location p))
      then Refused (OutsideWorkspace (url_path (rq_url req)))
      else if rp_impersonate p \<and> rq_user req = None then Refused NoUser
      else Handed \<lparr>px_target = target, px_request = req\<lparr>rq_url := target, rq_authorization := None\<rparr>,
                   px_impersonating = (if rp_impersonate p then rq_user req else None),
                   px_deadline = deadline\<rparr>)"

definition ServeHTTP :: "'w proxy_env \<Rightarrow> 'w resourceProxy \<Rightarrow> http_request \<Rightarrow> namespaceMirror option \<times> 'w \<Rightarrow>
    outcome \<times> (namespaceMirror option \<times> 'w)" where
  "ServeHTTP env p req st =
     (case st of (mirror, w) \<Rightarrow>
      if \<not> canonicalPath (url_path (rq_url req)) then (Refused (NotCanonical (url_path (rq_url req))), (mirror, w))
      else let deadline = deadline_for p req in
        (case stage_write env p req w of
           (Err e, w1) \<Rightarrow> (Refused e, (mirror, w1))
         | (Ok req1, w1) \<Rightarrow>
             (case stage_patch env p req1 w1 of
                (Err e, w2) \<Rightarrow> (Refused e, (mirror, w2))
              | (Ok req2, w2) \<Rightarrow>
                  (case stage_namespace env req2 (mirror, w2) of
                     st' \<Rightarrow> (hand_over p req2 deadline, st')))))"

text \<open>
  The status each refusal is written with; a denial by the chain carries its own.
\<close>

definition refusal_status :: "refusal \<Rightarrow> int option" where
  "refusal_status r =
     (case r of
        NotCanonical _ \<Rightarrow> Some 400 | BadBody _ \<Rightarrow> Some 400 | BadOwner _ _ _ \<Rightarrow> Some 422
      | NotAdmitted e \<Rightarrow>
          (case e of NoCallerAtAdmission \<Rightarrow> Some 500 | UnknownKind _ _ _ \<Rightarrow> Some 400
           | ReencodingAdmitted _ \<Rightarrow> Some 500 | ReplacedWith _ \<Rightarrow> Some 500 | Denied _ \<Rightarrow> None)
      | Reencoding _ \<Rightarrow> Some 500 | OutsideWorkspace _ \<Rightarrow> Some 400 | NoUser \<Rightarrow> Some 500)"

section \<open>Where a request may go\<close>

lemma clean_stack_trailing: "clean_stack r (segs @ [[]]) = clean_stack r segs"
  by (simp add: clean_stack_def clean_step_def)

lemma path_clean_trailing_slash: "has_prefix x [slash] \<Longrightarrow> path_clean (x @ [slash]) = path_clean x"
  using split_on_append[of slash x "[]"] clean_stack_trailing[of True "split_on slash x"]
  by (cases x) (auto simp: path_clean_def has_prefix_def Let_def split: if_splits)

lemma path_join_trailing_slash:
  "has_prefix base [slash] \<Longrightarrow> path_join [base, x @ [slash]] = path_join [base, x]"
  using path_clean_trailing_slash[of "base @ slash # x"]
  by (cases base) (auto simp: path_join_pair has_prefix_def)

lemma path_join_slash: "has_prefix base [slash] \<Longrightarrow> path_join [base, [slash]] = path_clean base"
  using path_clean_trailing_slash[of "base @ [slash]"] path_clean_trailing_slash[of base]
  by (cases base) (auto simp: path_join_pair has_prefix_def)

text \<open>A canonical rooted path is a list of normal segments, with or without a slash at the end.\<close>

lemma canonical_cases:
  assumes "canonicalPath p" and "has_prefix p [slash]"
  shows "\<exists>ss. (\<forall>s\<in>set ss. normal_seg s) \<and> (p = rooted_path ss \<or> p = rooted_path ss @ [slash])"
proof (cases "trim_suffix p [slash] = []")
  case True
  with assms have "p = rooted_path []" by (simp add: canonicalPath_def rooted_path_def)
  then show ?thesis by (intro exI[of _ "[]"]) simp
next
  case False
  let ?t = "trim_suffix p [slash]"
  have p: "p = ?t \<or> p = ?t @ [slash]"
    by (auto simp: trim_suffix_def has_suffix_def) (metis append_take_drop_id)
  then have "has_prefix ?t [slash]" using assms(2) False by (cases ?t) (auto simp: has_prefix_def)
  moreover have "path_clean ?t = ?t" using assms(1) False by (simp add: canonicalPath_def Let_def)
  ultimately obtain ss where "\<forall>s\<in>set ss. normal_seg s" "?t = rooted_path ss"
    using rooted_path_cases by blast
  with p show ?thesis by metis
qed

lemma target_path:
  assumes "has_prefix base [slash]" and "\<forall>s\<in>set ss. normal_seg s"
    and "p = rooted_path ss \<or> p = rooted_path ss @ [slash]"
  shows "path_join [base, p] =
     (if ss = [] then path_clean base
      else if path_clean base = [slash] then rooted_path ss else path_clean base @ rooted_path ss)"
proof -
  have "path_join [base, p] = path_join [base, rooted_path ss]"
    using assms(3) path_join_trailing_slash[OF assms(1)] by auto
  also have "\<dots> = (if ss = [] then path_clean base
      else if path_clean base = [slash] then rooted_path ss else path_clean base @ rooted_path ss)"
    using path_join_rooted[OF assms(1) _ assms(2)] path_join_slash[OF assms(1)]
    by (simp add: rooted_path_def)
  finally show ?thesis .
qed

lemma stage_write_url: "stage_write env p req w = (Ok req', w') \<Longrightarrow>
    rq_url req' = rq_url req \<and> rq_user req' = rq_user req \<and> rq_info req' = rq_info req \<and> rq_method req' = rq_method req"
  by (auto simp: stage_write_def restoreBody_def split: if_splits prod.splits option.splits sum.splits)

lemma stage_patch_url: "stage_patch env p req w = (Ok req', w') \<Longrightarrow>
    rq_url req' = rq_url req \<and> rq_user req' = rq_user req \<and> rq_info req' = rq_info req"
  by (auto simp: stage_patch_def restoreBody_def split: if_splits prod.splits option.splits sum.splits)

text \<open>What a request that was handed over went through.\<close>

lemma ServeHTTP_handed:
  assumes "ServeHTTP env p req (mirror, w) = (Handed px, st')"
  shows "canonicalPath (url_path (rq_url req)) \<and>
     (\<exists>req1 w1 req2 w2.
        stage_write env p req w = (Ok req1, w1) \<and> stage_patch env p req1 w1 = (Ok req2, w2) \<and>
        stage_namespace env req2 (mirror, w2) = st' \<and> hand_over p req2 (deadline_for p req) = Handed px)"
  using assms by (auto simp: ServeHTTP_def Let_def split: if_splits prod.splits sum.splits)

lemma hand_over_handed:
  assumes "hand_over p req d = Handed px"
  shows "px_target px = targetFor p req \<and> px_deadline px = d \<and>
     px_request px = req\<lparr>rq_url := targetFor p req, rq_authorization := None\<rparr> \<and>
     has_prefix (url_path (targetFor p req)) (url_path (rp_location p)) \<and>
     px_impersonating px = (if rp_impersonate p then rq_user req else None) \<and>
     (rp_impersonate p \<longrightarrow> rq_user req \<noteq> None)"
  using assms by (auto simp: hand_over_def Let_def split: if_splits)

text \<open>What each stage lets through.\<close>

lemma stage_write_ok:
  assumes "stage_write env p req w = (Ok req', w')"
  shows "if writesObject req
     then \<exists>object body out.
       inspectWrite (pe_decode env) req = (object, body, None) \<and>
       checkOwnerReferences (pe_parse_gv env) object (rp_served p w) = None \<and>
       run_admission (pe_decode env) (rp_admission p) req object w = (Ok out, w') \<and>
       (case out of None \<Rightarrow> rq_body req' = rq_body req
        | Some m \<Rightarrow> \<exists>b. pe_encode env m = Ok b \<and> rq_body req' = Some b)
     else req' = req \<and> w' = w"
proof (cases "writesObject req")
  case False
  with assms show ?thesis by (simp add: stage_write_def)
next
  case True
  obtain object body err where i: "inspectWrite (pe_decode env) req = (object, body, err)" by (metis surj_pair)
  have e: "err = None" using assms True i by (auto simp: stage_write_def split: option.splits)
  have c: "checkOwnerReferences (pe_parse_gv env) object (rp_served p w) = None"
    using assms True i e by (auto simp: stage_write_def split: option.splits)
  obtain r w1 where r: "run_admission (pe_decode env) (rp_admission p) req object w = (r, w1)"
    by (metis surj_pair)
  obtain out where out: "r = Ok out"
    using assms True i e c r by (cases r) (auto simp: stage_write_def)
  have same: "body = Some b \<Longrightarrow> rq_body req = Some b" for b
    using inspectWrite_body i e by fastforce
  have "w1 = w' \<and> (case out of None \<Rightarrow> rq_body req' = rq_body req
        | Some m \<Rightarrow> \<exists>b. pe_encode env m = Ok b \<and> rq_body req' = Some b)"
    using assms True i e c r out same
    by (cases out; cases body) (auto simp: stage_write_def restoreBody_def split: sum.splits)
  with True i e c r out show ?thesis by auto
qed

lemma stage_patch_ok:
  assumes "stage_patch env p req w = (Ok req', w')"
  shows "if rq_method req = PATCH
     then \<exists>object patch decision.
       inspectWrite (pe_decode env) req = (object, patch, None) \<and>
       run_patch (pe_decode env) (pe_encode env) (rp_admission p) req patch w = (Ok decision, w') \<and>
       (case Option.bind decision pd_replacement of
          None \<Rightarrow> rq_method req' = PATCH \<and> rq_body req' = rq_body req \<and> rq_contentType req' = rq_contentType req
        | Some b \<Rightarrow> rq_method req' = PUT \<and> rq_body req' = Some b \<and> rq_contentType req' = ''application/json'')
     else req' = req \<and> w' = w"
proof (cases "rq_method req = PATCH")
  case False
  with assms show ?thesis by (simp add: stage_patch_def)
next
  case True
  obtain object patch err where i: "inspectWrite (pe_decode env) req = (object, patch, err)" by (metis surj_pair)
  have e: "err = None" using assms True i by (auto simp: stage_patch_def split: option.splits)
  obtain r w1 where r: "run_patch (pe_decode env) (pe_encode env) (rp_admission p) req patch w = (r, w1)"
    by (metis surj_pair)
  obtain decision where d: "r = Ok decision"
    using assms True i e r by (cases r) (auto simp: stage_patch_def)
  have same: "patch = Some b \<Longrightarrow> rq_body req = Some b" for b
    using inspectWrite_body i e by fastforce
  have "w1 = w' \<and> (case Option.bind decision pd_replacement of
          None \<Rightarrow> rq_method req' = PATCH \<and> rq_body req' = rq_body req \<and> rq_contentType req' = rq_contentType req
        | Some b \<Rightarrow> rq_method req' = PUT \<and> rq_body req' = Some b \<and> rq_contentType req' = ''application/json'')"
    using assms True i e r d same
    by (cases "Option.bind decision pd_replacement"; cases patch) (auto simp: stage_patch_def restoreBody_def)
  with True i e r d show ?thesis by auto
qed

lemma writes_are_not_patches: "writesObject req \<Longrightarrow> rq_method req \<noteq> PATCH"
  by (auto simp: writesObject_def method_defs)

section \<open>Properties\<close>

text \<open>
  C9. No request leaves the workspace. Whatever path a client sends (as long as it starts with a
  slash, as every path routed here does), a request that is handed over is addressed to the
  workspace's own server, at the workspace's path followed by nothing but plain segments: no dot
  segment, no doubled slash, nothing that resolves elsewhere, and exactly the segments the
  authorization decision was made about.
\<close>
theorem requests_stay_in_the_workspace:
  assumes "ServeHTTP env p req (mirror, w) = (Handed px, st')"
    and "has_prefix (url_path (rq_url req)) [slash]"
    and "has_prefix (url_path (rp_location p)) [slash]"
  shows "\<exists>segs. (\<forall>s\<in>set segs. normal_seg s) \<and>
     (url_path (rq_url req) = rooted_path segs \<or> url_path (rq_url req) = rooted_path segs @ [slash]) \<and>
     url_base (px_target px) = url_base (rp_location p) \<and>
     url_query (px_target px) = url_query (rq_url req) \<and>
     url_path (px_target px) =
       (let base = path_clean (url_path (rp_location p)) in
        if segs = [] then base else if base = [slash] then rooted_path segs else base @ rooted_path segs) \<and>
     has_prefix (url_path (px_target px)) (url_path (rp_location p))"
proof -
  from ServeHTTP_handed[OF assms(1)] obtain req1 w1 req2 w2 where
    c: "canonicalPath (url_path (rq_url req))"
    and s1: "stage_write env p req w = (Ok req1, w1)" and s2: "stage_patch env p req1 w1 = (Ok req2, w2)"
    and h: "hand_over p req2 (deadline_for p req) = Handed px" by blast
  have u: "rq_url req2 = rq_url req" using stage_write_url[OF s1] stage_patch_url[OF s2] by simp
  from canonical_cases[OF c assms(2)] obtain segs where
    segs: "\<forall>s\<in>set segs. normal_seg s"
    "url_path (rq_url req) = rooted_path segs \<or> url_path (rq_url req) = rooted_path segs @ [slash]" by blast
  have t: "px_target px = targetFor p req2" "has_prefix (url_path (targetFor p req2)) (url_path (rp_location p))"
    using hand_over_handed[OF h] by auto
  have "url_path (px_target px) =
       (let base = path_clean (url_path (rp_location p)) in
        if segs = [] then base else if base = [slash] then rooted_path segs else base @ rooted_path segs)"
    using target_path[OF assms(3) segs] t(1) u by (simp add: targetFor_def Let_def)
  with segs t u show ?thesis by (intro exI[of _ segs]) (simp add: targetFor_def)
qed

lemma write_handed:
  assumes "ServeHTTP env p req (mirror, w) = (Handed px, st')" and "writesObject req"
  shows "\<exists>object body out w1.
      inspectWrite (pe_decode env) req = (object, body, None) \<and>
      checkOwnerReferences (pe_parse_gv env) object (rp_served p w) = None \<and>
      run_admission (pe_decode env) (rp_admission p) req object w = (Ok out, w1) \<and>
      rq_method (px_request px) = rq_method req \<and>
      (case out of None \<Rightarrow> rq_body (px_request px) = rq_body req
       | Some m \<Rightarrow> \<exists>b. pe_encode env m = Ok b \<and> rq_body (px_request px) = Some b)"
proof -
  from ServeHTTP_handed[OF assms(1)] obtain req1 w1 req2 w2 where
    s1: "stage_write env p req w = (Ok req1, w1)" and s2: "stage_patch env p req1 w1 = (Ok req2, w2)"
    and h: "hand_over p req2 (deadline_for p req) = Handed px" by blast
  have m1: "rq_method req1 = rq_method req" using stage_write_url[OF s1] by simp
  then have "req2 = req1" using stage_patch_ok[OF s2] writes_are_not_patches[OF assms(2)] by simp
  then have px: "rq_method (px_request px) = rq_method req" "rq_body (px_request px) = rq_body req1"
    using hand_over_handed[OF h] m1 by auto
  from stage_write_ok[OF s1] assms(2) show ?thesis unfolding px by auto
qed

lemma other_handed:
  assumes "ServeHTTP env p req (mirror, w) = (Handed px, st')" and "\<not> writesObject req"
  shows "if rq_method req = PATCH then
       (\<exists>object patch decision w1.
          inspectWrite (pe_decode env) req = (object, patch, None) \<and>
          run_patch (pe_decode env) (pe_encode env) (rp_admission p) req patch w = (Ok decision, w1) \<and>
          (case Option.bind decision pd_replacement of
             None \<Rightarrow> rq_method (px_request px) = PATCH \<and> rq_body (px_request px) = rq_body req
           | Some b \<Rightarrow> rq_method (px_request px) = PUT \<and> rq_body (px_request px) = Some b))
     else rq_method (px_request px) = rq_method req \<and> rq_body (px_request px) = rq_body req"
proof -
  from ServeHTTP_handed[OF assms(1)] obtain req1 w1 req2 w2 where
    s1: "stage_write env p req w = (Ok req1, w1)" and s2: "stage_patch env p req1 w1 = (Ok req2, w2)"
    and h: "hand_over p req2 (deadline_for p req) = Handed px" by blast
  have px: "rq_method (px_request px) = rq_method req2" "rq_body (px_request px) = rq_body req2"
    using hand_over_handed[OF h] by auto
  have r1: "req1 = req" "w1 = w" using stage_write_ok[OF s1] assms(2) by auto
  show ?thesis
  proof (cases "rq_method req = PATCH")
    case True
    from stage_patch_ok[OF s2] True r1 obtain object patch decision where
      i: "inspectWrite (pe_decode env) req = (object, patch, None)"
      "run_patch (pe_decode env) (pe_encode env) (rp_admission p) req patch w = (Ok decision, w2)"
      and d: "case Option.bind decision pd_replacement of
          None \<Rightarrow> rq_method req2 = PATCH \<and> rq_body req2 = rq_body req \<and> rq_contentType req2 = rq_contentType req
        | Some b \<Rightarrow> rq_method req2 = PUT \<and> rq_body req2 = Some b \<and> rq_contentType req2 = ''application/json''"
      by auto
    have "case Option.bind decision pd_replacement of
          None \<Rightarrow> rq_method (px_request px) = PATCH \<and> rq_body (px_request px) = rq_body req
        | Some b \<Rightarrow> rq_method (px_request px) = PUT \<and> rq_body (px_request px) = Some b"
      using d px by (cases "Option.bind decision pd_replacement") simp_all
    with i True show ?thesis by auto
  qed (use stage_patch_ok[OF s2] r1 px in simp)
qed


text \<open>
  C10. Credentials do not cross over. What is handed over never carries the caller's
  Authorization; with impersonation it is made in the name of exactly the authenticated caller, and
  never without one, and without impersonation in nobody's; and it carries a deadline exactly when
  one is configured and it is not a watch.
\<close>
theorem credentials_do_not_cross:
  assumes "ServeHTTP env p req (mirror, w) = (Handed px, st')"
  shows "rq_authorization (px_request px) = None \<and>
     px_impersonating px = (if rp_impersonate p then rq_user req else None) \<and>
     (rp_impersonate p \<longrightarrow> (\<exists>u. px_impersonating px = Some u)) \<and>
     px_deadline px = (if 0 < rp_timeout p \<and> \<not> isWatch req then Some (rp_timeout p) else None)"
proof -
  from ServeHTTP_handed[OF assms] obtain req1 w1 req2 w2 where
    s1: "stage_write env p req w = (Ok req1, w1)" and s2: "stage_patch env p req1 w1 = (Ok req2, w2)"
    and h: "hand_over p req2 (deadline_for p req) = Handed px" by blast
  have "rq_user req2 = rq_user req" using stage_write_url[OF s1] stage_patch_url[OF s2] by simp
  with hand_over_handed[OF h] show ?thesis by (auto simp: deadline_for_def)
qed

definition sample_env :: "unit proxy_env" where
  "sample_env = \<lparr>pe_decode = sample_decode, pe_encode = (\<lambda>ob. Ok (ob_content ob)),
     pe_parse_gv = (\<lambda>_. Ok (GV ''a.b.c'' ''v1'')),
     pe_namespaces = \<lparr>nb_fetch = (\<lambda>_ w. (Ok [], w)), nb_create = (\<lambda>_ _ w. (Ok [], w))\<rparr>,
     pe_marshal = (\<lambda>_. Ok []), pe_now = (\<lambda>_. 0)\<rparr>"

definition sample_proxy :: "unit resourceProxy" where
  "sample_proxy = \<lparr>rp_location = \<lparr>url_base = ''https://kcp'', url_path = ''/clusters/a'', url_query = Map.empty\<rparr>,
     rp_impersonate = True, rp_timeout = 30, rp_served = (\<lambda>_. {''a.b.c''}), rp_admission = None\<rparr>"

definition sample_call :: http_request where
  "sample_call = (sample_write POST ''/apis/a.b.c/v1/widgets'')\<lparr>rq_user := Some sample_user\<rparr>"

lemma inspect_ignores_user: "inspectWrite decode (req\<lparr>rq_user := u\<rparr>) = inspectWrite decode req"
  by (simp add: inspectWrite_def cong: option.case_cong if_cong)

lemma sample_call_handed:
  "\<exists>px. ServeHTTP sample_env sample_proxy sample_call (None, ()) = (Handed px, (None, ()))"
proof -
  have c: "canonicalPath ''/apis/a.b.c/v1/widgets''" by code_simp
  have j: "path_join [''/clusters/a'', ''/apis/a.b.c/v1/widgets''] = ''/clusters/a/apis/a.b.c/v1/widgets''"
    by code_simp
  have i: "inspectWrite sample_decode sample_call = (sample_decode ''{}'', Some ''{}'', None)"
    unfolding sample_call_def inspect_ignores_user by (rule sample_inspected)
  have k: "checkOwnerReferences (\<lambda>_. Ok (GV ''a.b.c'' ''v1'')) (sample_decode ''{}'') {''a.b.c''} = None"
    by (simp add: checkOwnerReferences_def sample_decode_def)
  have m: "rq_method sample_call = POST" "url_path (rq_url sample_call) = ''/apis/a.b.c/v1/widgets''"
    "rq_user sample_call = Some sample_user"
    by (simp_all add: sample_call_def sample_write_def)
  have s1: "stage_write sample_env sample_proxy sample_call () = (Ok (restoreBody sample_call ''{}''), ())"
    using i k m by (simp add: stage_write_def sample_env_def sample_proxy_def writesObject_def run_admission_def)
  have s2: "stage_patch sample_env sample_proxy (restoreBody sample_call ''{}'') () = (Ok (restoreBody sample_call ''{}''), ())"
    using m by (simp add: stage_patch_def restoreBody_def method_defs)
  show ?thesis
    using s1 s2 m c j
    by (simp add: ServeHTTP_def stage_namespace_def hand_over_def targetFor_def restoreBody_def
        sample_proxy_def Let_def has_prefix_def)
qed

theorem requests_stay_in_the_workspace_witness:
  "\<exists>px st'. ServeHTTP sample_env sample_proxy sample_call (None, ()) = (Handed px, st') \<and>
     has_prefix (url_path (px_target px)) ''/clusters/a'' \<and> url_base (px_target px) = ''https://kcp''"
proof -
  obtain px st' where h: "ServeHTTP sample_env sample_proxy sample_call (None, ()) = (Handed px, st')"
    using sample_call_handed by blast
  have a: "has_prefix (url_path (rq_url sample_call)) [slash]"
    and b: "has_prefix (url_path (rp_location sample_proxy)) [slash]"
    by (simp_all add: sample_call_def sample_write_def sample_proxy_def has_prefix_def)
  have loc: "url_base (rp_location sample_proxy) = ''https://kcp''"
    "url_path (rp_location sample_proxy) = ''/clusters/a''" by (simp_all add: sample_proxy_def)
  from requests_stay_in_the_workspace[OF h a b]
  have "has_prefix (url_path (px_target px)) ''/clusters/a'' \<and> url_base (px_target px) = ''https://kcp''"
    unfolding loc by blast
  with h show ?thesis by blast
qed


theorem credentials_do_not_cross_witness:
  "\<exists>px st'. ServeHTTP sample_env sample_proxy sample_call (None, ()) = (Handed px, st') \<and>
     rq_authorization sample_call \<noteq> None \<and> rq_authorization (px_request px) = None \<and>
     px_impersonating px = Some sample_user"
proof -
  obtain px st' where h: "ServeHTTP sample_env sample_proxy sample_call (None, ()) = (Handed px, st')"
    using sample_call_handed by blast
  from credentials_do_not_cross[OF h]
  have "rq_authorization (px_request px) = None \<and> px_impersonating px = Some sample_user"
    by (auto simp: sample_proxy_def sample_call_def)
  moreover have "rq_authorization sample_call \<noteq> None" by (simp add: sample_call_def sample_write_def)
  ultimately show ?thesis using h by blast
qed

end
