(* ===== verification/Document_Cache.thy ===== *)
theory Document_Cache
  imports Keyed_Cache K8s
begin

text \<open>
  \<open>pkg/apiserver/openapicache.go\<close>: an OpenAPI document kept for the generation it was built from.
  Building is a state passing function over a world; the mutex makes each \<open>get\<close> one step.
\<close>

record documentCache =
  doc_document :: string
  doc_generation :: "64 word"
  doc_built :: bool

definition newDocumentCache :: documentCache where
  "newDocumentCache = \<lparr>doc_document = [], doc_generation = 0, doc_built = False\<rparr>"

definition doc_get :: "('w \<Rightarrow> ('e, string) result \<times> 'w) \<Rightarrow> 64 word \<Rightarrow> documentCache \<times> 'w \<Rightarrow>
    ('e, string) result \<times> (documentCache \<times> 'w)" where
  "doc_get build generation st =
     (case st of (c, w) \<Rightarrow>
        if doc_built c \<and> doc_generation c = generation then (Ok (doc_document c), (c, w))
        else (case build w of
                (Err e, w') \<Rightarrow>
                  if doc_built c then (Ok (doc_document c), (c, w')) else (Err e, (c, w'))
              | (Ok document, w') \<Rightarrow>
                  (Ok document,
                   (c\<lparr>doc_document := document, doc_generation := generation, doc_built := True\<rparr>, w'))))"

definition invalidate :: "documentCache \<Rightarrow> documentCache" where
  "invalidate c = c\<lparr>doc_built := False\<rparr>"

definition held_document :: "documentCache \<Rightarrow> (64 word \<times> string) option" where
  "held_document c = (if doc_built c then Some (doc_generation c, doc_document c) else None)"

definition put_document :: "64 word \<Rightarrow> string \<Rightarrow> documentCache \<Rightarrow> documentCache" where
  "put_document g d c = c\<lparr>doc_document := d, doc_generation := g, doc_built := True\<rparr>"

interpretation documents: keyed_cache held_document put_document
  by unfold_locales (simp add: held_document_def put_document_def)

lemma doc_get_cases:
  "doc_get build g (c, w) =
     (case documents.hit c g of
        Some d \<Rightarrow> (Ok d, (c, w))
      | None \<Rightarrow>
          (case build w of
             (Ok d, w') \<Rightarrow> (Ok d, (put_document g d c, w'))
           | (Err e, w') \<Rightarrow>
               (case held_document c of None \<Rightarrow> (Err e, (c, w')) | Some (_, d) \<Rightarrow> (Ok d, (c, w')))))"
  by (auto simp: doc_get_def documents.hit_def held_document_def put_document_def
      split: prod.splits sum.splits)

text \<open>A sequence of requests, each for the generation current when it came.\<close>

fun doc_gets :: "('w \<Rightarrow> ('e, string) result \<times> 'w) \<Rightarrow> 64 word list \<Rightarrow> documentCache \<times> 'w \<Rightarrow>
    ('e, string) result list \<times> (documentCache \<times> 'w)" where
  "doc_gets build [] st = ([], st)"
| "doc_gets build (g # gs) st =
     (case doc_get build g st of (r, st') \<Rightarrow> (case doc_gets build gs st' of (rs, st'') \<Rightarrow> (r # rs, st'')))"

lemma remdups_adj_length_Cons:
  "length (remdups_adj (g # gs)) = (if gs \<noteq> [] \<and> hd gs = g then 0 else 1) + length (remdups_adj gs)"
  by (cases gs) auto

lemma doc_gets_builds:
  assumes "\<And>w. is_ok (fst (build w)) \<and> count (snd (build w)) = Suc (count w)"
  shows "doc_gets build gs (c, w) = (rs, (c', w')) \<Longrightarrow>
     count w' = count w + length (remdups_adj gs)
       - (if gs \<noteq> [] \<and> documents.hit c (hd gs) \<noteq> None then 1 else 0) \<and>
     (gs \<noteq> [] \<longrightarrow> documents.hit c' (last gs) \<noteq> None)"
proof (induction gs arbitrary: c w rs)
  case Nil
  then show ?case by simp
next
  case (Cons g gs)
  obtain r c1 w1 where get: "doc_get build g (c, w) = (r, (c1, w1))" by (metis surj_pair)
  obtain rs1 where rest: "doc_gets build gs (c1, w1) = (rs1, (c', w'))"
    using Cons.prems get by (auto split: prod.splits)
  obtain d wb where b: "build w = (Ok d, wb)" and n: "count wb = Suc (count w)"
    using assms[of w] by (cases "build w") (auto simp: is_ok_iff)
  have hit1: "documents.hit c1 g \<noteq> None \<and> (\<forall>g'. g' \<noteq> g \<longrightarrow> documents.hit c1 g' = None)"
    and count1: "count w1 = count w + (if documents.hit c g = None then 1 else 0)"
  proof -
    have "documents.hit c1 g \<noteq> None \<and> (\<forall>g'. g' \<noteq> g \<longrightarrow> documents.hit c1 g' = None) \<and>
        count w1 = count w + (if documents.hit c g = None then 1 else 0)"
    proof (cases "documents.hit c g")
      case None
      with get b n show ?thesis by (auto simp: doc_get_cases documents.hit_after_put)
    next
      case (Some d')
      then have "held_document c = Some (g, d')" by (simp add: documents.hit_iff)
      then have "documents.hit c g' = None" if "g' \<noteq> g" for g'
        using that by (simp add: documents.hit_def)
      with Some get show ?thesis by (auto simp: doc_get_cases)
    qed
    then show "documents.hit c1 g \<noteq> None \<and> (\<forall>g'. g' \<noteq> g \<longrightarrow> documents.hit c1 g' = None)"
      and "count w1 = count w + (if documents.hit c g = None then 1 else 0)" by auto
  qed
  note IH = Cons.IH[OF rest]
  show ?case
  proof (cases gs)
    case Nil
    with rest IH hit1 count1 show ?thesis by simp
  next
    case (Cons g2 gs2)
    have pos: "0 < length (remdups_adj gs)" using Cons by simp
    have "documents.hit c1 (hd gs) \<noteq> None \<longleftrightarrow> hd gs = g" using hit1 by auto
    with IH count1 pos Cons show ?thesis
      by (simp add: remdups_adj_length_Cons[of g gs])
  qed
qed

section \<open>Properties\<close>

text \<open>
  Polling costs one build per change of the API surface: while builds succeed, any sequence of
  requests builds exactly as many documents as there are runs of one generation in it, however often
  each is asked for.
\<close>
lemma one_build_per_generation:
  assumes "\<forall>w. is_ok (fst (build w)) \<and> count (snd (build w)) = Suc (count w)"
    and "doc_gets build gs (newDocumentCache, w) = (rs, (c', w'))"
  shows "count w' = count w + length (remdups_adj gs)"
  using doc_gets_builds[where build = build and count = count, of gs newDocumentCache w rs c' w'] assms
  by (simp add: newDocumentCache_def documents.hit_def held_document_def split: if_splits)

lemma one_build_per_generation_witness:
  "\<exists>rs c' w'. doc_gets (\<lambda>w. (Ok ''doc'' :: (string, string) result, Suc w)) [1, 1, 1, 2, 2]
      (newDocumentCache, 0) = (rs, (c', w')) \<and> w' = 2"
proof -
  have b: "\<forall>w. is_ok (fst (Ok ''doc'' :: (string, string) result, Suc w)) \<and>
      id (snd (Ok ''doc'' :: (string, string) result, Suc w)) = Suc (id w)" by simp
  obtain rs c' w' where out: "doc_gets (\<lambda>w. (Ok ''doc'' :: (string, string) result, Suc w)) [1, 1, 1, 2, 2]
      (newDocumentCache, 0) = (rs, (c', w'))" by (metis surj_pair)
  show ?thesis using one_build_per_generation[OF b out] out by simp
qed

text \<open>
  A failed rebuild costs nothing but freshness: the document already held keeps being served,
  nothing is recorded as built, and the next request for the generation tries again; only when
  nothing was ever built is the error returned.
\<close>
theorem failed_rebuild_keeps_serving:
  assumes "build w = (Err e, w')" and "documents.hit c g = None"
  shows "doc_get build g (c, w) =
           ((case held_document c of None \<Rightarrow> Err e | Some (_, d) \<Rightarrow> Ok d), (c, w')) \<and>
         (\<forall>d w''. build w' = (Ok d, w'') \<longrightarrow>
            (\<exists>c''. doc_get build g (snd (doc_get build g (c, w))) = (Ok d, (c'', w'')) \<and>
                   held_document c'' = Some (g, d)))"
  using assms
  by (auto simp: doc_get_cases documents.held_put split: option.splits)

theorem failed_rebuild_keeps_serving_witness:
  "fst (doc_get (\<lambda>w. (Err ''down'' :: (string, string) result, w)) 7
     (put_document 6 ''old'' newDocumentCache, ())) = Ok ''old''"
proof -
  let ?c = "put_document 6 ''old'' newDocumentCache"
  have h: "documents.hit ?c 7 = None" by (simp add: documents.hit_after_put)
  have b: "(\<lambda>w. (Err ''down'' :: (string, string) result, w)) () = (Err ''down'', ())" by simp
  show ?thesis
    using failed_rebuild_keeps_serving[where build = "\<lambda>w. (Err ''down'' :: (string, string) result, w)", OF b h]
    by (simp add: documents.held_put)
qed

end
