(* ===== verification/OpenAPI.thy ===== *)
theory OpenAPI
  imports Proxy Router Document_Cache
begin

text \<open>
  \<open>pkg/apiserver/openapi.go\<close>: OpenAPI documents for the offloaded groups. The v3 documents are the
  workspaces' own, fetched by path; the v3 index is the union of theirs, filtered; the v2 document is
  built from their CustomResourceDefinitions. The JSON codec and the v2 builder and merger of
  apiextensions and kube-openapi are parameters. A request reads one state \<open>'s\<close> of the workspaces, and
  its fetches go over a world \<open>'w\<close>.
\<close>

section \<open>The handler\<close>

type_synonym 'w specFetcher = "string \<Rightarrow> 'w \<Rightarrow> (backend_error, string) result \<times> 'w"

record ('s, 'w) openAPIHandler =
  oa_view :: "'s \<Rightarrow> Snapshot"
  oa_groups :: "'s \<Rightarrow> string set"
  oa_fetcher :: "('s \<Rightarrow> string \<Rightarrow> 'w specFetcher option) option"
  oa_fetchers :: "('s \<Rightarrow> (string \<times> 'w specFetcher) list) option"
  oa_generation :: "('s \<Rightarrow> 64 word) option"

definition currentGeneration :: "('s, 'w) openAPIHandler \<Rightarrow> 's \<Rightarrow> 64 word" where
  "currentGeneration h s = (case oa_generation h of None \<Rightarrow> 0 | Some f \<Rightarrow> f s)"

definition spec_sources :: "('s, 'w) openAPIHandler \<Rightarrow> 's \<Rightarrow> (string \<times> 'w specFetcher) list" where
  "spec_sources h s = (case oa_fetchers h of None \<Rightarrow> [] | Some f \<Rightarrow> f s)"

definition sourceFor :: "('s, 'w) openAPIHandler \<Rightarrow> 's \<Rightarrow> string \<Rightarrow> 'w specFetcher option" where
  "sourceFor h s g = (case oa_fetcher h of None \<Rightarrow> None | Some f \<Rightarrow> if g = [] then None else f s g)"

definition groupFromDocumentPath :: "string \<Rightarrow> string" where
  "groupFromDocumentPath path =
     (let segments = split_on slash (trim_char slash path)
      in if length segments < 4 \<or> segments ! 0 \<noteq> ''openapi'' \<or> segments ! 2 \<noteq> ''apis'' then []
         else segments ! 3)"

definition openapi_owns :: "('s, 'w) openAPIHandler \<Rightarrow> 's \<Rightarrow> string \<Rightarrow> bool" where
  "openapi_owns h s path =
     (let segments = split_on slash (trim_char slash path)
      in if length segments < 3 \<or> segments ! 0 \<noteq> ''apis'' then False
         else if segments ! 1 \<notin> oa_groups h s then False
         else sn_Resources (oa_view h s) (GV (segments ! 1) (segments ! 2)) \<noteq> None)"

section \<open>One document\<close>

datatype 'e spec_answer =
    SpecNotCanonical string
  | SpecNotFound string
  | SpecUnavailable 'e
  | SpecDocument string

definition spec_prefix :: string where
  "spec_prefix = ''/openapi/v3/''"

definition serveSpec :: "('s, 'w) openAPIHandler \<Rightarrow> 's \<Rightarrow> string \<Rightarrow> 'w \<Rightarrow> backend_error spec_answer \<times> 'w" where
  "serveSpec h s path w =
     (if \<not> canonicalPath path then (SpecNotCanonical path, w)
      else if \<not> openapi_owns h s (trim_prefix path spec_prefix) then (SpecNotFound path, w)
      else (case sourceFor h s (groupFromDocumentPath path) of
              None \<Rightarrow> (SpecNotFound path, w)
            | Some fetcher \<Rightarrow>
                (case fetcher path w of
                   (Err e, w') \<Rightarrow> (SpecUnavailable e, w')
                 | (Ok raw, w') \<Rightarrow> (SpecDocument raw, w'))))"

text \<open>What a client is answered; \<open>writeUnavailable\<close> is the answer when kcp does not give the document.\<close>

datatype openapi_reply = OpenAPIDocument string | OpenAPIError int

definition writeUnavailable :: openapi_reply where
  "writeUnavailable = OpenAPIError 503"

definition spec_reply :: "'e spec_answer \<Rightarrow> openapi_reply" where
  "spec_reply a =
     (case a of
        SpecNotCanonical _ \<Rightarrow> OpenAPIError 400
      | SpecNotFound _ \<Rightarrow> OpenAPIError 404
      | SpecUnavailable _ \<Rightarrow> writeUnavailable
      | SpecDocument document \<Rightarrow> OpenAPIDocument document)"

section \<open>The v3 index\<close>

datatype index_error =
    IndexFetch string backend_error
  | IndexParse string string
  | IndexEncode string

fun build_index :: "(string \<Rightarrow> (string, string \<rightharpoonup> string) result) \<Rightarrow> (string \<Rightarrow> bool) \<Rightarrow>
    (string \<times> 'w specFetcher) list \<Rightarrow> (string \<rightharpoonup> string) \<Rightarrow> 'w \<Rightarrow> (index_error, string \<rightharpoonup> string) result \<times> 'w" where
  "build_index unmarshal owned [] paths w = (Ok paths, w)"
| "build_index unmarshal owned ((name, fetcher) # sources) paths w =
     (case fetcher ''/openapi/v3'' w of
        (Err e, w') \<Rightarrow> (Err (IndexFetch name e), w')
      | (Ok raw, w') \<Rightarrow>
          (case unmarshal raw of
             Err e \<Rightarrow> (Err (IndexParse name e), w')
           | Ok index \<Rightarrow>
               build_index unmarshal owned sources
                 (\<lambda>p. if index p \<noteq> None \<and> owned p then index p else paths p) w'))"

definition buildIndex :: "(string \<Rightarrow> (string, string \<rightharpoonup> string) result) \<Rightarrow> ((string \<rightharpoonup> string) \<Rightarrow> (string, string) result) \<Rightarrow>
    ('s, 'w) openAPIHandler \<Rightarrow> 's \<Rightarrow> 'w \<Rightarrow> (index_error, string) result \<times> 'w" where
  "buildIndex unmarshal marshal h s w =
     (case build_index unmarshal (openapi_owns h s) (spec_sources h s) Map.empty w of
        (Err e, w') \<Rightarrow> (Err e, w')
      | (Ok paths, w') \<Rightarrow>
          ((case marshal paths of Err e \<Rightarrow> Err (IndexEncode e) | Ok document \<Rightarrow> Ok document), w'))"

definition serveDiscovery :: "(string \<Rightarrow> (string, string \<rightharpoonup> string) result) \<Rightarrow> ((string \<rightharpoonup> string) \<Rightarrow> (string, string) result) \<Rightarrow>
    ('s, 'w) openAPIHandler \<Rightarrow> 's \<Rightarrow> documentCache \<times> 'w \<Rightarrow> index_error spec_answer \<times> (documentCache \<times> 'w)" where
  "serveDiscovery unmarshal marshal h s st =
     (case doc_get (buildIndex unmarshal marshal h s) (currentGeneration h s) st of
        (Err e, st') \<Rightarrow> (SpecUnavailable e, st') | (Ok document, st') \<Rightarrow> (SpecDocument document, st'))"

section \<open>The v2 document\<close>

record ('piece, 'doc) v2_builder =
  vb_empty :: 'doc
  vb_build :: "crd \<Rightarrow> string \<Rightarrow> (string, 'piece) result"
  vb_merge :: "'doc \<Rightarrow> 'piece \<Rightarrow> (string, 'doc) result"
  vb_marshal :: "'doc \<Rightarrow> (string, string) result"

datatype v2_error =
    NobodyAnswered
  | BuildingV2 string string string
  | MergingV2 string string string
  | EncodingV2 string

text \<open>\<open>buildV2\<close> (the function): the loops over the definitions and their versions.\<close>

fun v2_versions :: "('piece, 'doc) v2_builder \<Rightarrow> crd \<Rightarrow> crd_version list \<Rightarrow> 'doc \<Rightarrow> (v2_error, 'doc) result" where
  "v2_versions b c [] document = Ok document"
| "v2_versions b c (v # vs) document =
     (if \<not> cv_Served v then v2_versions b c vs document
      else (case vb_build b c (cv_Name v) of
              Err e \<Rightarrow> Err (BuildingV2 (crd_Name c) (cv_Name v) e)
            | Ok built \<Rightarrow>
                (case vb_merge b document built of
                   Err e \<Rightarrow> Err (MergingV2 (crd_Name c) (cv_Name v) e)
                 | Ok document' \<Rightarrow> v2_versions b c vs document')))"

fun buildV2 :: "('piece, 'doc) v2_builder \<Rightarrow> crd list \<Rightarrow> string set \<Rightarrow> 'doc \<Rightarrow> (v2_error, 'doc) result" where
  "buildV2 b [] served document = Ok document"
| "buildV2 b (c # cs) served document =
     (if crd_Group c \<notin> served then buildV2 b cs served document
      else (case v2_versions b c (crd_Versions c) document of
              Err e \<Rightarrow> Err e | Ok document' \<Rightarrow> buildV2 b cs served document'))"

text \<open>The loop of the handler's \<open>buildV2\<close>: the definitions so far, and how many sources failed.\<close>

fun collect_definitions :: "(string \<Rightarrow> (string, crd list) result) \<Rightarrow> (string \<times> 'w specFetcher) list \<Rightarrow>
    crd list \<times> nat \<Rightarrow> 'w \<Rightarrow> (crd list \<times> nat) \<times> 'w" where
  "collect_definitions decodeCRDList [] acc w = (acc, w)"
| "collect_definitions decodeCRDList ((name, fetcher) # sources) (definitions, failed) w =
     (case fetcher crdPath w of
        (Err _, w') \<Rightarrow> collect_definitions decodeCRDList sources (definitions, failed + 1) w'
      | (Ok raw, w') \<Rightarrow>
          (case decodeCRDList raw of
             Err _ \<Rightarrow> collect_definitions decodeCRDList sources (definitions, failed + 1) w'
           | Ok items \<Rightarrow> collect_definitions decodeCRDList sources (definitions @ items, failed) w'))"

definition handler_buildV2 :: "(string \<Rightarrow> (string, crd list) result) \<Rightarrow> ('piece, 'doc) v2_builder \<Rightarrow>
    ('s, 'w) openAPIHandler \<Rightarrow> 's \<Rightarrow> 'w \<Rightarrow> (v2_error, string) result \<times> 'w" where
  "handler_buildV2 decodeCRDList b h s w =
     (case collect_definitions decodeCRDList (spec_sources h s) ([], 0) w of
        ((definitions, failed), w') \<Rightarrow>
          if 0 < length (spec_sources h s) \<and> failed = length (spec_sources h s) then (Err NobodyAnswered, w')
          else ((case buildV2 b definitions (oa_groups h s) (vb_empty b) of
                   Err e \<Rightarrow> Err e
                 | Ok document \<Rightarrow>
                     (case vb_marshal b document of Err e \<Rightarrow> Err (EncodingV2 e) | Ok encoded \<Rightarrow> Ok encoded)), w'))"

definition serveV2 :: "(string \<Rightarrow> (string, crd list) result) \<Rightarrow> ('piece, 'doc) v2_builder \<Rightarrow>
    ('s, 'w) openAPIHandler \<Rightarrow> 's \<Rightarrow> documentCache \<times> 'w \<Rightarrow> v2_error spec_answer \<times> (documentCache \<times> 'w)" where
  "serveV2 decodeCRDList b h s st =
     (case doc_get (handler_buildV2 decodeCRDList b h s) (currentGeneration h s) st of
        (Err e, st') \<Rightarrow> (SpecUnavailable e, st') | (Ok document, st') \<Rightarrow> (SpecDocument document, st'))"

text \<open>The two documents that are kept, and \<open>prepare\<close>, which starts them empty.\<close>

record openapi_documents =
  od_index :: documentCache
  od_v2 :: documentCache

definition prepare :: openapi_documents where
  "prepare = \<lparr>od_index = newDocumentCache, od_v2 = newDocumentCache\<rparr>"

text \<open>The handler \<open>New\<close> builds (\<open>apiserver.go\<close>), over the router; \<open>side a\<close> is the transport of the workspace at \<open>a\<close>.\<close>

definition router_openapi :: "(url \<Rightarrow> bool) \<Rightarrow> (addr \<Rightarrow> 'w transport) \<Rightarrow> ('p store \<times> router, 'w) openAPIHandler" where
  "router_openapi ok side =
     \<lparr>oa_view = (\<lambda>s. fst (router_Snapshot (fst s) (snd s))),
      oa_groups = (\<lambda>s. fst (router_ServedGroups (fst s) (snd s))),
      oa_fetcher = Some (\<lambda>s g. map_option (\<lambda>f. fetchSpec ok (side (fst f)) (snd f)) (fst (fetcherFor (fst s) (snd s) g))),
      oa_fetchers = Some (\<lambda>s. map (\<lambda>nf. (fst nf, fetchSpec ok (side (fst (snd nf))) (snd (snd nf)))) (fetchers (fst s) (snd s))),
      oa_generation = Some (\<lambda>s. Generation (fst s) (snd s))\<rparr>"

section \<open>Paths of documents\<close>

text \<open>A document's path: the version's, and whatever plain segments follow it.\<close>

definition document_path :: "string \<Rightarrow> string \<Rightarrow> string list \<Rightarrow> string" where
  "document_path g v deeper = rooted_path (''openapi'' # ''v3'' # ''apis'' # g # v # deeper)"

lemma trim_char_rooted:
  assumes "ss \<noteq> []" and "\<forall>s\<in>set ss. normal_seg s"
  shows "trim_char slash (rooted_path ss) = join [slash] ss"
    and "trim_char slash (rooted_path ss @ [slash]) = join [slash] ss"
    and "trim_char slash (join [slash] ss) = join [slash] ss"
    and "trim_char slash (join [slash] ss @ [slash]) = join [slash] ss"
proof -
  let ?j = "join [slash] ss"
  have edge: "?j \<noteq> [] \<and> hd ?j \<noteq> slash \<and> last ?j \<noteq> slash"
  proof -
    obtain a rest where a: "ss = a # rest" using assms(1) by (cases ss) auto
    obtain front b where b: "ss = front @ [b]" using assms(1) by (metis rev_exhaust)
    have "a \<in> set ss" by (simp add: a)
    with assms(2) have na: "a \<noteq> []" "slash \<notin> set a" by (auto simp: normal_seg_def)
    have "b \<in> set ss" by (simp add: b)
    with assms(2) have nb: "b \<noteq> []" "slash \<notin> set b" by (auto simp: normal_seg_def)
    have "hd ?j = hd a" using na(1) a by (cases rest) simp_all
    moreover have "last ?j = last b"
    proof (cases "front = []")
      case True
      then show ?thesis by (simp add: b)
    next
      case False
      then show ?thesis using nb(1) by (simp add: b join_append_seg)
    qed
    moreover have "?j \<noteq> []" using na(1) a by (cases rest) simp_all
    ultimately show ?thesis using na nb by (metis hd_in_set last_in_set)
  qed
  have dw: "dropWhile (\<lambda>x. x = slash) xs = xs" if "xs \<noteq> []" "hd xs \<noteq> slash" for xs
    using that by (cases xs) auto
  have l: "dropWhile (\<lambda>x. x = slash) ?j = ?j" "dropWhile (\<lambda>x. x = slash) (?j @ [slash]) = ?j @ [slash]"
      "dropWhile (\<lambda>x. x = slash) (rev ?j) = rev ?j"
    using edge by (auto intro!: dw simp: hd_rev)
  show "trim_char slash ?j = ?j" "trim_char slash (?j @ [slash]) = ?j"
    using l by (simp_all add: trim_char_def)
  then show "trim_char slash (rooted_path ss) = ?j" "trim_char slash (rooted_path ss @ [slash]) = ?j"
    using l by (simp_all add: trim_char_def rooted_path_def)
qed

lemma split_joined:
  "ss \<noteq> [] \<Longrightarrow> \<forall>s\<in>set ss. normal_seg s \<Longrightarrow> split_on slash (join [slash] ss) = ss"
  by (rule split_on_join) (auto simp: normal_seg_def)

lemma canonical_spec_path:
  assumes "canonicalPath path" and "has_prefix path spec_prefix"
  obtains rest where "\<forall>s\<in>set rest. normal_seg s"
    "path = rooted_path (''openapi'' # ''v3'' # rest) \<or> path = rooted_path (''openapi'' # ''v3'' # rest) @ [slash]"
proof -
  obtain x where x: "path = spec_prefix @ x" using assms(2) by (auto simp: has_prefix_iff prefix_def)
  then have "has_prefix path [slash]" by (simp add: spec_prefix_def has_prefix_def)
  from canonical_cases[OF assms(1) this] obtain ss where ss: "\<forall>s\<in>set ss. normal_seg s"
    "path = rooted_path ss \<or> path = rooted_path ss @ [slash]" by blast
  have sp: "split_on slash path = [] # ''openapi'' # ''v3'' # split_on slash x"
    using split_on_append[of slash "''/openapi/v3''" x] x by (simp add: spec_prefix_def)
  have ne: "ss \<noteq> []" using ss(2) x by (auto simp: rooted_path_def spec_prefix_def)
  have "split_on slash path = [] # ss \<or> split_on slash path = ([] # ss) @ [[]]"
    using ss(2) split_rooted_path[OF ne ss(1)] split_on_append[of slash "rooted_path ss" "[]"] by auto
  with sp obtain rest where "ss = ''openapi'' # ''v3'' # rest"
  proof (elim disjE)
    assume "split_on slash path = [] # ss"
    with sp that show thesis by simp
  next
    assume e: "split_on slash path = ([] # ss) @ [[]]"
    have "ss @ [[]] = ''openapi'' # ''v3'' # split_on slash x" using e sp by simp
    then have "ss = butlast (''openapi'' # ''v3'' # split_on slash x)" by (metis butlast_snoc)
    then have "ss = ''openapi'' # ''v3'' # butlast (split_on slash x)" by simp
    with that show thesis by blast
  qed
  with ss show thesis using that by auto
qed

lemma rooted_is_canonical:
  assumes "ss \<noteq> []" and "\<forall>s\<in>set ss. normal_seg s"
  shows "canonicalPath (rooted_path ss)"
proof -
  let ?p = "rooted_path ss"
  have "\<not> has_suffix ?p [slash]"
  proof
    assume "has_suffix ?p [slash]"
    then obtain y where "?p = y @ [slash]" by (auto simp: has_suffix_iff suffix_def)
    then have "split_on slash ?p = split_on slash y @ [[]]" using split_on_append[of slash y "[]"] by simp
    then have "last ([] # ss) = []" using split_rooted_path[OF assms] by (metis last_snoc)
    with assms show False by (metis last_ConsR last_in_set normal_seg_def)
  qed
  then have "trim_suffix ?p [slash] = ?p" by (simp add: trim_suffix_def)
  moreover have "?p \<noteq> []" by (simp add: rooted_path_def)
  ultimately show ?thesis using path_clean_rooted_path[OF assms(2)] by (simp add: canonicalPath_def Let_def)
qed

text \<open>What the two readers of a path see in a canonical one.\<close>

lemma spec_path_segments:
  assumes "\<forall>s\<in>set rest. normal_seg s"
    and "path = rooted_path (''openapi'' # ''v3'' # rest) \<or> path = rooted_path (''openapi'' # ''v3'' # rest) @ [slash]"
    and "rest \<noteq> []"
  shows "split_on slash (trim_char slash path) = ''openapi'' # ''v3'' # rest"
    and "split_on slash (trim_char slash (trim_prefix path spec_prefix)) = rest"
proof -
  have n: "normal_seg ''openapi''" "normal_seg ''v3''" by (code_simp)+
  let ?ss = "''openapi'' # ''v3'' # rest"
  have all: "\<forall>s\<in>set ?ss. normal_seg s" using assms(1) n by simp
  show "split_on slash (trim_char slash path) = ?ss"
    using assms(2) trim_char_rooted[OF _ all] split_joined[OF _ all] by auto
  have r: "rooted_path ?ss = spec_prefix @ join [slash] rest"
    using assms(3) by (cases rest) (simp_all add: rooted_path_def spec_prefix_def)
  have "trim_prefix (spec_prefix @ y) spec_prefix = y" for y by (simp add: trim_prefix_def)
  then have "trim_prefix path spec_prefix = join [slash] rest \<or> trim_prefix path spec_prefix = join [slash] rest @ [slash]"
    using assms(2) unfolding r by auto
  then show "split_on slash (trim_char slash (trim_prefix path spec_prefix)) = rest"
    using trim_char_rooted(3,4)[OF assms(3,1)] split_joined[OF assms(3,1)] by auto
qed

lemma router_openapi_simps [simp]:
  "oa_view (router_openapi ok side) (st, r) = view_of (st, r)"
  "oa_groups (router_openapi ok side) (st, r) = dom (sn_Groups (view_of (st, r)))"
  "sourceFor (router_openapi ok side) (st, r) g =
     (if g = [] then None else map_option (\<lambda>a. fetchSpec ok (side a) (ws_backend (st a))) (backer_of (st, r) g))"
  by (simp_all add: router_openapi_def router_Snapshot_def router_ServedGroups_def view_of_def groupNames_def
      sourceFor_def fetcherFor_def servingFor_def backer_of_def split: prod.splits option.splits)

lemma owned_path:
  assumes "canonicalPath path" and "has_prefix path spec_prefix" and "openapi_owns h s (trim_prefix path spec_prefix)"
  shows "\<exists>g v deeper. (path = document_path g v deeper \<or> path = document_path g v deeper @ [slash]) \<and>
    (\<forall>s\<in>set (g # v # deeper). normal_seg s) \<and> sn_Resources (oa_view h s) (GV g v) \<noteq> None \<and>
    groupFromDocumentPath path = g"
proof -
  from canonical_spec_path[OF assms(1,2)] obtain rest where rest: "\<forall>s\<in>set rest. normal_seg s"
    "path = rooted_path (''openapi'' # ''v3'' # rest) \<or> path = rooted_path (''openapi'' # ''v3'' # rest) @ [slash]" .
  have ne: "rest \<noteq> []"
  proof
    assume "rest = []"
    with rest(2) assms(2) have "path = ''/openapi/v3/''" by (auto simp: rooted_path_def has_prefix_def spec_prefix_def)
    moreover have "length (split_on slash (trim_char slash (trim_prefix ''/openapi/v3/'' spec_prefix))) < 3" by code_simp
    ultimately show False using assms(3) by (simp add: openapi_owns_def Let_def)
  qed
  note seg = spec_path_segments[OF rest ne]
  from assms(3) seg(2) have "3 \<le> length rest" "rest ! 0 = ''apis''"
    by (auto simp: openapi_owns_def Let_def split: if_splits)
  then obtain g v deeper where r: "rest = ''apis'' # g # v # deeper"
    by (cases rest; cases "tl rest"; cases "tl (tl rest)") auto
  have "sn_Resources (oa_view h s) (GV g v) \<noteq> None"
    using assms(3) seg(2) r by (auto simp: openapi_owns_def Let_def split: if_splits)
  moreover have "groupFromDocumentPath path = g" using seg(1) r by (simp add: groupFromDocumentPath_def)
  ultimately show ?thesis
    using rest r by (intro exI[of _ g] exI[of _ v] exI[of _ deeper]) (simp add: document_path_def)
qed

lemma document_path_owned:
  assumes "\<forall>s\<in>set (g # v # deeper). normal_seg s" and "sn_Resources (oa_view h s) (GV g v) \<noteq> None" and "g \<in> oa_groups h s"
  shows "canonicalPath (document_path g v deeper)" "openapi_owns h s (trim_prefix (document_path g v deeper) spec_prefix)"
proof -
  let ?rest = "''apis'' # g # v # deeper"
  have n: "normal_seg ''openapi''" "normal_seg ''v3''" "normal_seg ''apis''" by (code_simp)+
  have rest: "\<forall>s\<in>set ?rest. normal_seg s" using assms(1) n by simp
  have all: "\<forall>s\<in>set (''openapi'' # ''v3'' # ?rest). normal_seg s" using rest n by simp
  show "canonicalPath (document_path g v deeper)"
    unfolding document_path_def by (rule rooted_is_canonical[OF _ all]) simp
  have "split_on slash (trim_char slash (trim_prefix (document_path g v deeper) spec_prefix)) = ?rest"
    using spec_path_segments(2)[OF rest, of "document_path g v deeper"] by (simp add: document_path_def)
  then show "openapi_owns h s (trim_prefix (document_path g v deeper) spec_prefix)"
    using assms(2,3) by (auto simp: openapi_owns_def)
qed


section \<open>What the index lists\<close>

text \<open>Reading first and merging afterwards: every index in turn, or the first failure.\<close>

fun read_indexes :: "(string \<Rightarrow> (string, string \<rightharpoonup> string) result) \<Rightarrow> (string \<times> 'w specFetcher) list \<Rightarrow> 'w \<Rightarrow>
    (index_error, (string \<rightharpoonup> string) list) result \<times> 'w" where
  "read_indexes unmarshal [] w = (Ok [], w)"
| "read_indexes unmarshal ((name, fetcher) # sources) w =
     (case fetcher ''/openapi/v3'' w of
        (Err e, w') \<Rightarrow> (Err (IndexFetch name e), w')
      | (Ok raw, w') \<Rightarrow>
          (case unmarshal raw of
             Err e \<Rightarrow> (Err (IndexParse name e), w')
           | Ok index \<Rightarrow>
               (case read_indexes unmarshal sources w' of
                  (Err e, w'') \<Rightarrow> (Err e, w'') | (Ok indexes, w'') \<Rightarrow> (Ok (index # indexes), w''))))"

lemma build_index_reads:
  "build_index unmarshal owned sources paths w =
     (case read_indexes unmarshal sources w of
        (Err e, w') \<Rightarrow> (Err e, w')
      | (Ok indexes, w') \<Rightarrow>
          (Ok (foldl (\<lambda>acc index p. if index p \<noteq> None \<and> owned p then index p else acc p) paths indexes), w'))"
  by (induction unmarshal owned sources paths w rule: build_index.induct)
     (auto split: prod.splits sum.splits)

lemma filtered_fold:
  "foldl (\<lambda>acc index p. if index p \<noteq> None \<and> owned p then index p else acc p) (acc |` Collect owned) indexes =
     foldl (++) acc indexes |` Collect owned"
proof (induction indexes arbitrary: acc)
  case Nil
  then show ?case by simp
next
  case (Cons index indexes)
  have step: "(\<lambda>p. if index p \<noteq> None \<and> owned p then index p else (acc |` Collect owned) p) =
      (acc ++ index) |` Collect owned"
    by (auto simp: fun_eq_iff restrict_map_def map_add_def split: option.split)
  show ?case unfolding foldl_Cons step by (rule Cons.IH)
qed

text \<open>
  The v3 index is exactly the union of the workspaces' own indexes, in their order, cut down to
  the versions that are served: a path is listed precisely when it names one and some workspace lists
  it, with the entry of the last workspace that does (which need not be the one backing the group). If
  one workspace cannot be read the whole index is an error, with nothing listed.
\<close>

theorem index_is_the_filtered_union:
  "buildIndex unmarshal marshal h s w =
     (case read_indexes unmarshal (spec_sources h s) w of
        (Err e, w') \<Rightarrow> (Err e, w')
      | (Ok indexes, w') \<Rightarrow>
          ((case marshal (foldl (++) Map.empty indexes |` Collect (openapi_owns h s)) of
              Err e \<Rightarrow> Err (IndexEncode e) | Ok document \<Rightarrow> Ok document), w'))"
proof -
  have f: "foldl (\<lambda>acc index p. if index p \<noteq> None \<and> openapi_owns h s p then index p else acc p) Map.empty indexes =
      foldl (++) Map.empty indexes |` Collect (openapi_owns h s)" for indexes
    using filtered_fold[of "openapi_owns h s" Map.empty indexes] by (simp only: restrict_map_empty)
  obtain ixs w' where r: "read_indexes unmarshal (spec_sources h s) w = (ixs, w')" by (metis surj_pair)
  show ?thesis unfolding buildIndex_def build_index_reads r prod.case
    by (cases ixs) (simp_all only: sum.case prod.case f)
qed

section \<open>What the v2 document describes\<close>

fun ask_definitions :: "(string \<Rightarrow> (string, crd list) result) \<Rightarrow> (string \<times> 'w specFetcher) list \<Rightarrow> 'w \<Rightarrow>
    crd list option list \<times> 'w" where
  "ask_definitions decodeCRDList [] w = ([], w)"
| "ask_definitions decodeCRDList ((name, fetcher) # sources) w =
     (case fetcher crdPath w of
        (r, w') \<Rightarrow>
          (case ask_definitions decodeCRDList sources w' of
             (answers, w'') \<Rightarrow>
               ((case r of Err _ \<Rightarrow> None
                 | Ok raw \<Rightarrow> (case decodeCRDList raw of Err _ \<Rightarrow> None | Ok items \<Rightarrow> Some items)) # answers, w'')))"

definition answered :: "crd list option list \<Rightarrow> crd list" where
  "answered answers = concat (map (\<lambda>a. case a of None \<Rightarrow> [] | Some items \<Rightarrow> items) answers)"

definition nobody :: "crd list option list \<Rightarrow> bool" where
  "nobody answers \<longleftrightarrow> answers \<noteq> [] \<and> list_all (\<lambda>a. a = None) answers"

lemma collect_definitions_eq:
  "collect_definitions decodeCRDList sources (definitions, failed) w =
     (case ask_definitions decodeCRDList sources w of
        (answers, w') \<Rightarrow> ((definitions @ answered answers, failed + length (filter (\<lambda>a. a = None) answers)), w'))"
proof (induction sources arbitrary: definitions failed w)
  case Nil
  then show ?case by (simp add: answered_def)
next
  case (Cons source sources)
  obtain name fetcher where src: "source = (name, fetcher)" by (cases source)
  obtain r w' where f: "fetcher crdPath w = (r, w')" by (metis surj_pair)
  obtain answers w'' where a: "ask_definitions decodeCRDList sources w' = (answers, w'')" by (metis surj_pair)
  show ?case
  proof (cases r)
    case (Inl e)
    then show ?thesis by (simp add: src f a Cons.IH answered_def)
  next
    case (Inr raw)
    then show ?thesis by (cases "decodeCRDList raw") (simp_all add: src f a Cons.IH answered_def)
  qed
qed

lemma ask_definitions_length:
  "ask_definitions decodeCRDList sources w = (answers, w') \<Longrightarrow> length answers = length sources"
  by (induction sources arbitrary: w answers) (auto split: prod.splits)

lemma nobody_iff:
  "nobody answers \<longleftrightarrow> 0 < length answers \<and> length (filter (\<lambda>a. a = None) answers) = length answers"
proof -
  have "length (filter P xs) = length xs \<longleftrightarrow> list_all P xs" for P :: "crd list option \<Rightarrow> bool" and xs
    by (induction xs) (auto, metis Suc_n_not_le_n length_filter_le)
  then show ?thesis by (simp add: nobody_def)
qed

text \<open>The served versions of the served groups, in order, and merging them one by one.\<close>

definition v2_pieces :: "crd list \<Rightarrow> string set \<Rightarrow> (crd \<times> string) list" where
  "v2_pieces definitions served =
     concat (map (\<lambda>c. map (\<lambda>v. (c, cv_Name v)) (filter cv_Served (crd_Versions c)))
       (filter (\<lambda>c. crd_Group c \<in> served) definitions))"

fun v2_merge :: "('piece, 'doc) v2_builder \<Rightarrow> (crd \<times> string) list \<Rightarrow> 'doc \<Rightarrow> (v2_error, 'doc) result" where
  "v2_merge b [] document = Ok document"
| "v2_merge b ((c, v) # pieces) document =
     (case vb_build b c v of
        Err e \<Rightarrow> Err (BuildingV2 (crd_Name c) v e)
      | Ok built \<Rightarrow>
          (case vb_merge b document built of
             Err e \<Rightarrow> Err (MergingV2 (crd_Name c) v e) | Ok document' \<Rightarrow> v2_merge b pieces document'))"

lemma v2_merge_append:
  "v2_merge b (ps @ qs) document =
     (case v2_merge b ps document of Err e \<Rightarrow> Err e | Ok document' \<Rightarrow> v2_merge b qs document')"
  by (induction b ps document rule: v2_merge.induct) (auto split: sum.splits)

lemma v2_versions_merge:
  "v2_versions b c vs document = v2_merge b (map (\<lambda>v. (c, cv_Name v)) (filter cv_Served vs)) document"
  by (induction vs arbitrary: document) (auto split: sum.splits)

lemma buildV2_merge: "buildV2 b definitions served document = v2_merge b (v2_pieces definitions served) document"
  by (induction definitions arbitrary: document)
     (auto simp: v2_pieces_def v2_merge_append v2_versions_merge split: sum.splits)


section \<open>A served version fetched, and two workspaces of which one answers\<close>

definition sample_serving_store :: "unit store" where
  "sample_serving_store a =
     sample_workspace ''team''
       \<lparr>ws_cache := (NewResourceCache ''team'' sample_matcher)
          \<lparr>rc_snapshot := \<lparr>sn_Groups = [''a.b.c'' \<mapsto> sample_group], sn_Resources = [GV ''a.b.c'' ''v1'' \<mapsto> []]\<rparr>,
           rc_synced := True\<rparr>\<rparr>"

lemma sample_serving_view:
  "view_of (sample_serving_store, newRouter [0]) =
     \<lparr>sn_Groups = [''a.b.c'' \<mapsto> sample_group], sn_Resources = [GV ''a.b.c'' ''v1'' \<mapsto> []]\<rparr>"
  by (auto simp: view_of_def current_def current_keyed_def merged_hit_def newRouter_def router_replace_eq
      zero_router_def build_merged_def merge_all_def router_snapshot_def merge_workspace_def Let_def
      sample_serving_store_def empty_snapshot_def fun_eq_iff)


definition sample_v2 :: "((crd \<times> string), (crd \<times> string) list) v2_builder" where
  "sample_v2 =
     \<lparr>vb_empty = [], vb_build = (\<lambda>c v. Ok (c, v)), vb_merge = (\<lambda>d p. Ok (d @ [p])), vb_marshal = (\<lambda>d. Ok (concat (map snd d)))\<rparr>"

definition sample_crd :: crd where
  "sample_crd = \<lparr>crd_Name = ''widgets'', crd_Group = ''a.b.c'', crd_Kind = ''Widget'',
     crd_Versions = [\<lparr>cv_Name = ''v1'', cv_Served = True\<rparr>, \<lparr>cv_Name = ''v0'', cv_Served = False\<rparr>], crd_Conversion = None\<rparr>"

definition sample_openapi :: "(unit, unit) openAPIHandler" where
  "sample_openapi =
     \<lparr>oa_view = (\<lambda>_. empty_snapshot), oa_groups = (\<lambda>_. {''a.b.c''}), oa_fetcher = None,
      oa_fetchers = Some (\<lambda>_. [(''down'', \<lambda>_ w. (Err (BodyReadError []), w)), (''up'', \<lambda>_ w. (Ok [], w))]),
      oa_generation = None\<rparr>"


end
