(* ===== verification/Go_Time.thy ===== *)
theory Go_Time
  imports Go_Strings
begin

text \<open>
  \<open>time.Duration\<close>'s \<open>String\<close> as the program prints it into fingerprints: hours, minutes and seconds
  with a fraction from one second on, and a smaller unit below.
\<close>

text \<open>
  \<open>fmtFrac\<close>: the last \<open>prec\<close> decimal digits of \<open>v\<close> in front of what is already written, without
  trailing zeros, and the point when anything is left of them.
\<close>

fun frac_digits :: "nat \<Rightarrow> bool \<Rightarrow> nat \<Rightarrow> string \<Rightarrow> bool \<times> nat \<times> string" where
  "frac_digits 0 print v out = (print, v, out)"
| "frac_digits (Suc prec) print v out =
     (let digit = v mod 10; print' = (print \<or> digit \<noteq> 0)
      in frac_digits prec print' (v div 10) (if print' then char_of (48 + digit) # out else out))"

definition fmtFrac :: "nat \<Rightarrow> nat \<Rightarrow> string \<Rightarrow> nat \<times> string" where
  "fmtFrac prec v out =
     (case frac_digits prec False v out of
        (print, v', out') \<Rightarrow> (v', if print then CHR ''.'' # out' else out'))"

definition fmt_clock :: "nat \<Rightarrow> string \<Rightarrow> string" where
  "fmt_clock secs out =
     (let out1 = show_nat (secs mod 60) @ out; mins = secs div 60
      in if mins = 0 then out1
         else (let out2 = show_nat (mins mod 60) @ ''m'' @ out1; hours = mins div 60
               in if hours = 0 then out2 else show_nat hours @ ''h'' @ out2))"

text \<open>The micro sign is two bytes.\<close>

definition fmt_small :: "nat \<Rightarrow> string" where
  "fmt_small u =
     (if u = 0 then ''0s''
      else (case (if u < 1000 then fmtFrac 0 u ''ns''
                  else if u < 1000000 then fmtFrac 3 u (CHR 0xC2 # CHR 0xB5 # ''s'')
                  else fmtFrac 6 u ''ms'') of
              (v, out) \<Rightarrow> show_nat v @ out))"

definition duration_String :: "int \<Rightarrow> string" where
  "duration_String d =
     (let u = nat \<bar>d\<bar>;
          s = (if u < 1000000000 then fmt_small u
               else (case fmtFrac 9 u ''s'' of (secs, out) \<Rightarrow> fmt_clock secs out))
      in if d < 0 then CHR ''-'' # s else s)"

definition show_bool :: "bool \<Rightarrow> string" where
  "show_bool b = (if b then ''true'' else ''false'')"

lemma show_bool_inj: "show_bool a = show_bool b \<longleftrightarrow> a = b"
  by (simp add: show_bool_def)

section \<open>Nothing printed contains a NUL\<close>

lemma show_nat_no_nul: "CHR 0x00 \<notin> set (show_nat n)"
  using show_nat_digits[of "CHR 0x00" n] by auto

lemma digit_no_nul: "(char_of (48 + d mod 10) :: char) \<noteq> CHR 0x00" for d :: nat
proof
  assume "(char_of (48 + d mod 10) :: char) = CHR 0x00"
  then have "(of_char (char_of (48 + d mod 10) :: char) :: nat) = of_char (CHR 0x00 :: char)" by simp
  then show False by simp
qed

lemma frac_digits_no_nul:
  "CHR 0x00 \<notin> set out \<Longrightarrow> CHR 0x00 \<notin> set (snd (snd (frac_digits prec print v out)))"
proof (induction prec arbitrary: print v out)
  case 0
  then show ?case by simp
next
  case (Suc prec)
  have "CHR 0x00 \<notin> set (char_of (48 + v mod 10) # out)" using digit_no_nul[of v] Suc.prems by (metis set_ConsD)
  from Suc.IH[OF this] Suc.IH[OF Suc.prems] show ?case by (simp add: Let_def)
qed

lemma fmtFrac_no_nul: "CHR 0x00 \<notin> set out \<Longrightarrow> CHR 0x00 \<notin> set (snd (fmtFrac prec v out))"
  using frac_digits_no_nul[of out prec False v]
  by (cases "frac_digits prec False v out") (simp add: fmtFrac_def)

lemma fmt_clock_no_nul: "CHR 0x00 \<notin> set out \<Longrightarrow> CHR 0x00 \<notin> set (fmt_clock secs out)"
  using show_nat_no_nul by (simp add: fmt_clock_def Let_def)

lemma fmt_small_no_nul: "CHR 0x00 \<notin> set (fmt_small u)"
proof -
  let ?p = "if u < 1000 then fmtFrac 0 u ''ns''
    else if u < 1000000 then fmtFrac 3 u (CHR 0xC2 # CHR 0xB5 # ''s'') else fmtFrac 6 u ''ms''"
  have "CHR 0x00 \<notin> set (snd ?p)" by (simp add: fmtFrac_no_nul)
  then show ?thesis using show_nat_no_nul by (simp add: fmt_small_def split_beta)
qed

lemma duration_no_nul: "CHR 0x00 \<notin> set (duration_String d)"
proof -
  have "CHR 0x00 \<notin> set (snd (fmtFrac 9 u ''s''))" for u by (simp add: fmtFrac_no_nul)
  then show ?thesis by (simp add: duration_String_def Let_def split_beta fmt_clock_no_nul fmt_small_no_nul)
qed

lemma show_int_no_nul: "CHR 0x00 \<notin> set (show_int i)"
  using show_nat_no_nul by (simp add: show_int_def)

lemma show_bool_no_nul: "CHR 0x00 \<notin> set (show_bool b)"
  by (simp add: show_bool_def)

section \<open>Different durations print differently\<close>

definition is_digit :: "char \<Rightarrow> bool" where
  "is_digit c \<longleftrightarrow> 48 \<le> (of_char c :: nat) \<and> (of_char c :: nat) \<le> 57"

lemma digit_is_digit: "is_digit (char_of (48 + n mod 10))" for n :: nat
proof -
  have "(of_char (char_of (48 + n mod 10) :: char) :: nat) = 48 + n mod 10" by simp
  then show ?thesis by (simp add: is_digit_def)
qed

lemma show_nat_is_digit: "c \<in> set (show_nat n) \<Longrightarrow> is_digit c"
proof (induction n rule: show_nat.induct)
  case (1 n)
  from "1.prems" have "c = char_of (48 + n mod 10) \<or> \<not> n < 10 \<and> c \<in> set (show_nat (n div 10))"
    by (subst (asm) show_nat_step) (auto split: if_splits)
  then show ?case using "1.IH" digit_is_digit by blast
qed

lemma show_nat_nonempty [simp]: "show_nat n \<noteq> []"
  by (subst show_nat_step) simp

lemma hd_show_nat: "is_digit (hd (show_nat n))"
  by (rule show_nat_is_digit[of _ n]) simp

lemma last_show_nat: "is_digit (last (show_nat n))"
  by (rule show_nat_is_digit[of _ n]) simp

lemma number_cut:
  assumes "show_nat a @ x = show_nat b @ y" and "x \<noteq> []" "y \<noteq> []" "\<not> is_digit (hd x)" "\<not> is_digit (hd y)"
  shows "a = b \<and> x = y"
proof -
  have t: "takeWhile is_digit (show_nat n @ z) = show_nat n" if "z \<noteq> []" "\<not> is_digit (hd z)" for n z
    using that show_nat_is_digit by (cases z) (auto simp: takeWhile_append2)
  from assms(1) t[OF assms(2,4), of a] t[OF assms(3,5), of b] have "show_nat a = show_nat b" by simp
  with assms(1) show ?thesis using show_nat_inj by auto
qed

text \<open>The fraction: a fixed number of digits, and what is left of them without trailing zeros.\<close>

fun zdigits :: "nat \<Rightarrow> nat \<Rightarrow> string" where
  "zdigits 0 v = []"
| "zdigits (Suc k) v = zdigits k (v div 10) @ [char_of (48 + v mod 10)]"

lemma length_zdigits [simp]: "length (zdigits k v) = k"
  by (induction k arbitrary: v) simp_all

lemma digit_inj: "(char_of (48 + a mod 10) :: char) = char_of (48 + b mod 10) \<Longrightarrow> a mod 10 = b mod 10" for a b :: nat
proof -
  assume "(char_of (48 + a mod 10) :: char) = char_of (48 + b mod 10)"
  then have "(of_char (char_of (48 + a mod 10) :: char) :: nat) = of_char (char_of (48 + b mod 10) :: char)" by simp
  then show ?thesis by simp
qed

lemma mod_power_Suc: "v mod 10 ^ Suc k = 10 * (v div 10 mod 10 ^ k) + v mod 10" for v :: nat
  by (simp only: power_Suc mod_mult2_eq)

lemma zdigits_inj: "zdigits k v = zdigits k w \<Longrightarrow> v mod 10 ^ k = w mod 10 ^ k"
proof (induction k arbitrary: v w)
  case 0
  then show ?case by simp
next
  case (Suc k)
  from Suc.prems have z: "zdigits k (v div 10) = zdigits k (w div 10)"
    and d: "(char_of (48 + v mod 10) :: char) = char_of (48 + w mod 10)"
    unfolding zdigits.simps append1_eq_conv by blast+
  have "v div 10 mod 10 ^ k = w div 10 mod 10 ^ k" by (rule Suc.IH[OF z])
  moreover have "v mod 10 = w mod 10" by (rule digit_inj[OF d])
  ultimately have "v div 10 mod 10 ^ k = w div 10 mod 10 ^ k" "v mod 10 = w mod 10" .
  then show ?case unfolding mod_power_Suc by (simp only:)
qed

lemma zdigits_is_digit: "c \<in> set (zdigits k v) \<Longrightarrow> is_digit c"
  by (induction k arbitrary: v) (auto simp: digit_is_digit)

definition rstrip :: "string \<Rightarrow> string" where
  "rstrip s = rev (dropWhile (\<lambda>c. c = CHR ''0'') (rev s))"

lemma rstrip_pad: "s = rstrip s @ replicate (length s - length (rstrip s)) (CHR ''0'')"
proof -
  let ?t = "takeWhile (\<lambda>c. c = CHR ''0'') (rev s)"
  have "rev s = ?t @ dropWhile (\<lambda>c. c = CHR ''0'') (rev s)" by simp
  then have s: "s = rstrip s @ rev ?t" unfolding rstrip_def by (metis rev_append rev_rev_ident)
  have "\<forall>c\<in>set (rev ?t). c = CHR ''0''" by (auto dest: set_takeWhileD)
  then have "rev ?t = replicate (length (rev ?t)) (CHR ''0'')" by (metis replicate_eqI)
  moreover have "length (rev ?t) = length s - length (rstrip s)"
    using arg_cong[OF s, of length] by simp
  ultimately show ?thesis using s by metis
qed

lemma rstrip_inj: "rstrip s = rstrip t \<Longrightarrow> length s = length t \<Longrightarrow> s = t"
  using rstrip_pad[of s] rstrip_pad[of t] by metis

lemma frac_digits_True: "frac_digits k True v out = (True, v div 10 ^ k, zdigits k v @ out)"
  by (induction k arbitrary: v out) (simp_all add: Let_def div_mult2_eq)

lemma zdigits_zero: "v mod 10 ^ k = 0 \<Longrightarrow> rstrip (zdigits k v) = []"
proof (induction k arbitrary: v)
  case 0
  then show ?case by (simp add: rstrip_def)
next
  case (Suc k)
  from Suc.prems have "v mod 10 = 0" "v div 10 mod 10 ^ k = 0" unfolding mod_power_Suc by simp_all
  moreover have "(char_of (48 :: nat) :: char) = CHR ''0''" by code_simp
  ultimately show ?case using Suc.IH[of "v div 10"] by (simp add: rstrip_def)
qed

lemma frac_digits_False:
  "frac_digits k False v out = (v mod 10 ^ k \<noteq> 0, v div 10 ^ k, rstrip (zdigits k v) @ out)"
proof (induction k arbitrary: v)
  case 0
  show ?case by (simp add: rstrip_def)
next
  case (Suc k)
  have zero: "(char_of (48 :: nat) :: char) = CHR ''0''" by code_simp
  note m = mod_power_Suc[of v k]
  show ?case
  proof (cases "v mod 10 = 0")
    case True
    then show ?thesis using Suc.IH[of "v div 10"] m zero by (simp add: rstrip_def div_mult2_eq)
  next
    case False
    have "(char_of (48 + v mod 10) :: char) \<noteq> CHR ''0''"
    proof
      assume "(char_of (48 + v mod 10) :: char) = CHR ''0''"
      then have "(of_char (char_of (48 + v mod 10) :: char) :: nat) = of_char (CHR ''0'')" by simp
      with False show False by simp
    qed
    then show ?thesis using False m by (simp add: rstrip_def frac_digits_True div_mult2_eq)
  qed
qed

definition frac :: "nat \<Rightarrow> nat \<Rightarrow> string" where
  "frac k v = (if v mod 10 ^ k = 0 then [] else CHR ''.'' # rstrip (zdigits k v))"

lemma fmtFrac_eq: "fmtFrac k v out = (v div 10 ^ k, frac k v @ out)"
  by (simp add: fmtFrac_def frac_digits_False frac_def zdigits_zero)

lemma frac_inj: "frac k v = frac k w \<Longrightarrow> v mod 10 ^ k = w mod 10 ^ k"
  using zdigits_inj[OF rstrip_inj, of k v w] by (auto simp: frac_def split: if_splits)

text \<open>What is printed: a clock or, below a second, one number with a unit of its own.\<close>

definition clock_form :: "nat \<Rightarrow> string" where
  "clock_form u = fmt_clock (u div 10 ^ 9) (frac 9 u @ ''s'')"

definition unit_form :: "nat \<Rightarrow> string \<Rightarrow> nat \<Rightarrow> string" where
  "unit_form k u_name u = show_nat (u div 10 ^ k) @ frac k u @ u_name"

lemma not_digits [simp]:
  "\<not> is_digit (CHR ''.'')" "\<not> is_digit (CHR ''s'')" "\<not> is_digit (CHR ''m'')" "\<not> is_digit (CHR ''h'')"
  "\<not> is_digit (CHR ''n'')" "\<not> is_digit (CHR 0xC2)" "\<not> is_digit (CHR 0xB5)" "\<not> is_digit (CHR ''-'')"
  by (simp_all add: is_digit_def)

lemma hd_frac: "x \<noteq> [] \<Longrightarrow> \<not> is_digit (hd x) \<Longrightarrow> \<not> is_digit (hd (frac k v @ x))"
  by (simp add: frac_def)

lemma fmt_clock_cases:
  "fmt_clock secs out =
     (if secs < 60 then show_nat secs @ out
      else if secs < 3600 then show_nat (secs div 60) @ ''m'' @ show_nat (secs mod 60) @ out
      else show_nat (secs div 3600) @ ''h'' @ show_nat (secs div 60 mod 60) @ ''m'' @ show_nat (secs mod 60) @ out)"
proof -
  consider "secs < 60" | "60 \<le> secs" "secs < 3600" | "3600 \<le> secs" by linarith
  then show ?thesis
  proof cases
    case 1
    then show ?thesis by (simp add: fmt_clock_def)
  next
    case 2
    then have "secs div 60 \<noteq> 0" "secs div 60 < 60" by auto
    with 2 show ?thesis by (simp add: fmt_clock_def Let_def)
  next
    case 3
    then have "secs div 60 \<noteq> 0" "secs div 60 div 60 \<noteq> 0" by auto
    with 3 show ?thesis by (simp add: fmt_clock_def Let_def div_mult2_eq[symmetric])
  qed
qed

lemma clock_seconds: "secs = 60 * (secs div 60) + secs mod 60"
    "secs = 3600 * (secs div 3600) + 60 * (secs div 60 mod 60) + secs mod 60" for secs :: nat
proof -
  show m: "secs = 60 * (secs div 60) + secs mod 60" by simp
  have "secs div 60 = 60 * (secs div 60 div 60) + secs div 60 mod 60" by simp
  moreover have "secs div 60 div 60 = secs div 3600" by (simp add: div_mult2_eq[symmetric])
  ultimately show "secs = 3600 * (secs div 3600) + 60 * (secs div 60 mod 60) + secs mod 60" using m by linarith
qed

lemma long_clock:
  assumes "60 \<le> secs"
  obtains n c z where "fmt_clock secs out = show_nat n @ c # z" "c = CHR ''m'' \<or> c = CHR ''h''"
proof (cases "secs < 3600")
  case True
  with assms that[of "secs div 60" "CHR ''m''"] show thesis by (simp add: fmt_clock_cases)
next
  case False
  with assms that[of "secs div 3600" "CHR ''h''"] show thesis by (simp add: fmt_clock_cases)
qed

lemma fmt_clock_inj:
  assumes eq: "fmt_clock a x = fmt_clock b y"
    and x: "x \<noteq> []" "hd x = CHR ''.'' \<or> hd x = CHR ''s''" and y: "y \<noteq> []" "hd y = CHR ''.'' \<or> hd y = CHR ''s''"
  shows "a = b \<and> x = y"
proof -
  have nd: "\<not> is_digit (hd x)" "\<not> is_digit (hd y)" using x(2) y(2) by auto
  have sep: "x \<noteq> CHR ''m'' # z" "x \<noteq> CHR ''h'' # z" "y \<noteq> CHR ''m'' # z" "y \<noteq> CHR ''h'' # z" for z
    using x(2) y(2) by auto
  have cut: "n = k \<and> v = w"
    if "show_nat n @ v = show_nat k @ w" "v \<noteq> []" "w \<noteq> []" "\<not> is_digit (hd v)" "\<not> is_digit (hd w)" for n k v w
    using number_cut[OF that] .
  consider "a < 60" "b < 60" | "60 \<le> a" "a < 3600" "60 \<le> b" "b < 3600" | "3600 \<le> a" "3600 \<le> b"
    | "a < 60" "60 \<le> b" | "60 \<le> a" "b < 60" | "60 \<le> a" "a < 3600" "3600 \<le> b" | "3600 \<le> a" "60 \<le> b" "b < 3600"
    by linarith
  then show ?thesis
  proof cases
    case 1
    then have "show_nat a @ x = show_nat b @ y" using eq by (simp add: fmt_clock_cases)
    from cut[OF this x(1) y(1) nd] show ?thesis .
  next
    case 2
    then have "show_nat (a div 60) @ ''m'' @ show_nat (a mod 60) @ x = show_nat (b div 60) @ ''m'' @ show_nat (b mod 60) @ y"
      using eq by (simp add: fmt_clock_cases)
    from cut[OF this] have 1: "a div 60 = b div 60" and "show_nat (a mod 60) @ x = show_nat (b mod 60) @ y" by simp_all
    from cut[OF this(2) x(1) y(1) nd] 1 show ?thesis using clock_seconds(1)[of a] clock_seconds(1)[of b] by simp
  next
    case 3
    then have "show_nat (a div 3600) @ ''h'' @ show_nat (a div 60 mod 60) @ ''m'' @ show_nat (a mod 60) @ x =
        show_nat (b div 3600) @ ''h'' @ show_nat (b div 60 mod 60) @ ''m'' @ show_nat (b mod 60) @ y"
      using eq by (simp add: fmt_clock_cases)
    from cut[OF this] have 1: "a div 3600 = b div 3600"
      and 2: "show_nat (a div 60 mod 60) @ ''m'' @ show_nat (a mod 60) @ x =
        show_nat (b div 60 mod 60) @ ''m'' @ show_nat (b mod 60) @ y" by simp_all
    from cut[OF 2] have 3: "a div 60 mod 60 = b div 60 mod 60"
      and 4: "show_nat (a mod 60) @ x = show_nat (b mod 60) @ y" by simp_all
    from cut[OF 4 x(1) y(1) nd] 1 3 show ?thesis using clock_seconds(2)[of a] clock_seconds(2)[of b] by simp
  next
    case 4
    obtain n c z where "fmt_clock b y = show_nat n @ c # z" "c = CHR ''m'' \<or> c = CHR ''h''"
      by (rule long_clock[OF 4(2)])
    then have "show_nat a @ x = show_nat n @ c # z" "\<not> is_digit c" "x \<noteq> c # z"
      using eq 4 sep by (auto simp: fmt_clock_cases)
    from cut[OF this(1) x(1)] this(2,3) nd show ?thesis by simp
  next
    case 5
    obtain n c z where "fmt_clock a x = show_nat n @ c # z" "c = CHR ''m'' \<or> c = CHR ''h''"
      by (rule long_clock[OF 5(1)])
    then have "show_nat b @ y = show_nat n @ c # z" "\<not> is_digit c" "y \<noteq> c # z"
      using eq 5 sep by (auto simp: fmt_clock_cases)
    from cut[OF this(1) y(1)] this(2,3) nd show ?thesis by simp
  next
    case 6
    then have "show_nat (a div 60) @ ''m'' @ show_nat (a mod 60) @ x =
        show_nat (b div 3600) @ ''h'' @ show_nat (b div 60 mod 60) @ ''m'' @ show_nat (b mod 60) @ y"
      using eq by (simp add: fmt_clock_cases)
    from cut[OF this] show ?thesis by simp
  next
    case 7
    then have "show_nat (a div 3600) @ ''h'' @ show_nat (a div 60 mod 60) @ ''m'' @ show_nat (a mod 60) @ x =
        show_nat (b div 60) @ ''m'' @ show_nat (b mod 60) @ y"
      using eq by (simp add: fmt_clock_cases)
    from cut[OF this] show ?thesis by simp
  qed
qed

lemma split_power: "u = w" if "u div 10 ^ k = w div 10 ^ k" "u mod 10 ^ k = w mod 10 ^ k" for u w k :: nat
  using that div_mult_mod_eq[of u "10 ^ k"] div_mult_mod_eq[of w "10 ^ k"] by metis

lemma clock_form_inj: "clock_form u = clock_form w \<Longrightarrow> u = w"
proof -
  assume eq: "clock_form u = clock_form w"
  have h: "hd (frac 9 v @ ''s'') = CHR ''.'' \<or> hd (frac 9 v @ ''s'') = CHR ''s''" for v by (simp add: frac_def)
  from fmt_clock_inj[OF eq[unfolded clock_form_def] _ h _ h] have "u div 10 ^ 9 = w div 10 ^ 9" "frac 9 u = frac 9 w"
    by simp_all
  with frac_inj show "u = w" by (intro split_power[of u 9 w]) blast+
qed

lemma unit_form_inj:
  assumes "unit_form k n u = unit_form k n w" and "n \<noteq> []" "\<not> is_digit (hd n)"
  shows "u = w"
proof -
  from number_cut[OF assms(1)[unfolded unit_form_def]] hd_frac[OF assms(2,3)] assms(2)
  have "u div 10 ^ k = w div 10 ^ k" "frac k u = frac k w" by auto
  with frac_inj show "u = w" by (intro split_power[of u k w]) blast+
qed

text \<open>The class is readable from the end of the text: the character before the last one.\<close>

definition tag :: "string \<Rightarrow> char" where
  "tag s = last (butlast s)"

lemma frac_is_digit: "frac k v \<noteq> [] \<Longrightarrow> is_digit (last (frac k v))"
proof -
  assume f: "frac k v \<noteq> []"
  then have v: "v mod 10 ^ k \<noteq> 0" by (auto simp: frac_def split: if_splits)
  have "rstrip (zdigits k v) \<noteq> []"
  proof
    assume "rstrip (zdigits k v) = []"
    then have "zdigits k v = replicate k (CHR ''0'')" using rstrip_pad[of "zdigits k v"] by simp
    moreover have "zdigits k 0 = replicate k (CHR ''0'')"
      using rstrip_pad[of "zdigits k 0"] zdigits_zero[of 0 k] by simp
    ultimately have "v mod 10 ^ k = 0 mod 10 ^ k" by (intro zdigits_inj) simp
    with v show False by simp
  qed
  moreover have "set (rstrip (zdigits k v)) \<subseteq> set (zdigits k v)"
    unfolding rstrip_def by (metis set_dropWhileD set_rev subsetI)
  ultimately show ?thesis using v zdigits_is_digit by (simp add: frac_def) (meson last_in_set subsetD)
qed

lemma tag_clock: "is_digit (tag (clock_form u))"
proof -
  have "is_digit (tag (show_nat n @ frac 9 u @ ''s''))" for n
    using last_show_nat[of n] frac_is_digit[of 9 u] by (cases "frac 9 u = []") (simp_all add: tag_def butlast_append)
  moreover have "tag (p @ c # show_nat n @ frac 9 u @ ''s'') = tag (show_nat n @ frac 9 u @ ''s'')" for p c n
    by (simp add: tag_def butlast_append)
  ultimately have t: "is_digit (tag (show_nat n @ frac 9 u @ ''s''))"
      "is_digit (tag (p @ c # show_nat n @ frac 9 u @ ''s''))" for n p c
    by metis+
  show ?thesis unfolding clock_form_def fmt_clock_cases
    using t(1)[of "u div 10 ^ 9"] t(2)[of "show_nat (u div 10 ^ 9 div 60)" "CHR ''m''" "u div 10 ^ 9 mod 60"]
      t(2)[of "show_nat (u div 10 ^ 9 div 3600) @ ''h'' @ show_nat (u div 10 ^ 9 div 60 mod 60)" "CHR ''m''"
        "u div 10 ^ 9 mod 60"]
    by (simp del: of_char_of)
qed

lemma tag_unit: "n \<noteq> [] \<Longrightarrow> tag (unit_form k (n @ ''s'') u) = last n"
  by (simp add: tag_def unit_form_def butlast_append)

lemma magnitude_cases:
  "(if u < 1000000000 then fmt_small u
    else (case fmtFrac 9 u ''s'' of (secs, out) \<Rightarrow> fmt_clock secs out)) =
   (if u = 0 \<or> 1000000000 \<le> u then clock_form u
    else if u < 1000 then unit_form 0 ''ns'' u
    else if u < 1000000 then unit_form 3 [CHR 0xC2, CHR 0xB5, CHR ''s''] u
    else unit_form 6 ''ms'' u)"
proof -
  have zero: "fmt_clock 0 (frac 9 0 @ ''s'') = ''0s''"
    by (simp add: fmt_clock_def frac_def Let_def) (subst show_nat.simps, code_simp)
  consider "u = 0" | "0 < u" "u < 1000" | "1000 \<le> u" "u < 1000000" | "1000000 \<le> u" "u < 1000000000" | "1000000000 \<le> u"
    by linarith
  then show ?thesis
    by cases (simp_all add: zero fmt_small_def fmtFrac_eq unit_form_def clock_form_def)
qed

definition magnitude :: "nat \<Rightarrow> string" where
  "magnitude u =
     (if u = 0 \<or> 1000000000 \<le> u then clock_form u
      else if u < 1000 then unit_form 0 ''ns'' u
      else if u < 1000000 then unit_form 3 [CHR 0xC2, CHR 0xB5, CHR ''s''] u
      else unit_form 6 ''ms'' u)"

lemma magnitude_tag:
  "tag (magnitude u) = CHR ''n'' \<longleftrightarrow> 0 < u \<and> u < 1000"
  "tag (magnitude u) = CHR 0xB5 \<longleftrightarrow> 1000 \<le> u \<and> u < 1000000"
  "tag (magnitude u) = CHR ''m'' \<longleftrightarrow> 1000000 \<le> u \<and> u < 1000000000"
proof -
  have t: "tag (unit_form 0 ''ns'' u) = CHR ''n''" "tag (unit_form 3 [CHR 0xC2, CHR 0xB5, CHR ''s''] u) = CHR 0xB5"
      "tag (unit_form 6 ''ms'' u) = CHR ''m''"
    using tag_unit[of "''n''" 0 u] tag_unit[of "[CHR 0xC2, CHR 0xB5]" 3 u] tag_unit[of "''m''" 6 u] by simp_all
  have c: "tag (clock_form u) \<noteq> CHR ''n''" "tag (clock_form u) \<noteq> CHR 0xB5" "tag (clock_form u) \<noteq> CHR ''m''"
    using tag_clock[of u] by (metis not_digits)+
  consider "u = 0" | "0 < u" "u < 1000" | "1000 \<le> u" "u < 1000000" | "1000000 \<le> u" "u < 1000000000" | "1000000000 \<le> u"
    by linarith
  then have "(tag (magnitude u) = CHR ''n'' \<longleftrightarrow> 0 < u \<and> u < 1000) \<and>
    (tag (magnitude u) = CHR 0xB5 \<longleftrightarrow> 1000 \<le> u \<and> u < 1000000) \<and>
    (tag (magnitude u) = CHR ''m'' \<longleftrightarrow> 1000000 \<le> u \<and> u < 1000000000)"
    by cases (use t c in \<open>simp_all add: magnitude_def\<close>)
  then show "tag (magnitude u) = CHR ''n'' \<longleftrightarrow> 0 < u \<and> u < 1000"
    "tag (magnitude u) = CHR 0xB5 \<longleftrightarrow> 1000 \<le> u \<and> u < 1000000"
    "tag (magnitude u) = CHR ''m'' \<longleftrightarrow> 1000000 \<le> u \<and> u < 1000000000"
    by blast+
qed

lemma magnitude_inj: "magnitude u = magnitude w \<Longrightarrow> u = w"
proof -
  assume eq: "magnitude u = magnitude w"
  then have tags: "(0 < u \<and> u < 1000) = (0 < w \<and> w < 1000)" "(1000 \<le> u \<and> u < 1000000) = (1000 \<le> w \<and> w < 1000000)"
      "(1000000 \<le> u \<and> u < 1000000000) = (1000000 \<le> w \<and> w < 1000000000)"
    unfolding magnitude_tag[symmetric] by simp_all
  consider "0 < u" "u < 1000" | "1000 \<le> u" "u < 1000000" | "1000000 \<le> u" "u < 1000000000" | "u = 0 \<or> 1000000000 \<le> u"
    by linarith
  then show "u = w"
  proof cases
    case 1
    with tags eq show ?thesis by (intro unit_form_inj[of 0 "''ns''" u w]) (auto simp: magnitude_def)
  next
    case 2
    with tags eq show ?thesis
      by (intro unit_form_inj[of 3 "[CHR 0xC2, CHR 0xB5, CHR ''s'']" u w]) (auto simp: magnitude_def)
  next
    case 3
    with tags eq show ?thesis by (intro unit_form_inj[of 6 "''ms''" u w]) (auto simp: magnitude_def)
  next
    case 4
    with tags have "w = 0 \<or> 1000000000 \<le> w" by linarith
    with 4 eq show ?thesis by (intro clock_form_inj) (simp add: magnitude_def)
  qed
qed

lemma duration_String_magnitude:
  "duration_String d = (if d < 0 then CHR ''-'' # magnitude (nat \<bar>d\<bar>) else magnitude (nat \<bar>d\<bar>))"
  unfolding duration_String_def Let_def magnitude_cases magnitude_def by simp

lemma magnitude_head: "is_digit (hd (magnitude u))"
  using hd_show_nat by (simp add: magnitude_def unit_form_def clock_form_def fmt_clock_cases)

lemma duration_String_inj: "duration_String a = duration_String b \<longleftrightarrow> a = b"
proof
  assume eq: "duration_String a = duration_String b"
  have sign: "CHR ''-'' # x \<noteq> magnitude u" for x u
    using magnitude_head[of u] by (metis list.sel(1) not_digits(8))
  have "magnitude (nat \<bar>a\<bar>) = magnitude (nat \<bar>b\<bar>) \<and> (a < 0 \<longleftrightarrow> b < 0)"
    using eq sign sign[symmetric] by (auto simp: duration_String_magnitude split: if_splits)
  then show "a = b" using magnitude_inj[of "nat \<bar>a\<bar>" "nat \<bar>b\<bar>"] by linarith
qed simp

end
