(* ===== verification/Workspace_Manager.thy ===== *)
theory Workspace_Manager
  imports Router Credentials Go_Time
begin

text \<open>
  \<open>pkg/apiserver/workspacemanager.go\<close>: keeping the running workspaces matching the configuration.
  The functions a manager is given (building a workspace, re-reading the configuration, the CRD
  watch, what to do on a change) are fields of an environment. The manager's state is the store of
  workspaces, the router, the set of workspaces whose context is still live, the metrics and a world.
\<close>

section \<open>Configuration and state\<close>

record WorkspaceConfig =
  wc_Name :: string
  wc_Kubeconfig :: string
  wc_APIGroups :: group_matcher
  wc_Backend :: BackendOptions
  wc_ImpersonateUsers :: bool

definition fingerprint_parts :: "WorkspaceConfig \<Rightarrow> string list" where
  "fingerprint_parts c =
     [wc_Name c, wc_Kubeconfig c, matcher_String (Some (wc_APIGroups c)), show_bool (wc_ImpersonateUsers c),
      duration_String (bo_RequestTimeout (wc_Backend c)), show_int (bo_Retries (wc_Backend c)),
      show_int (bo_FailureThreshold (wc_Backend c)), duration_String (bo_CircuitCooldown (wc_Backend c))]"

definition fingerprint :: "WorkspaceConfig \<Rightarrow> string" where
  "fingerprint c = join [CHR 0x00] (fingerprint_parts c)"

datatype launch_error =
    BuildFailed string
  | InitialSync string refresh_error
  | WatchingCRDs string string

record ('p, 'w) manager_env =
  me_build :: "WorkspaceConfig \<Rightarrow> metrics \<times> 'w \<Rightarrow> (string, 'p workspace) result \<times> (metrics \<times> 'w)"
  me_reload :: "('w \<Rightarrow> (string, WorkspaceConfig list) result \<times> 'w) option"
  me_watch :: "'p workspace \<Rightarrow> 'w \<Rightarrow> (string, unit) result \<times> 'w"
  me_onChange :: "('p store \<Rightarrow> router \<times> metrics \<times> 'w \<Rightarrow> router \<times> metrics \<times> 'w) option"
  me_discovery :: "'p workspace \<Rightarrow> 'w discovery_client"
  me_ParseGroupVersion :: "string \<Rightarrow> (string, group_version) result"
  me_now :: "'w \<Rightarrow> time"

record ('p, 'w) manager =
  mg_store :: "'p store"
  mg_next :: addr
  mg_router :: router
  mg_live :: "addr set"
  mg_metrics :: metrics
  mg_world :: 'w

section \<open>Bringing workspaces up\<close>

text \<open>
  A launched workspace is a new object; its cache loop and its credential loop run while its address
  is in \<open>mg_live\<close>.
\<close>

definition launch :: "('p, 'w) manager_env \<Rightarrow> WorkspaceConfig \<Rightarrow> ('p, 'w) manager \<Rightarrow>
    (launch_error, addr) result \<times> ('p, 'w) manager" where
  "launch env c m =
     (case me_build env c (mg_metrics m, mg_world m) of
        (Err e, (mx1, w1)) \<Rightarrow> (Err (BuildFailed e), m\<lparr>mg_metrics := mx1, mg_world := w1\<rparr>)
      | (Ok built, (mx1, w1)) \<Rightarrow>
          let built1 = built\<lparr>ws_fingerprint := fingerprint c\<rparr> in
          (case Refresh (me_ParseGroupVersion env) (me_discovery env built1) (me_now env) (ws_cache built1) mx1 w1 of
             (Some e, cache, mx2, w2) \<Rightarrow>
               (Err (InitialSync (ws_name built1) e), m\<lparr>mg_metrics := mx2, mg_world := w2\<rparr>)
           | (None, cache, mx2, w2) \<Rightarrow>
               let built2 = built1\<lparr>ws_cache := cache\<rparr> in
               (case me_watch env built2 w2 of
                  (Err e, w3) \<Rightarrow>
                    (Err (WatchingCRDs (ws_name built2) e), m\<lparr>mg_metrics := mx2, mg_world := w3\<rparr>)
                | (Ok _, w3) \<Rightarrow>
                    (Ok (mg_next m),
                     m\<lparr>mg_store := (mg_store m)(mg_next m := built2), mg_next := mg_next m + 1,
                       mg_live := insert (mg_next m) (mg_live m), mg_metrics := mx2, mg_world := w3\<rparr>))))"

fun start_all :: "('p, 'w) manager_env \<Rightarrow> WorkspaceConfig list \<Rightarrow> addr list \<Rightarrow> ('p, 'w) manager \<Rightarrow>
    (launch_error, addr list) result \<times> ('p, 'w) manager" where
  "start_all env [] running m = (Ok running, m)"
| "start_all env (c # cs) running m =
     (case launch env c m of
        (Err e, m') \<Rightarrow> (Err e, m') | (Ok a, m') \<Rightarrow> start_all env cs (running @ [a]) m')"

definition manager_start :: "('p, 'w) manager_env \<Rightarrow> WorkspaceConfig list \<Rightarrow> ('p, 'w) manager \<Rightarrow>
    launch_error option \<times> ('p, 'w) manager" where
  "manager_start env configured m =
     (case start_all env configured [] m of
        (Err e, m') \<Rightarrow> (Some e, m')
      | (Ok running, m') \<Rightarrow> (None, m'\<lparr>mg_router := router_replace running (mg_router m')\<rparr>))"

section \<open>Applying the configuration again\<close>

definition byName :: "'p store \<Rightarrow> addr list \<Rightarrow> string \<rightharpoonup> addr" where
  "byName st as = map_of (rev (map (\<lambda>a. (ws_name (st a), a)) as))"

text \<open>The loop over what is desired. Its state: the next set, the names kept, the number of changes.\<close>

fun apply_desired :: "('p, 'w) manager_env \<Rightarrow> (string \<rightharpoonup> addr) \<Rightarrow> WorkspaceConfig list \<Rightarrow>
    addr list \<times> string set \<times> nat \<Rightarrow> ('p, 'w) manager \<Rightarrow> (addr list \<times> string set \<times> nat) \<times> ('p, 'w) manager" where
  "apply_desired env by_name [] acc m = (acc, m)"
| "apply_desired env by_name (c # cs) (nxt, keep, changes) m =
     (if (case by_name (wc_Name c) of None \<Rightarrow> False | Some a \<Rightarrow> ws_fingerprint (mg_store m a) = fingerprint c)
      then apply_desired env by_name cs (nxt @ [the (by_name (wc_Name c))], insert (wc_Name c) keep, changes) m
      else (case launch env c m of
              (Err e, m1) \<Rightarrow>
                let m2 = m1\<lparr>mg_metrics := ObserveWorkspaceReload ''error'' (mg_metrics m1)\<rparr> in
                (case by_name (wc_Name c) of
                   Some a \<Rightarrow> apply_desired env by_name cs (nxt @ [a], insert (wc_Name c) keep, changes) m2
                 | None \<Rightarrow> apply_desired env by_name cs (nxt, keep, changes) m2)
            | (Ok a, m1) \<Rightarrow> apply_desired env by_name cs (nxt @ [a], keep, changes + 1) m1))"

definition containsWorkspace :: "addr list \<Rightarrow> addr \<Rightarrow> bool" where
  "containsWorkspace workspaces wanted = list_ex (\<lambda>candidate. candidate = wanted) workspaces"

text \<open>The loop over what was running.\<close>

fun retire :: "addr list \<Rightarrow> string set \<Rightarrow> addr list \<Rightarrow> nat \<Rightarrow> ('p, 'w) manager \<Rightarrow> nat \<times> ('p, 'w) manager" where
  "retire nxt keep [] changes m = (changes, m)"
| "retire nxt keep (a # as) changes m =
     (if ws_name (mg_store m a) \<in> keep then retire nxt keep as changes m
      else retire nxt keep as (if containsWorkspace nxt a then changes else changes + 1)
             (m\<lparr>mg_live := mg_live m - {a}\<rparr>))"

definition manager_changed :: "('p, 'w) manager_env \<Rightarrow> ('p, 'w) manager \<Rightarrow> ('p, 'w) manager" where
  "manager_changed env m =
     (case me_onChange env of
        None \<Rightarrow> m
      | Some f \<Rightarrow>
          (case f (mg_store m) (mg_router m, mg_metrics m, mg_world m) of
             (r, mx, w) \<Rightarrow> m\<lparr>mg_router := r, mg_metrics := mx, mg_world := w\<rparr>))"

definition manager_reconcile :: "('p, 'w) manager_env \<Rightarrow> ('w \<Rightarrow> (string, WorkspaceConfig list) result \<times> 'w) \<Rightarrow>
    ('p, 'w) manager \<Rightarrow> string option \<times> ('p, 'w) manager" where
  "manager_reconcile env reload m =
     (case reload (mg_world m) of
        (Err e, w1) \<Rightarrow> (Some e, m\<lparr>mg_world := w1\<rparr>)
      | (Ok desired, w1) \<Rightarrow>
          let current = router_snapshot (mg_router m) in
          (case apply_desired env (byName (mg_store m) current) desired ([], {}, 0) (m\<lparr>mg_world := w1\<rparr>) of
             ((nxt, keep, changes), m2) \<Rightarrow>
               (case retire nxt keep current changes m2 of
                  (changes', m3) \<Rightarrow>
                    if changes' = 0 then (None, m3)
                    else (None,
                          manager_changed env
                            (m3\<lparr>mg_router := router_replace nxt (mg_router m3),
                                mg_metrics := ObserveWorkspaceReload ''reloaded'' (mg_metrics m3)\<rparr>)))))"

definition manager_tick :: "('p, 'w) manager_env \<Rightarrow> ('w \<Rightarrow> (string, WorkspaceConfig list) result \<times> 'w) \<Rightarrow>
    ('p, 'w) manager \<Rightarrow> ('p, 'w) manager" where
  "manager_tick env reload m =
     (case manager_reconcile env reload m of
        (Some _, m') \<Rightarrow> m'\<lparr>mg_metrics := ObserveWorkspaceReload ''error'' (mg_metrics m')\<rparr>
      | (None, m') \<Rightarrow> m')"

text \<open>The first ticks of \<open>run\<close>, and the whole of it.\<close>

definition manager_run :: "('p, 'w) manager_env \<Rightarrow> duration \<Rightarrow> nat \<Rightarrow> ('p, 'w) manager \<Rightarrow> ('p, 'w) manager" where
  "manager_run env period ticks m =
     (case me_reload env of
        None \<Rightarrow> m
      | Some reload \<Rightarrow> if period \<le> 0 then m else (manager_tick env reload ^^ ticks) m)"

definition manager_loop :: "('p, 'w) manager_env \<Rightarrow> duration \<Rightarrow> (nat \<Rightarrow> tick_case) \<Rightarrow> ('p, 'w) manager \<Rightarrow>
    (string, ('p, 'w) manager) result option" where
  "manager_loop env period chosen m =
     (case me_reload env of
        None \<Rightarrow> Some (Ok m)
      | Some reload \<Rightarrow>
          if period \<le> 0 then Some (Ok m) else ticking period (tick_turn (manager_tick env reload)) chosen m)"

lemma manager_loop_returns:
  assumes "heeds (\<lambda>e. e = Ended) over chosen" and "me_reload env \<noteq> None" and "0 < period"
  shows "returns_when over (manager_loop env period chosen m) (\<lambda>n. manager_run env period n m)"
  using ticker_returns[OF assms(1,3), of "manager_tick env (the (me_reload env))" m] assms(2,3)
  by (auto simp: manager_loop_def manager_run_def)

section \<open>Fingerprints\<close>

text \<open>
  A group matcher that was parsed, from entries without a comma or a NUL. No API group has either in its
  name; but \<open>ParseGroupMatcher\<close> does not refuse them, and a quoted entry of the workspaces file, or of
  \<open>--api-group\<close>, can have them.
\<close>

definition parsed_matcher :: "group_matcher \<Rightarrow> bool" where
  "parsed_matcher g \<longleftrightarrow>
     (\<exists>es. ParseGroupMatcher es = Ok g \<and> (\<forall>e\<in>set es. CHR '','' \<notin> set e \<and> CHR 0x00 \<notin> set e))"

definition printable :: "WorkspaceConfig \<Rightarrow> bool" where
  "printable c \<longleftrightarrow>
     CHR 0x00 \<notin> set (wc_Name c) \<and> CHR 0x00 \<notin> set (wc_Kubeconfig c) \<and> parsed_matcher (wc_APIGroups c)"

lemma matcher_String_inj:
  assumes "parsed_matcher a" and "parsed_matcher b" and "matcher_String (Some a) = matcher_String (Some b)"
  shows "a = b"
proof -
  have "ParseGroupMatcher (split_on (CHR '','') (matcher_String (Some g))) = Ok g" if g: "parsed_matcher g" for g
  proof -
    from g obtain es where es: "ParseGroupMatcher es = Ok g" "\<forall>e\<in>set es. CHR '','' \<notin> set e"
      unfolding parsed_matcher_def by blast
    show ?thesis unfolding split_matcher_String[OF es] by (rule reparse_parts[OF es(1)])
  qed
  from this[OF assms(1)] this[OF assms(2)] have "Ok a = (Ok b :: (group_error, group_matcher) result)"
    unfolding assms(3) by (rule trans[OF sym])
  then show ?thesis by simp
qed

lemma matcher_String_no_nul:
  assumes "parsed_matcher g"
  shows "CHR 0x00 \<notin> set (matcher_String (Some g))"
proof -
  from assms obtain es where es: "ParseGroupMatcher es = Ok g" "\<forall>e\<in>set es. CHR 0x00 \<notin> set e"
    unfolding parsed_matcher_def by blast
  have "CHR 0x00 \<notin> set (join '','' ws)" if "\<forall>w\<in>set ws. CHR 0x00 \<notin> set w" for ws
    using that by (induction "'','' :: string" ws rule: join.induct) auto
  with es(2) set_matcher_parts[OF es(1)] show ?thesis by (simp add: matcher_String_def)
qed

lemma fingerprint_parts_no_nul: "printable c \<Longrightarrow> \<forall>w\<in>set (fingerprint_parts c). CHR 0x00 \<notin> set w"
  by (simp add: printable_def fingerprint_parts_def matcher_String_no_nul show_bool_no_nul duration_no_nul
      show_int_no_nul)

text \<open>
  Without that, two configurations can share a fingerprint. An entry with a comma in it is taken for a
  group of that name, which no group has; put right, it prints as before, so that the reload which reads
  the corrected file finds nothing to do.
\<close>

lemma comma_entry_collides:
  "\<exists>typo right. ParseGroupMatcher [''a.com,b.com''] = Ok typo \<and> ParseGroupMatcher [''a.com'', ''b.com''] = Ok right \<and>
     \<not> Matches (Some typo) ''a.com'' \<and> Matches (Some right) ''a.com'' \<and>
     fingerprint (c\<lparr>wc_APIGroups := typo\<rparr>) = fingerprint (c\<lparr>wc_APIGroups := right\<rparr>)"
proof -
  let ?typo = "\<lparr>gm_exact = {''a.com,b.com''}, gm_suffixes = [], gm_excludedExact = {}, gm_excludedSuffixes = []\<rparr>"
  let ?right = "\<lparr>gm_exact = {''a.com'', ''b.com''}, gm_suffixes = [], gm_excludedExact = {}, gm_excludedSuffixes = []\<rparr>"
  have p: "ParseGroupMatcher [''a.com,b.com''] = Ok ?typo" "ParseGroupMatcher [''a.com'', ''b.com''] = Ok ?right"
    by code_simp+
  have m: "\<not> Matches (Some ?typo) ''a.com''" "Matches (Some ?right) ''a.com''" by code_simp+
  have "matcher_String (Some ?typo) = ''a.com,b.com''" "matcher_String (Some ?right) = ''a.com,b.com''" by code_simp+
  then have "fingerprint (c\<lparr>wc_APIGroups := ?typo\<rparr>) = fingerprint (c\<lparr>wc_APIGroups := ?right\<rparr>)"
    by (simp add: fingerprint_def fingerprint_parts_def)
  with p m show ?thesis by blast
qed


section \<open>Invariant\<close>

abbreviation name_of :: "('p, 'w) manager \<Rightarrow> addr \<Rightarrow> string" where
  "name_of m a \<equiv> ws_name (mg_store m a)"

abbreviation routed :: "('p, 'w) manager \<Rightarrow> addr list" where
  "routed m \<equiv> router_snapshot (mg_router m)"

text \<open>
  What is routed is what is live: nothing is served by a workspace that has been stopped, and nothing
  keeps running that is not served. Every routed workspace has been read.
\<close>

definition manager_ok :: "('p, 'w) manager \<Rightarrow> bool" where
  "manager_ok m \<longleftrightarrow>
     distinct (map (name_of m) (routed m)) \<and> mg_live m = set (routed m) \<and>
     (\<forall>a\<in>set (routed m). a < mg_next m \<and> rc_synced (ws_cache (mg_store m a)))"

text \<open>What \<open>build\<close> and \<open>onChange\<close> are relied on for: the name asked for, and leaving the routes alone.\<close>

definition builds_by_name :: "('p, 'w) manager_env \<Rightarrow> bool" where
  "builds_by_name env \<longleftrightarrow>
     (\<forall>c st built st'. me_build env c st = (Ok built, st') \<longrightarrow> ws_name built = wc_Name c)"

definition onChange_only_reads :: "('p, 'w) manager_env \<Rightarrow> bool" where
  "onChange_only_reads env \<longleftrightarrow>
     (\<forall>f st r mx w. me_onChange env = Some f \<longrightarrow> rt_workspaces (fst (f st (r, mx, w))) = rt_workspaces r)"

lemma Refresh_syncs:
  "Refresh parse_gv client now c mx w = (None, c', mx', w') \<Longrightarrow> rc_synced c'"
  by (auto simp: Refresh_def refresh_def Let_def split: sum.splits prod.splits)

lemma launch_fails:
  assumes "launch env c m = (Err e, m')"
  shows "mg_store m' = mg_store m" "mg_next m' = mg_next m" "mg_router m' = mg_router m" "mg_live m' = mg_live m"
  using assms by (auto simp: launch_def Let_def split: sum.splits prod.splits option.splits)

lemma launch_succeeds:
  assumes "launch env c m = (Ok a, m')" and "builds_by_name env"
  shows "a = mg_next m" "mg_next m' = mg_next m + 1" "mg_router m' = mg_router m"
    "mg_live m' = insert a (mg_live m)" "\<forall>b. b \<noteq> a \<longrightarrow> mg_store m' b = mg_store m b"
    "name_of m' a = wc_Name c" "ws_fingerprint (mg_store m' a) = fingerprint c"
    "rc_synced (ws_cache (mg_store m' a))"
proof -
  obtain built mx1 w1 where b: "me_build env c (mg_metrics m, mg_world m) = (Ok built, (mx1, w1))"
    using assms(1) by (auto simp: launch_def split: sum.splits prod.splits)
  let ?b = "built\<lparr>ws_fingerprint := fingerprint c\<rparr>"
  obtain cache mx2 w2 where r: "Refresh (me_ParseGroupVersion env) (me_discovery env ?b) (me_now env)
      (ws_cache ?b) mx1 w1 = (None, cache, mx2, w2)"
    using assms(1) b by (auto simp: launch_def Let_def split: sum.splits prod.splits option.splits)
  obtain w3 where w: "me_watch env (?b\<lparr>ws_cache := cache\<rparr>) w2 = (Ok (), w3)"
    using assms(1) b r by (auto simp: launch_def Let_def split: sum.splits prod.splits option.splits)
  have n: "ws_name built = wc_Name c" using assms(2) b unfolding builds_by_name_def by blast
  from assms(1) b r w have a: "a = mg_next m" and m': "m' = m\<lparr>mg_store := (mg_store m)(mg_next m := ?b\<lparr>ws_cache := cache\<rparr>),
      mg_next := mg_next m + 1, mg_live := insert (mg_next m) (mg_live m), mg_metrics := mx2, mg_world := w3\<rparr>"
    by (auto simp: launch_def Let_def)
  show "a = mg_next m" "mg_next m' = mg_next m + 1" "mg_router m' = mg_router m"
    "mg_live m' = insert a (mg_live m)" "\<forall>b. b \<noteq> a \<longrightarrow> mg_store m' b = mg_store m b"
    "name_of m' a = wc_Name c" "ws_fingerprint (mg_store m' a) = fingerprint c"
    "rc_synced (ws_cache (mg_store m' a))"
    using a n Refresh_syncs[OF r] by (simp_all add: m')
qed

section \<open>The loop over the configuration\<close>

definition up_as_configured :: "('p, 'w) manager \<Rightarrow> addr list \<Rightarrow> WorkspaceConfig \<Rightarrow> bool" where
  "up_as_configured m as c \<longleftrightarrow>
     (\<exists>a\<in>set as. name_of m a = wc_Name c \<and> ws_fingerprint (mg_store m a) = fingerprint c)"

definition cannot_launch :: "('p, 'w) manager_env \<Rightarrow> WorkspaceConfig \<Rightarrow> bool" where
  "cannot_launch env c \<longleftrightarrow> (\<exists>m e m'. launch env c m = (Err e, m'))"

text \<open>
  Where the loop stands after the entries \<open>seen\<close>, over the set \<open>old\<close> that was routed when it began in \<open>m0\<close>.
\<close>

definition applied :: "('p, 'w) manager_env \<Rightarrow> ('p, 'w) manager \<Rightarrow> WorkspaceConfig list \<Rightarrow> addr list \<times> string set \<times> nat \<Rightarrow>
    ('p, 'w) manager \<Rightarrow> bool" where
  "applied env m0 seen acc m \<longleftrightarrow>
     (case acc of (nxt, keep, changes) \<Rightarrow>
        mg_router m = mg_router m0 \<and> mg_next m0 \<le> mg_next m \<and>
        (\<forall>a<mg_next m0. mg_store m a = mg_store m0 a) \<and>
        mg_live m = set (routed m0) \<union> set nxt \<and>
        (\<forall>a\<in>set nxt. a < mg_next m \<and> rc_synced (ws_cache (mg_store m a)) \<and> (a \<in> set (routed m0) \<or> mg_next m0 \<le> a)) \<and>
        distinct (map (name_of m) nxt) \<and>
        (\<forall>a\<in>set nxt. \<exists>c\<in>set seen. name_of m a = wc_Name c \<and>
           (ws_fingerprint (mg_store m a) = fingerprint c \<or> a \<in> set (routed m0))) \<and>
        keep = name_of m ` (set nxt \<inter> set (routed m0)) \<and>
        (changes = 0 \<longrightarrow> set nxt \<subseteq> set (routed m0)) \<and>
        (\<forall>c\<in>set seen. up_as_configured m nxt c \<or> cannot_launch env c) \<and>
        (\<forall>c\<in>set seen. \<forall>a\<in>set (routed m0). name_of m0 a = wc_Name c \<longrightarrow>
           wc_Name c \<in> name_of m ` set nxt \<and>
           (ws_fingerprint (mg_store m0 a) = fingerprint c \<longrightarrow> a \<in> set nxt)))"

lemma byName_routed:
  assumes "distinct (map (\<lambda>a. ws_name (st a)) as)"
  shows "byName st as n = Some a \<longleftrightarrow> a \<in> set as \<and> ws_name (st a) = n"
proof -
  have "distinct (map fst (rev (map (\<lambda>a. (ws_name (st a), a)) as)))"
    using assms by (simp add: comp_def rev_map[symmetric])
  then show ?thesis unfolding byName_def by (auto simp: map_of_eq_Some_iff image_iff)
qed

lemma byName_none:
  assumes "distinct (map (\<lambda>a. ws_name (st a)) as)"
  shows "byName st as n = None \<longleftrightarrow> (\<forall>a\<in>set as. ws_name (st a) \<noteq> n)"
  using byName_routed[OF assms, of n] by (cases "byName st as n") auto

text \<open>A routed workspace keeps its place, a failed entry nothing runs for is passed over, a new one joins.\<close>

lemma applied_keep:
  assumes ok: "manager_ok m0" and inv: "applied env m0 seen (nxt, keep, changes) m"
    and same: "mg_store m' = mg_store m" "mg_next m' = mg_next m" "mg_router m' = mg_router m" "mg_live m' = mg_live m"
    and a: "a \<in> set (routed m0)" "name_of m0 a = wc_Name c" and new: "wc_Name c \<notin> wc_Name ` set seen"
    and why: "ws_fingerprint (mg_store m0 a) = fingerprint c \<or> cannot_launch env c"
  shows "applied env m0 (seen @ [c]) (nxt @ [a], insert (wc_Name c) keep, changes) m'"
proof -
  have lt: "a < mg_next m0" using ok a(1) by (simp add: manager_ok_def)
  have st: "mg_store m a = mg_store m0 a" using inv lt by (simp add: applied_def)
  have sync: "rc_synced (ws_cache (mg_store m a))" using ok a(1) by (simp add: manager_ok_def st)
  have nm: "name_of m a = wc_Name c" using st a(2) by simp
  have fresh: "wc_Name c \<notin> name_of m ` set nxt" using inv new by (force simp: applied_def)
  have only: "b = a" if "b \<in> set (routed m0)" "name_of m0 b = wc_Name c" for b
    using ok a that by (intro distinct_map_eq[of "name_of m0" "routed m0"]) (simp_all add: manager_ok_def)
  have old: "\<forall>d\<in>set seen. \<forall>b\<in>set (routed m0). name_of m0 b = wc_Name d \<longrightarrow>
      wc_Name d \<in> name_of m ` set (nxt @ [a]) \<and> (ws_fingerprint (mg_store m0 b) = fingerprint d \<longrightarrow> b \<in> set (nxt @ [a]))"
    using inv by (auto simp: applied_def)
  have now: "\<forall>b\<in>set (routed m0). name_of m0 b = wc_Name c \<longrightarrow>
      wc_Name c \<in> name_of m ` set (nxt @ [a]) \<and> (ws_fingerprint (mg_store m0 b) = fingerprint c \<longrightarrow> b \<in> set (nxt @ [a]))"
    using only nm by auto
  from old now have cover: "\<forall>d\<in>set (seen @ [c]). \<forall>b\<in>set (routed m0). name_of m0 b = wc_Name d \<longrightarrow>
      wc_Name d \<in> name_of m ` set (nxt @ [a]) \<and> (ws_fingerprint (mg_store m0 b) = fingerprint d \<longrightarrow> b \<in> set (nxt @ [a]))"
    by simp
  have from_done: "\<forall>b\<in>set (nxt @ [a]). \<exists>d\<in>set (seen @ [c]). name_of m b = wc_Name d \<and>
      (ws_fingerprint (mg_store m b) = fingerprint d \<or> b \<in> set (routed m0))"
    using inv nm a(1) by (auto simp: applied_def)
  have keeps: "insert (wc_Name c) keep = name_of m ` (set (nxt @ [a]) \<inter> set (routed m0))"
    using inv nm a(1) by (auto simp: applied_def)
  have up: "\<forall>d\<in>set (seen @ [c]). up_as_configured m (nxt @ [a]) d \<or> cannot_launch env d"
    using inv nm st why by (auto simp: applied_def up_as_configured_def)
  then have up': "\<forall>d\<in>set (seen @ [c]). up_as_configured m' (nxt @ [a]) d \<or> cannot_launch env d"
    by (simp add: up_as_configured_def same)
  show ?thesis
    using inv cover from_done keeps fresh nm sync lt a(1) up' unfolding applied_def same prod.case by auto
qed

lemma applied_skip:
  assumes inv: "applied env m0 seen (nxt, keep, changes) m"
    and same: "mg_store m' = mg_store m" "mg_next m' = mg_next m" "mg_router m' = mg_router m" "mg_live m' = mg_live m"
    and none: "\<forall>a\<in>set (routed m0). name_of m0 a \<noteq> wc_Name c" and why: "cannot_launch env c"
  shows "applied env m0 (seen @ [c]) (nxt, keep, changes) m'"
proof -
  have "\<forall>d\<in>set (seen @ [c]). up_as_configured m' nxt d \<or> cannot_launch env d"
    using inv why by (auto simp: applied_def up_as_configured_def same)
  with inv none show ?thesis unfolding applied_def same prod.case by auto
qed

lemma applied_launch:
  assumes ok: "manager_ok m0" and inv: "applied env m0 seen (nxt, keep, changes) m"
    and run: "launch env c m = (Ok a, m')" and b: "builds_by_name env"
    and new: "wc_Name c \<notin> wc_Name ` set seen"
    and differs: "\<forall>b\<in>set (routed m0). name_of m0 b = wc_Name c \<longrightarrow> ws_fingerprint (mg_store m0 b) \<noteq> fingerprint c"
  shows "applied env m0 (seen @ [c]) (nxt @ [a], keep, changes + 1) m'"
proof -
  note l = launch_succeeds[OF run b]
  have keep_store: "mg_store m' x = mg_store m x" if "x < mg_next m" for x
    using l(1,5) that by auto
  have old_lt: "x < mg_next m" if "x \<in> set (routed m0)" for x
    using ok inv that by (force simp: manager_ok_def applied_def)
  have next_lt: "x < mg_next m" if "x \<in> set nxt" for x using inv that by (simp add: applied_def)
  have stn: "mg_store m' x = mg_store m x" if "x \<in> set nxt" for x using keep_store next_lt that by blast
  have names: "map (name_of m') nxt = map (name_of m) nxt" by (simp add: stn)
  have img: "name_of m' ` set nxt = name_of m ` set nxt" using stn by (auto simp: image_iff)
  have img2: "name_of m' ` (set nxt \<inter> X) = name_of m ` (set nxt \<inter> X)" for X using stn by (auto simp: image_iff)
  have a_new: "a \<notin> set (routed m0)" using old_lt l(1) by auto
  have fresh: "wc_Name c \<notin> name_of m ` set nxt" using inv new by (force simp: applied_def)
  have st0: "mg_store m' x = mg_store m0 x" if "x < mg_next m0" for x
    using inv that keep_store[of x] by (simp add: applied_def)
  have c1: "\<forall>x\<in>set (nxt @ [a]). x < mg_next m' \<and> rc_synced (ws_cache (mg_store m' x)) \<and>
      (x \<in> set (routed m0) \<or> mg_next m0 \<le> x)"
    using inv l(1,2,8) stn by (auto simp: applied_def)
  have c2: "distinct (map (name_of m') (nxt @ [a]))"
    using inv fresh l(6) by (simp add: applied_def names img)
  have c3: "\<forall>x\<in>set (nxt @ [a]). \<exists>d\<in>set (seen @ [c]). name_of m' x = wc_Name d \<and>
      (ws_fingerprint (mg_store m' x) = fingerprint d \<or> x \<in> set (routed m0))"
    using inv l(6,7) stn by (auto simp: applied_def)
  have c4: "keep = name_of m' ` (set (nxt @ [a]) \<inter> set (routed m0))"
    using inv a_new img2 by (simp add: applied_def Int_insert_left)
  have c5: "\<forall>d\<in>set (seen @ [c]). \<forall>x\<in>set (routed m0). name_of m0 x = wc_Name d \<longrightarrow>
      wc_Name d \<in> name_of m' ` set (nxt @ [a]) \<and> (ws_fingerprint (mg_store m0 x) = fingerprint d \<longrightarrow> x \<in> set (nxt @ [a]))"
    using inv differs l(6) img by (auto simp: applied_def)
  have c6: "\<forall>d\<in>set (seen @ [c]). up_as_configured m' (nxt @ [a]) d \<or> cannot_launch env d"
    using inv l(6,7) stn by (auto simp: applied_def up_as_configured_def)
  show ?thesis
    using inv c1 c2 c3 c4 c5 c6 st0 l(2,3,4) unfolding applied_def prod.case by auto
qed

lemma apply_desired_applied:
  assumes ok: "manager_ok m0" and b: "builds_by_name env"
  shows "applied env m0 seen (nxt, keep, changes) m \<Longrightarrow> distinct (map wc_Name (seen @ cs)) \<Longrightarrow>
    apply_desired env (byName (mg_store m0) (routed m0)) cs (nxt, keep, changes) m = (acc', m') \<Longrightarrow>
    applied env m0 (seen @ cs) acc' m'"
proof (induction cs arbitrary: seen nxt keep changes m)
  case Nil
  then show ?case by simp
next
  case (Cons c cs)
  let ?by = "byName (mg_store m0) (routed m0)"
  have d: "distinct (map (name_of m0) (routed m0))" using ok by (simp add: manager_ok_def)
  have new: "wc_Name c \<notin> wc_Name ` set seen" using Cons.prems(2) by auto
  have dist: "distinct (map wc_Name ((seen @ [c]) @ cs))" using Cons.prems(2) by simp
  have go: ?case if "applied env m0 (seen @ [c]) (n1, k1, ch1) m1"
      "apply_desired env ?by cs (n1, k1, ch1) m1 = (acc', m')" for n1 k1 ch1 m1
    using Cons.IH[OF that(1) dist that(2)] by simp
  have fp: "ws_fingerprint (mg_store m a) = ws_fingerprint (mg_store m0 a)" if "?by (wc_Name c) = Some a" for a
    using that byName_routed[OF d] ok Cons.prems(1) by (auto simp: manager_ok_def applied_def)
  show ?case
  proof (cases "\<exists>a. ?by (wc_Name c) = Some a \<and> ws_fingerprint (mg_store m a) = fingerprint c")
    case True
    then obtain a where a: "?by (wc_Name c) = Some a" "ws_fingerprint (mg_store m a) = fingerprint c" by blast
    have inv: "applied env m0 (seen @ [c]) (nxt @ [a], insert (wc_Name c) keep, changes) m"
      using applied_keep[OF ok Cons.prems(1) refl refl refl refl _ _ new] a fp[OF a(1)] byName_routed[OF d] by simp
    show ?thesis by (rule go[OF inv]) (use Cons.prems(3) a in simp)
  next
    case False
    then have nf: "\<not> (case ?by (wc_Name c) of None \<Rightarrow> False | Some a \<Rightarrow> ws_fingerprint (mg_store m a) = fingerprint c)"
      by (simp split: option.split)
    obtain r m1 where l: "launch env c m = (r, m1)" by (metis surj_pair)
    show ?thesis
    proof (cases r)
      case (Inl e)
      note f = launch_fails[OF l[unfolded Inl]]
      let ?m2 = "m1\<lparr>mg_metrics := ObserveWorkspaceReload ''error'' (mg_metrics m1)\<rparr>"
      have same: "mg_store ?m2 = mg_store m" "mg_next ?m2 = mg_next m" "mg_router ?m2 = mg_router m" "mg_live ?m2 = mg_live m"
        by (simp_all add: f)
      have why: "cannot_launch env c" using l Inl unfolding cannot_launch_def by blast
      show ?thesis
      proof (cases "?by (wc_Name c)")
        case None
        have inv: "applied env m0 (seen @ [c]) (nxt, keep, changes) ?m2"
          by (rule applied_skip[OF Cons.prems(1) same]) (use None byName_none[OF d] why in blast)+
        show ?thesis by (rule go[OF inv]) (use Cons.prems(3) nf l Inl None in \<open>simp add: Let_def\<close>)
      next
        case (Some a)
        have inv: "applied env m0 (seen @ [c]) (nxt @ [a], insert (wc_Name c) keep, changes) ?m2"
          using applied_keep[OF ok Cons.prems(1) same _ _ new] why Some byName_routed[OF d] by blast
        show ?thesis by (rule go[OF inv]) (use Cons.prems(3) nf l Inl Some in \<open>simp add: Let_def\<close>)
      qed
    next
      case (Inr a)
      have differs: "\<forall>x\<in>set (routed m0). name_of m0 x = wc_Name c \<longrightarrow> ws_fingerprint (mg_store m0 x) \<noteq> fingerprint c"
      proof (intro ballI impI)
        fix x assume x: "x \<in> set (routed m0)" "name_of m0 x = wc_Name c"
        then have "?by (wc_Name c) = Some x" using byName_routed[OF d] by blast
        with False fp show "ws_fingerprint (mg_store m0 x) \<noteq> fingerprint c" by auto
      qed
      have inv: "applied env m0 (seen @ [c]) (nxt @ [a], keep, changes + 1) m1"
        by (rule applied_launch[OF ok Cons.prems(1) l[unfolded Inr] b new differs])
      show ?thesis by (rule go[OF inv]) (use Cons.prems(3) nf l Inr in simp)
    qed
  qed
qed

lemma retire_effect:
  assumes "retire nxt keep as changes m = (changes', m')"
  shows "mg_store m' = mg_store m" "mg_next m' = mg_next m" "mg_router m' = mg_router m"
    "mg_live m' = mg_live m - {a \<in> set as. name_of m a \<notin> keep}"
    "changes \<le> changes'" "changes' = changes \<Longrightarrow> {a \<in> set as. name_of m a \<notin> keep} \<subseteq> set nxt"
proof -
  have "mg_store m' = mg_store m \<and> mg_next m' = mg_next m \<and> mg_router m' = mg_router m \<and>
    mg_live m' = mg_live m - {a \<in> set as. name_of m a \<notin> keep} \<and> changes \<le> changes' \<and>
    (changes' = changes \<longrightarrow> {a \<in> set as. name_of m a \<notin> keep} \<subseteq> set nxt)"
    using assms
  proof (induction as arbitrary: changes m)
    case Nil
    then show ?case by simp
  next
    case (Cons a as)
    show ?case
    proof (cases "name_of m a \<in> keep")
      case True
      then have "retire nxt keep as changes m = (changes', m')" using Cons.prems by simp
      from Cons.IH[OF this] True show ?thesis by auto
    next
      case False
      let ?n = "if containsWorkspace nxt a then changes else changes + 1"
      have run: "retire nxt keep as ?n (m\<lparr>mg_live := mg_live m - {a}\<rparr>) = (changes', m')"
        using Cons.prems False by simp
      have c: "containsWorkspace nxt a \<longleftrightarrow> a \<in> set nxt" by (auto simp: containsWorkspace_def list_ex_iff)
      note ih = Cons.IH[OF run]
      have set: "{x \<in> set (a # as). name_of m x \<notin> keep} = insert a {x \<in> set as. name_of m x \<notin> keep}"
        using False by auto
      have live: "mg_live m - {a} - {x \<in> set as. name_of m x \<notin> keep} =
          mg_live m - insert a {x \<in> set as. name_of m x \<notin> keep}" by blast
      have "changes \<le> changes' \<and> (changes' = changes \<longrightarrow> a \<in> set nxt)"
        using ih c by (cases "a \<in> set nxt") simp_all
      with ih c show ?thesis unfolding set live[symmetric] by (simp split: if_splits)
    qed
  qed
  then show "mg_store m' = mg_store m" "mg_next m' = mg_next m" "mg_router m' = mg_router m"
    "mg_live m' = mg_live m - {a \<in> set as. name_of m a \<notin> keep}"
    "changes \<le> changes'" "changes' = changes \<Longrightarrow> {a \<in> set as. name_of m a \<notin> keep} \<subseteq> set nxt"
    by blast+
qed

lemma manager_changed_frame:
  assumes "onChange_only_reads env"
  shows "mg_store (manager_changed env m) = mg_store m" "mg_next (manager_changed env m) = mg_next m"
    "mg_live (manager_changed env m) = mg_live m" "routed (manager_changed env m) = routed m"
proof -
  show "mg_store (manager_changed env m) = mg_store m" "mg_next (manager_changed env m) = mg_next m"
    "mg_live (manager_changed env m) = mg_live m"
    by (simp_all add: manager_changed_def split: option.splits prod.splits)
  show "routed (manager_changed env m) = routed m"
  proof (cases "me_onChange env")
    case None
    then show ?thesis by (simp add: manager_changed_def)
  next
    case (Some f)
    obtain r mx w where f: "f (mg_store m) (mg_router m, mg_metrics m, mg_world m) = (r, mx, w)" by (metis prod_cases3)
    have "rt_workspaces r = rt_workspaces (mg_router m)"
      using assms Some f unfolding onChange_only_reads_def by (metis fst_conv)
    then show ?thesis by (simp add: manager_changed_def Some f router_snapshot_def)
  qed
qed

text \<open>A configuration, distinct by name, has been applied to what was routed in \<open>m\<close> when \<open>m'\<close> is reached.\<close>

definition applies :: "('p, 'w) manager_env \<Rightarrow> WorkspaceConfig list \<Rightarrow> ('p, 'w) manager \<Rightarrow> ('p, 'w) manager \<Rightarrow> bool" where
  "applies env desired m m' \<longleftrightarrow>
     (\<forall>a\<in>set (routed m'). \<exists>c\<in>set desired. name_of m' a = wc_Name c \<and>
        (ws_fingerprint (mg_store m' a) = fingerprint c \<or> a \<in> set (routed m))) \<and>
     (\<forall>c\<in>set desired. \<forall>a\<in>set (routed m). name_of m a = wc_Name c \<longrightarrow>
        wc_Name c \<in> name_of m' ` set (routed m') \<and>
        (ws_fingerprint (mg_store m a) = fingerprint c \<longrightarrow> a \<in> set (routed m'))) \<and>
     (\<forall>c\<in>set desired. up_as_configured m' (routed m') c \<or> cannot_launch env c) \<and>
     (\<forall>a\<in>set (routed m). mg_store m' a = mg_store m a)"

lemma reconcile_reached:
  assumes ok: "manager_ok m" and inv: "applied env m desired (nxt, keep, changes) m2"
    and ret: "retire nxt keep (routed m) changes m2 = (changes', m3)"
  shows "mg_live m3 = set nxt" and "changes' = 0 \<Longrightarrow> set nxt = set (routed m)"
proof -
  note r = retire_effect[OF ret]
  have st: "name_of m2 a = name_of m a" if "a \<in> set (routed m)" for a
    using ok inv that by (auto simp: manager_ok_def applied_def)
  have kept: "name_of m2 a \<in> keep \<longleftrightarrow> a \<in> set nxt" if a: "a \<in> set (routed m)" for a
  proof
    assume "name_of m2 a \<in> keep"
    then obtain b where b: "b \<in> set nxt" "b \<in> set (routed m)" "name_of m2 b = name_of m2 a"
      using inv by (auto simp: applied_def)
    have "b = a" using ok b(2,3) a st by (intro distinct_map_eq[of "name_of m" "routed m"]) (simp_all add: manager_ok_def)
    with b(1) show "a \<in> set nxt" by simp
  next
    assume "a \<in> set nxt"
    with inv a show "name_of m2 a \<in> keep" by (auto simp: applied_def)
  qed
  have gone: "{a \<in> set (routed m). name_of m2 a \<notin> keep} = set (routed m) - set nxt" using kept by blast
  show "mg_live m3 = set nxt" using inv unfolding r(4) gone by (auto simp: applied_def)
  assume "changes' = 0"
  then have "changes' = changes" "changes = 0" using r(5) by simp_all
  with r(6) gone inv show "set nxt = set (routed m)" by (auto simp: applied_def)
qed

lemma applied_after:
  assumes ok: "manager_ok m" and inv: "applied env m desired (nxt, keep, changes) m2"
    and "mg_store m' = mg_store m2" "mg_next m' = mg_next m2" "mg_live m' = set nxt"
    and "set (routed m') = set nxt" "distinct (map (name_of m') (routed m'))"
  shows "manager_ok m' \<and> applies env desired m m'"
proof -
  have lt: "\<forall>a\<in>set (routed m). a < mg_next m" using ok by (simp add: manager_ok_def)
  have "manager_ok m'" using inv assms(3-7) by (auto simp: manager_ok_def applied_def)
  moreover have "applies env desired m m'"
    using inv lt unfolding applies_def applied_def up_as_configured_def prod.case assms(3,6) by auto
  ultimately show ?thesis by blast
qed

lemma reconcile_applies:
  assumes "manager_ok m" and "builds_by_name env" and "onChange_only_reads env"
    and "reload (mg_world m) = (Ok desired, w1)" and "distinct (map wc_Name desired)"
    and "manager_reconcile env reload m = (failed, m')"
  shows "failed = None \<and> manager_ok m' \<and> applies env desired m m'"
proof -
  let ?m1 = "m\<lparr>mg_world := w1\<rparr>"
  obtain nxt keep changes m2 where ad:
    "apply_desired env (byName (mg_store m) (routed m)) desired ([], {}, 0) ?m1 = ((nxt, keep, changes), m2)"
    by (metis prod.collapse)
  have "applied env m [] ([], {}, 0) ?m1" using assms(1) by (simp add: applied_def manager_ok_def)
  from apply_desired_applied[OF assms(1,2) this _ ad] assms(5)
  have inv: "applied env m desired (nxt, keep, changes) m2" by simp
  obtain changes' m3 where ret: "retire nxt keep (routed m) changes m2 = (changes', m3)" by (metis surj_pair)
  note r = retire_effect[OF ret] and live = reconcile_reached[OF assms(1) inv ret]
  have dn: "distinct (map (name_of m2) nxt)" and rt: "routed m2 = routed m" using inv by (simp_all add: applied_def)
  show ?thesis
  proof (cases "changes' = 0")
    case True
    have m': "failed = None" "m' = m3" using assms(4,6) ad ret True by (simp_all add: manager_reconcile_def Let_def)
    have rt3: "routed m3 = routed m" using rt by (simp add: r(3))
    have "map (name_of m3) (routed m3) = map (name_of m) (routed m)"
      using assms(1) inv by (auto simp: r(1,3) manager_ok_def applied_def)
    then have "distinct (map (name_of m3) (routed m3))" using assms(1) by (simp add: manager_ok_def)
    from applied_after[OF assms(1) inv r(1,2) live(1) _ this] live(2)[OF True] m' rt3 show ?thesis by simp
  next
    case False
    let ?m4 = "m3\<lparr>mg_router := router_replace nxt (mg_router m3),
        mg_metrics := ObserveWorkspaceReload ''reloaded'' (mg_metrics m3)\<rparr>"
    have m': "failed = None" "m' = manager_changed env ?m4"
      using assms(4,6) ad ret False by (simp_all add: manager_reconcile_def Let_def)
    note fr = manager_changed_frame[OF assms(3), of ?m4]
    have routed: "routed ?m4 = nxt" by (simp add: router_snapshot_def router_replace_eq)
    show ?thesis
      using applied_after[OF assms(1) inv, of m'] dn live(1) fr routed r(1,2) by (simp add: m')
  qed
qed

text \<open>
  C12. Re-reading the configuration applies it: what is routed and what is running stay the same set
  of workspaces, each of them read before it was routed; nothing is routed that the configuration
  does not name, so a removal is applied whatever else fails; a workspace whose configuration did not
  change is the same object as before; and one whose replacement could not be brought up keeps being
  served by the old one. Every entry is up as configured unless it is one that cannot be launched.
\<close>

theorem reload_applies_the_configuration:
  assumes "manager_ok m" and "builds_by_name env" and "onChange_only_reads env"
    and "reload (mg_world m) = (Ok desired, w1)" and "distinct (map wc_Name desired)"
    and "manager_reconcile env reload m = (failed, m')"
  shows "failed = None \<and> manager_ok m' \<and> applies env desired m m'"
  by (rule reconcile_applies[OF assms])

section \<open>One workspace swapped for another, beside an entry that does not build\<close>

definition sample_config :: "string \<Rightarrow> WorkspaceConfig" where
  "sample_config name =
     \<lparr>wc_Name = name, wc_Kubeconfig = [], wc_APIGroups = sample_matcher, wc_Backend = sample_cred_options,
      wc_ImpersonateUsers = False\<rparr>"

definition sample_manager_env :: "(unit, unit) manager_env" where
  "sample_manager_env =
     \<lparr>me_build = (\<lambda>c st. (if wc_Name c = ''bad'' then Err ''no kubeconfig'' else Ok (sample_workspace (wc_Name c)), st)),
      me_reload = None, me_watch = (\<lambda>_ w. (Ok (), w)), me_onChange = None,
      me_discovery = (\<lambda>_. \<lparr>dc_ServerGroups = (\<lambda>w. (Ok [], w)), dc_ServerResources = (\<lambda>_ w. (Ok [], w))\<rparr>),
      me_ParseGroupVersion = sample_parse, me_now = (\<lambda>_. 0)\<rparr>"

definition sample_manager :: "(unit, unit) manager" where
  "sample_manager =
     \<lparr>mg_store = sample_store, mg_next = 1, mg_router = newRouter [0], mg_live = {0}, mg_metrics = no_metrics,
      mg_world = ()\<rparr>"

lemma sample_launches: "\<not> cannot_launch sample_manager_env (sample_config ''second'')"
  by (simp add: cannot_launch_def launch_def sample_manager_env_def sample_config_def Refresh_def refresh_def Let_def)

theorem reload_applies_the_configuration_witness:
  "\<exists>m'. manager_reconcile sample_manager_env (\<lambda>w. (Ok [sample_config ''second'', sample_config ''bad''], w))
          sample_manager = (None, m') \<and>
     up_as_configured m' (routed m') (sample_config ''second'') \<and> 0 \<notin> set (routed m')"
proof -
  let ?reload = "\<lambda>w. (Ok [sample_config ''second'', sample_config ''bad''], w)"
  obtain failed m' where run: "manager_reconcile sample_manager_env ?reload sample_manager = (failed, m')"
    by (metis surj_pair)
  have r: "routed sample_manager = [0]"
    by (simp add: sample_manager_def newRouter_def router_replace_eq router_snapshot_def)
  have ok: "manager_ok sample_manager"
    unfolding manager_ok_def r by (simp add: sample_manager_def sample_store_def sample_workspace_def)
  have env: "builds_by_name sample_manager_env" "onChange_only_reads sample_manager_env"
    by (auto simp: builds_by_name_def onChange_only_reads_def sample_manager_env_def sample_workspace_def
        split: if_splits)
  have d: "distinct (map wc_Name [sample_config ''second'', sample_config ''bad''])" by (simp add: sample_config_def)
  from reload_applies_the_configuration[OF ok env refl d run]
  have f: "failed = None" and a: "applies sample_manager_env [sample_config ''second'', sample_config ''bad''] sample_manager m'"
    by auto
  have up: "up_as_configured m' (routed m') (sample_config ''second'')"
    using a sample_launches unfolding applies_def by auto
  have "ws_name (mg_store m' 0) = ''first''"
    using a unfolding applies_def r by (simp add: sample_manager_def sample_store_def sample_workspace_def)
  then have "0 \<notin> set (routed m')" using a unfolding applies_def by (auto simp: sample_config_def)
  with run f up show ?thesis by blast
qed

lemma sample_printable: "printable (sample_config ''team-a'')" "printable (sample_config ''team-b'')"
proof -
  have "ParseGroupMatcher [''*.b.c''] = Ok sample_matcher" by code_simp
  then have "parsed_matcher sample_matcher" unfolding parsed_matcher_def by (intro exI[of _ "[''*.b.c'']"]) simp
  then show "printable (sample_config ''team-a'')" "printable (sample_config ''team-b'')"
    by (simp_all add: printable_def sample_config_def)
qed


section \<open>The loops in the background\<close>

text \<open>
  C24. The goroutines of a workspace and of the manager: a loop returns when its context is over, and not
  before, provided the scheduler takes the case of the context only then, and some time once it is so.
  None of them panics over its ticker, whatever the intervals configured; one without an interval, a file
  or a way to reload never starts, but for the cache, which refreshes after the default interval then.
  What a loop leaves is what the turns before the one that returned made of it.
\<close>

theorem background_loops_return:
  assumes "heeds stops over wakes" and "heeds (\<lambda>e. e = Ended) over ticks"
    and "heeds (\<lambda>e. e = Ended) over_all reloads"
  shows "returns_when over (Run parse_gv client now backstop onChange wakes c)
           (\<lambda>n. Run_turns parse_gv client now onChange (map wakes [0..<n]) c) \<and>
    (if cs_path (fst s) = [] \<or> period \<le> 0 then cred_loop cenv ws period ticks s = Some (Ok s)
     else returns_when over (cred_loop cenv ws period ticks s) (\<lambda>n. cred_run cenv ws period n s)) \<and>
    (if me_reload menv = None \<or> period \<le> 0 then manager_loop menv period reloads m = Some (Ok m)
     else returns_when over_all (manager_loop menv period reloads m) (\<lambda>n. manager_run menv period n m))"
proof (intro conjI)
  show "returns_when over (Run parse_gv client now backstop onChange wakes c)
      (\<lambda>n. Run_turns parse_gv client now onChange (map wakes [0..<n]) c)"
    by (rule Run_returns[OF assms(1)])
  show "if cs_path (fst s) = [] \<or> period \<le> 0 then cred_loop cenv ws period ticks s = Some (Ok s)
      else returns_when over (cred_loop cenv ws period ticks s) (\<lambda>n. cred_run cenv ws period n s)"
    using cred_loop_returns[OF assms(2), of s period cenv ws] by (simp add: cred_loop_def)
  show "if me_reload menv = None \<or> period \<le> 0 then manager_loop menv period reloads m = Some (Ok m)
      else returns_when over_all (manager_loop menv period reloads m) (\<lambda>n. manager_run menv period n m)"
    using manager_loop_returns[OF assms(3), of menv period m] by (auto simp: manager_loop_def split: option.split)
qed

text \<open>A workspace removed after two turns of its cache and three of its credentials, under a manager that goes on.\<close>

definition sample_wakes :: "nat \<Rightarrow> wakeup" where
  "sample_wakes n = (if n = 0 then Ticked else if n = 1 then Signalled False else Signalled True)"

definition sample_ticks :: "nat \<Rightarrow> tick_case" where
  "sample_ticks n = (if n < 3 then Tick else Ended)"

lemma sample_heeds:
  "heeds stops (\<lambda>n. 2 \<le> n) sample_wakes" "heeds (\<lambda>e. e = Ended) (\<lambda>n. 2 \<le> n) sample_ticks"
  "heeds (\<lambda>e. e = Ended) (\<lambda>_. False) (\<lambda>_. Tick)"
proof -
  have "stops (sample_wakes 2)" "sample_ticks 3 = Ended" by (simp_all add: sample_wakes_def stops_def sample_ticks_def)
  then show "heeds stops (\<lambda>n. 2 \<le> n) sample_wakes" "heeds (\<lambda>e. e = Ended) (\<lambda>n. 2 \<le> n) sample_ticks"
    unfolding heeds_def by (auto simp: sample_wakes_def stops_def sample_ticks_def split: if_splits)
qed (simp add: heeds_def)

theorem background_loops_return_witness:
  "\<forall>m0. \<exists>c' s'. Run sample_parse sample_client int 0 None sample_wakes (NewResourceCache ''w'' m0, no_metrics, 1) = Some (Ok c') \<and>
     cred_loop sample_cred_env ''w'' 5 sample_ticks (sample_cred_source ''old'', no_metrics, 7) = Some (Ok s') \<and>
     manager_loop (sample_manager_env\<lparr>me_reload := Some (\<lambda>w. (Ok [], w))\<rparr>) 5 (\<lambda>_. Tick) sample_manager = None"
proof
  fix m0
  have "cs_path (sample_cred_source ''old'') \<noteq> []" by (simp add: sample_cred_source_def)
  then show "\<exists>c' s'. Run sample_parse sample_client int 0 None sample_wakes (NewResourceCache ''w'' m0, no_metrics, 1) = Some (Ok c') \<and>
     cred_loop sample_cred_env ''w'' 5 sample_ticks (sample_cred_source ''old'', no_metrics, 7) = Some (Ok s') \<and>
     manager_loop (sample_manager_env\<lparr>me_reload := Some (\<lambda>w. (Ok [], w))\<rparr>) 5 (\<lambda>_. Tick) sample_manager = None"
    using background_loops_return[OF sample_heeds, where backstop = 0 and parse_gv = sample_parse and client = sample_client
      and now = int and onChange = None and c = "(NewResourceCache ''w'' m0, no_metrics, 1)" and cenv = sample_cred_env
      and ws = "''w''" and period = 5 and s = "(sample_cred_source ''old'', no_metrics, 7)" and m = sample_manager
      and menv = "sample_manager_env\<lparr>me_reload := Some (\<lambda>w. (Ok [], w))\<rparr>"]
    by (auto simp: returns_when_def split: option.splits sum.splits)
qed

end
