(* ===== verification/Leader.thy ===== *)
theory Leader
  imports Prelude
begin

text \<open>
  \<open>pkg/apiserver/leader.go\<close>: which replica writes. The election is client-go's; what the program
  does is check its options, build it, and keep a flag from its callbacks.
\<close>

record LeaderElectionOptions =
  le_Enabled :: bool
  le_Namespace :: string
  le_Name :: string
  le_LeaseDuration :: duration
  le_RenewDeadline :: duration
  le_RetryPeriod :: duration

datatype leader_option_error =
    LeaseNameRequired
  | LeaseNamespaceRequired
  | LeaseTooShort duration duration
  | RenewTooShort duration duration

definition leader_Validate :: "LeaderElectionOptions \<Rightarrow> leader_option_error list" where
  "leader_Validate o1 =
     (if \<not> le_Enabled o1 then []
      else (if le_Name o1 = [] then [LeaseNameRequired] else []) @
           (if le_Namespace o1 = [] then [LeaseNamespaceRequired] else []) @
           (if le_LeaseDuration o1 \<le> le_RenewDeadline o1
            then [LeaseTooShort (le_LeaseDuration o1) (le_RenewDeadline o1)] else []) @
           (if le_RenewDeadline o1 \<le> le_RetryPeriod o1
            then [RenewTooShort (le_RenewDeadline o1) (le_RetryPeriod o1)] else []))"

record leadership =
  ld_leading :: bool

definition leads :: "leadership option \<Rightarrow> bool" where
  "leads l = (case l of None \<Rightarrow> True | Some s \<Rightarrow> ld_leading s)"

text \<open>The two callbacks; being elected also runs what \<open>onElected\<close> asks for.\<close>

datatype election_event = StartedLeading | StoppedLeading

definition election_callback :: "('w \<Rightarrow> 'w) option \<Rightarrow> election_event \<Rightarrow> leadership \<times> 'w \<Rightarrow> leadership \<times> 'w" where
  "election_callback onElected e st =
     (case e of
        StartedLeading \<Rightarrow>
          ((fst st)\<lparr>ld_leading := True\<rparr>, (case onElected of None \<Rightarrow> snd st | Some f \<Rightarrow> f (snd st)))
      | StoppedLeading \<Rightarrow> ((fst st)\<lparr>ld_leading := False\<rparr>, snd st))"

datatype election_error = ElectionClient string | ElectionIdentity | ElectionConfig string

text \<open>
  What building the client, reading the host name and configuring the elector answer decides whether
  there is an election at all; its state starts as not leading.
\<close>

definition runLeaderElection :: "(string, unit) result \<Rightarrow> (string, string) result \<Rightarrow> (string, unit) result \<Rightarrow>
    (election_error, leadership) result" where
  "runLeaderElection client hostname elector =
     (case client of Err e \<Rightarrow> Err (ElectionClient e)
      | Ok _ \<Rightarrow>
     (case hostname of Err _ \<Rightarrow> Err ElectionIdentity
      | Ok identity \<Rightarrow>
          if identity = [] then Err ElectionIdentity
          else (case elector of Err e \<Rightarrow> Err (ElectionConfig e) | Ok _ \<Rightarrow> Ok \<lparr>ld_leading = False\<rparr>)))"

lemma leads_after:
  "fst (fold (election_callback f) es (l, w)) =
     (if es = [] then l else l\<lparr>ld_leading := (last es = StartedLeading)\<rparr>)"
  by (induction es arbitrary: l w)
     (auto simp: election_callback_def split: election_event.splits option.splits)

lemma valid_leader_options:
  "leader_Validate o1 = [] \<longleftrightarrow>
     (le_Enabled o1 \<longrightarrow> le_Name o1 \<noteq> [] \<and> le_Namespace o1 \<noteq> [] \<and>
        le_RetryPeriod o1 < le_RenewDeadline o1 \<and> le_RenewDeadline o1 < le_LeaseDuration o1)"
  by (auto simp: leader_Validate_def)

end
