(* ===== verification/API_Services.thy ===== *)
theory API_Services
  imports Leader Resource_Cache Namespace_Mirror
begin

text \<open>
  \<open>pkg/apiserver/apiservices.go\<close> and \<open>pkg/apiserver/clusterapis.go\<close>: keeping the cluster's
  APIServices matching what the workspaces serve. The aggregator and discovery clients are
  Kubernetes' own: they are the functions of \<open>aggregator\<close>, which answer over a world and may change
  it in any way. Go ranges over maps in no particular order; the orders taken are arguments.
\<close>

section \<open>Data\<close>

text \<open>A bundle that is nil and one that is empty are equal to \<open>Semantic.DeepEqual\<close>: both are [].\<close>

record service_reference =
  sr_Name :: string
  sr_Namespace :: string
  sr_Port :: "int option"

record api_service_spec =
  sp_Group :: string
  sp_Version :: string
  sp_Service :: "service_reference option"
  sp_CABundle :: string
  sp_InsecureSkipTLSVerify :: bool
  sp_GroupPriorityMinimum :: int
  sp_VersionPriority :: int

record api_service =
  as_Name :: string
  as_Labels :: "string \<rightharpoonup> string"
  as_Annotations :: "string \<rightharpoonup> string"
  as_Spec :: api_service_spec

record APIServiceOptions =
  so_Register :: bool
  so_ServiceName :: string
  so_ServiceNamespace :: string
  so_ServicePort :: int
  so_CABundleFile :: string
  so_InsecureSkipTLSVerify :: bool
  so_GroupPriorityMinimum :: int
  so_VersionPriority :: int

datatype service_option_error =
    ServiceNameRequired
  | ServiceNamespaceRequired
  | ServicePortNotPositive int
  | TrustUnspecified
  | TrustContradictory

definition services_Validate :: "APIServiceOptions \<Rightarrow> service_option_error list" where
  "services_Validate o1 =
     (if \<not> so_Register o1 then []
      else (if so_ServiceName o1 = [] then [ServiceNameRequired] else []) @
           (if so_ServiceNamespace o1 = [] then [ServiceNamespaceRequired] else []) @
           (if so_ServicePort o1 \<le> 0 then [ServicePortNotPositive (so_ServicePort o1)] else []) @
           (if so_CABundleFile o1 = [] \<and> \<not> so_InsecureSkipTLSVerify o1 then [TrustUnspecified] else []) @
           (if so_CABundleFile o1 \<noteq> [] \<and> so_InsecureSkipTLSVerify o1 then [TrustContradictory] else []))"

text \<open>The clients: listing, one write at a time, and the cluster's own discovery.\<close>

datatype service_write = UpdateService api_service | DeleteService string | CreateService api_service
datatype write_error = NotFoundError | AlreadyExistsError | WriteFailed string

record 'w aggregator =
  ag_List :: "'w \<Rightarrow> (string, api_service list) result \<times> 'w"
  ag_Write :: "service_write \<Rightarrow> 'w \<Rightarrow> write_error option \<times> 'w"
  ag_ServerGroups :: "'w \<Rightarrow> (string, api_group list) result \<times> 'w"

section \<open>What the cluster serves itself\<close>

definition ours :: "APIServiceOptions \<Rightarrow> api_service option \<Rightarrow> bool" where
  "ours o1 service =
     (case service of None \<Rightarrow> False
      | Some s \<Rightarrow>
          (case sp_Service (as_Spec s) of None \<Rightarrow> False
           | Some r \<Rightarrow> sr_Name r = so_ServiceName o1 \<and> sr_Namespace r = so_ServiceNamespace o1))"

definition service_name :: "group_version \<Rightarrow> string" where
  "service_name gv = gv_Version gv @ ''.'' @ gv_Group gv"

definition routing_table :: "api_service list \<Rightarrow> string \<rightharpoonup> api_service" where
  "routing_table services = map_of (rev (map (\<lambda>s. (as_Name s, s)) services))"

definition announced :: "api_group list \<Rightarrow> group_version list" where
  "announced groups = concat (map (\<lambda>g. map (\<lambda>v. GV (ag_Name g) (av_Version v)) (ag_Versions g)) groups)"

datatype registrar_error =
    ReadingCABundle string
  | ListingClusterGroups string
  | ListingServices string
  | WritingServices "(string \<times> write_error) list"

definition foreign :: "APIServiceOptions \<Rightarrow> 'w aggregator \<Rightarrow> 'w \<Rightarrow>
    (registrar_error, group_version set) result \<times> 'w" where
  "foreign o1 client w =
     (case ag_ServerGroups client w of
        (Err e, w1) \<Rightarrow> (Err (ListingClusterGroups e), w1)
      | (Ok groups, w1) \<Rightarrow>
          (case ag_List client w1 of
             (Err e, w2) \<Rightarrow> (Err (ListingServices e), w2)
           | (Ok services, w2) \<Rightarrow>
               (Ok (set (filter (\<lambda>gv. \<not> ours o1 (routing_table services (service_name gv))) (announced groups))),
                w2)))"

section \<open>The registrar\<close>

record apiServiceRegistrar =
  rg_options :: APIServiceOptions
  rg_leader :: "leadership option"
  rg_warned :: "group_version set"

datatype registrar_build_error = NoClusterConfig | BuildingServiceClient string | BuildingDiscoveryClient string

text \<open>Building one: what the two client constructors answer decides; nothing has been warned about.\<close>

definition newAPIServiceRegistrar :: "'c option \<Rightarrow> ('c \<Rightarrow> (string, unit) result) \<Rightarrow> ('c \<Rightarrow> (string, unit) result) \<Rightarrow>
    APIServiceOptions \<Rightarrow> (registrar_build_error, apiServiceRegistrar) result" where
  "newAPIServiceRegistrar config services_client discovery_client o1 =
     (case config of
        None \<Rightarrow> Err NoClusterConfig
      | Some c \<Rightarrow>
          (case services_client c of
             Err e \<Rightarrow> Err (BuildingServiceClient e)
           | Ok _ \<Rightarrow>
               (case discovery_client c of
                  Err e \<Rightarrow> Err (BuildingDiscoveryClient e)
                | Ok _ \<Rightarrow> Ok \<lparr>rg_options = o1, rg_leader = None, rg_warned = {}\<rparr>)))"

definition registrar_owns :: "APIServiceOptions \<Rightarrow> api_service \<Rightarrow> bool" where
  "registrar_owns o1 s =
     (case sp_Service (as_Spec s) of None \<Rightarrow> False
      | Some r \<Rightarrow> sr_Name r = so_ServiceName o1 \<and> sr_Namespace r = so_ServiceNamespace o1)"

definition is_managed :: "api_service \<Rightarrow> bool" where
  "is_managed s \<longleftrightarrow> as_Labels s managedByLabel = Some managedByValue"

definition caBundle :: "(string \<Rightarrow> (string, string) result) \<Rightarrow> APIServiceOptions \<Rightarrow>
    (registrar_error, string) result" where
  "caBundle read_file o1 =
     (if so_CABundleFile o1 = [] then Ok []
      else (case read_file (so_CABundleFile o1) of
              Err e \<Rightarrow> Err (ReadingCABundle e) | Ok ca \<Rightarrow> Ok ca))"

definition desired :: "APIServiceOptions \<Rightarrow> group_version \<Rightarrow> string \<Rightarrow> api_service" where
  "desired o1 gv ca =
     \<lparr>as_Name = service_name gv, as_Labels = [managedByLabel \<mapsto> managedByValue], as_Annotations = Map.empty,
      as_Spec = \<lparr>sp_Group = gv_Group gv, sp_Version = gv_Version gv,
        sp_Service = Some \<lparr>sr_Name = so_ServiceName o1, sr_Namespace = so_ServiceNamespace o1,
                           sr_Port = Some (so_ServicePort o1)\<rparr>,
        sp_CABundle = ca, sp_InsecureSkipTLSVerify = so_InsecureSkipTLSVerify o1,
        sp_GroupPriorityMinimum = so_GroupPriorityMinimum o1, sp_VersionPriority = so_VersionPriority o1\<rparr>\<rparr>"

definition merge_service :: "api_service \<Rightarrow> api_service \<Rightarrow> api_service \<times> bool" where
  "merge_service cur want =
     (if as_Spec cur = as_Spec want \<and> as_Labels cur managedByLabel = Some managedByValue then (cur, False)
      else (cur\<lparr>as_Spec := as_Spec want, as_Labels := (as_Labels cur)(managedByLabel \<mapsto> managedByValue)\<rparr>, True))"

text \<open>Once per group version: what has been warned about before is not again. The warning is a log line.\<close>

definition warnForeign :: "group_version \<Rightarrow> group_version set \<Rightarrow> group_version set" where
  "warnForeign gv warned = (if gv \<in> warned then warned else insert gv warned)"

lemma warnForeign_insert [simp]: "warnForeign gv warned = insert gv warned"
  by (auto simp: warnForeign_def)

text \<open>The loop over what is served: the services wanted, and what has been warned about.\<close>

fun wanted_services :: "APIServiceOptions \<Rightarrow> string \<Rightarrow> group_version set \<Rightarrow> group_version list \<Rightarrow>
    (string \<rightharpoonup> api_service) \<times> group_version set \<Rightarrow> (string \<rightharpoonup> api_service) \<times> group_version set" where
  "wanted_services o1 ca fgn [] acc = acc"
| "wanted_services o1 ca fgn (gv # gvs) (wanted, warned) =
     (if gv \<in> fgn then wanted_services o1 ca fgn gvs (wanted, warnForeign gv warned)
      else wanted_services o1 ca fgn gvs
             (wanted(as_Name (desired o1 gv ca) \<mapsto> desired o1 gv ca), warned))"

text \<open>The loop over what is registered. Its state: errors so far, how many are maintained, the world.\<close>

fun sync_existing :: "APIServiceOptions \<Rightarrow> 'w aggregator \<Rightarrow> (string \<rightharpoonup> api_service) \<Rightarrow> api_service list \<Rightarrow>
    (string \<times> write_error) list \<times> nat \<times> 'w \<Rightarrow> (string \<times> write_error) list \<times> nat \<times> 'w" where
  "sync_existing o1 client wanted [] st = st"
| "sync_existing o1 client wanted (cur # rest) (errs, mine, w) =
     (case wanted (as_Name cur) of
        Some want \<Rightarrow>
          if \<not> is_managed cur then sync_existing o1 client wanted rest (errs, mine, w)
          else (case merge_service cur want of
                  (updated, False) \<Rightarrow> sync_existing o1 client wanted rest (errs, mine + 1, w)
                | (updated, True) \<Rightarrow>
                    (case ag_Write client (UpdateService updated) w of
                       (Some e, w') \<Rightarrow> sync_existing o1 client wanted rest (errs @ [(as_Name cur, e)], mine + 1, w')
                     | (None, w') \<Rightarrow> sync_existing o1 client wanted rest (errs, mine + 1, w')))
      | None \<Rightarrow>
          if is_managed cur \<and> registrar_owns o1 cur then
            (case ag_Write client (DeleteService (as_Name cur)) w of
               (Some e, w') \<Rightarrow>
                 sync_existing o1 client wanted rest
                   (if e = NotFoundError then errs else errs @ [(as_Name cur, e)], mine, w')
             | (None, w') \<Rightarrow> sync_existing o1 client wanted rest (errs, mine, w'))
          else sync_existing o1 client wanted rest (errs, mine, w))"

fun create_missing :: "'w aggregator \<Rightarrow> (string \<rightharpoonup> api_service) \<Rightarrow> string set \<Rightarrow> string list \<Rightarrow>
    (string \<times> write_error) list \<times> nat \<times> 'w \<Rightarrow> (string \<times> write_error) list \<times> nat \<times> 'w" where
  "create_missing client wanted present [] st = st"
| "create_missing client wanted present (name # names) (errs, mine, w) =
     (if name \<in> present then create_missing client wanted present names (errs, mine, w)
      else (case wanted name of
              None \<Rightarrow> create_missing client wanted present names (errs, mine, w)
            | Some want \<Rightarrow>
                (case ag_Write client (CreateService want) w of
                   (Some e, w') \<Rightarrow>
                     if e = AlreadyExistsError then create_missing client wanted present names (errs, mine + 1, w')
                     else create_missing client wanted present names (errs @ [(name, e)], mine, w')
                 | (None, w') \<Rightarrow> create_missing client wanted present names (errs, mine + 1, w'))))"

text \<open>What the registrar reads of the workspaces.\<close>

record registrar_source =
  sc_Snapshot :: Snapshot
  sc_HasSynced :: bool

text \<open>
  \<open>gv_order\<close> and \<open>name_order\<close> are the orders in which the two ranges over maps happen to run.
\<close>

definition reconcile_services :: "(string \<Rightarrow> (string, string) result) \<Rightarrow> 'w aggregator \<Rightarrow>
    registrar_source \<Rightarrow> group_version list \<Rightarrow> string list \<Rightarrow> apiServiceRegistrar \<Rightarrow> 'w \<Rightarrow>
    (registrar_error option \<times> nat) \<times> apiServiceRegistrar \<times> 'w" where
  "reconcile_services read_file client src gv_order name_order r w =
     (if \<not> leads (rg_leader r) then ((None, 0), r, w)
      else if \<not> sc_HasSynced src then ((None, 0), r, w)
      else (case caBundle read_file (rg_options r) of
              Err e \<Rightarrow> ((Some e, 0), r, w)
            | Ok ca \<Rightarrow>
                (case foreign (rg_options r) client w of
                   (Err e, w1) \<Rightarrow> ((Some e, 0), r, w1)
                 | (Ok fgn, w1) \<Rightarrow>
                     (case wanted_services (rg_options r) ca fgn gv_order (Map.empty, rg_warned r) of
                        (wanted, warned) \<Rightarrow>
                          let r' = r\<lparr>rg_warned := warned\<rparr> in
                          (case ag_List client w1 of
                             (Err e, w2) \<Rightarrow> ((Some (ListingServices e), 0), r', w2)
                           | (Ok existing, w2) \<Rightarrow>
                               (case create_missing client wanted (set (map as_Name existing)) name_order
                                       (sync_existing (rg_options r) client wanted existing ([], 0, w2)) of
                                  (errs, mine, w3) \<Rightarrow>
                                    ((if errs = [] then None else Some (WritingServices errs), mine), r', w3)))))))"

definition sync_services :: "(string \<Rightarrow> (string, string) result) \<Rightarrow> 'w aggregator \<Rightarrow>
    registrar_source \<Rightarrow> group_version list \<Rightarrow> string list \<Rightarrow> apiServiceRegistrar \<Rightarrow> metrics \<times> 'w \<Rightarrow>
    registrar_error option \<times> apiServiceRegistrar \<times> (metrics \<times> 'w)" where
  "sync_services read_file client src gv_order name_order r st =
     (case reconcile_services read_file client src gv_order name_order r (snd st) of
        ((Some e, managed), r', w') \<Rightarrow> (Some e, r', (ObserveAPIServiceSync ''error'' managed (fst st), w'))
      | ((None, managed), r', w') \<Rightarrow> (None, r', (ObserveAPIServiceSync ''success'' managed (fst st), w')))"

section \<open>What is wanted\<close>

lemma service_name_desired [simp]: "as_Name (desired o1 gv ca) = service_name gv"
  by (simp add: desired_def)

lemma desired_managed [simp]: "is_managed (desired o1 gv ca)"
  by (simp add: desired_def is_managed_def)

lemma desired_owned [simp]: "registrar_owns o1 (desired o1 gv ca)"
  by (simp add: desired_def registrar_owns_def)

lemma wanted_services_from:
  assumes "wanted_services o1 ca fgn gvs (acc, warned) = (wanted, warned')" and "wanted n = Some want"
  shows "acc n = Some want \<or> (\<exists>gv\<in>set gvs. gv \<notin> fgn \<and> want = desired o1 gv ca \<and> n = service_name gv)"
  using assms
proof (induction gvs arbitrary: acc warned)
  case Nil
  then show ?case by simp
next
  case (Cons gv gvs)
  show ?case
  proof (cases "gv \<in> fgn")
    case True
    then show ?thesis using Cons.IH[of acc "insert gv warned"] Cons.prems by auto
  next
    case False
    let ?acc = "acc(service_name gv \<mapsto> desired o1 gv ca)"
    have rest: "wanted_services o1 ca fgn gvs (?acc, warned) = (wanted, warned')"
      using Cons.prems(1) False by (simp del: fun_upd_apply)
    from Cons.IH[OF rest Cons.prems(2)] have
      "?acc n = Some want \<or> (\<exists>gv\<in>set gvs. gv \<notin> fgn \<and> want = desired o1 gv ca \<and> n = service_name gv)" .
    with False show ?thesis by (cases "n = service_name gv") auto
  qed
qed

lemma wanted_services_mono:
  "acc n \<noteq> None \<Longrightarrow> fst (wanted_services o1 ca fgn gvs (acc, warned)) n \<noteq> None"
proof (induction gvs arbitrary: acc warned)
  case Nil
  then show ?case by simp
next
  case (Cons gv gvs)
  have "(acc(service_name gv \<mapsto> desired o1 gv ca)) n \<noteq> None" using Cons.prems by simp
  with Cons show ?case by (cases "gv \<in> fgn") (simp_all del: fun_upd_apply)
qed

lemma wanted_services_all:
  "gv \<in> set gvs \<Longrightarrow> gv \<notin> fgn \<Longrightarrow>
   fst (wanted_services o1 ca fgn gvs (acc, warned)) (service_name gv) \<noteq> None"
proof (induction gvs arbitrary: acc warned)
  case Nil
  then show ?case by simp
next
  case (Cons x gvs)
  show ?case
  proof (cases "x = gv")
    case True
    have "(acc(service_name gv \<mapsto> desired o1 gv ca)) (service_name gv) \<noteq> None" by simp
    with True Cons.prems(2) show ?thesis
      using wanted_services_mono[of "acc(service_name gv \<mapsto> desired o1 gv ca)"]
      by (simp del: fun_upd_apply)
  next
    case False
    with Cons show ?thesis by (cases "x \<in> fgn") (simp_all del: fun_upd_apply)
  qed
qed

section \<open>What is written\<close>

text \<open>A world that records the writes asked of the aggregator, which nothing else changes.\<close>

definition logs_writes :: "'w aggregator \<Rightarrow> ('w \<Rightarrow> service_write list) \<Rightarrow> bool" where
  "logs_writes client log \<longleftrightarrow>
     (\<forall>x w. log (snd (ag_Write client x w)) = log w @ [x]) \<and>
     (\<forall>w. log (snd (ag_List client w)) = log w) \<and> (\<forall>w. log (snd (ag_ServerGroups client w)) = log w)"

lemma logs_write: "logs_writes client log \<Longrightarrow> ag_Write client x w = (r, w') \<Longrightarrow> log w' = log w @ [x]"
  unfolding logs_writes_def by (metis snd_conv)

lemma logs_list: "logs_writes client log \<Longrightarrow> ag_List client w = (r, w') \<Longrightarrow> log w' = log w"
  unfolding logs_writes_def by (metis snd_conv)

lemma foreign_log: "logs_writes client log \<Longrightarrow> log (snd (foreign o1 client w)) = log w"
proof -
  assume l: "logs_writes client log"
  have g: "log w' = log w1" if "ag_ServerGroups client w1 = (r, w')" for w1 r w'
    using l that unfolding logs_writes_def by (metis snd_conv)
  show ?thesis
    by (auto simp: foreign_def split: prod.splits sum.splits dest!: g logs_list[OF l])
qed

definition may_write_existing :: "APIServiceOptions \<Rightarrow> (string \<rightharpoonup> api_service) \<Rightarrow> api_service list \<Rightarrow> service_write \<Rightarrow> bool" where
  "may_write_existing o1 wanted existing x \<longleftrightarrow>
     (\<exists>cur\<in>set existing. is_managed cur \<and>
        ((\<exists>want. wanted (as_Name cur) = Some want \<and> x = UpdateService (fst (merge_service cur want))) \<or>
         (wanted (as_Name cur) = None \<and> registrar_owns o1 cur \<and> x = DeleteService (as_Name cur))))"

lemma sync_existing_log:
  assumes "logs_writes client log"
  shows "sync_existing o1 client wanted existing (errs, mine, w) = (errs', mine', w') \<Longrightarrow>
     \<exists>ws. log w' = log w @ ws \<and> (\<forall>x\<in>set ws. may_write_existing o1 wanted existing x)"
proof (induction existing arbitrary: errs mine w)
  case Nil
  then show ?case by simp
next
  case (Cons cur rest)
  have more: "may_write_existing o1 wanted (cur # rest) x" if "may_write_existing o1 wanted rest x" for x
    using that by (auto simp: may_write_existing_def)
  have skip: ?case if "sync_existing o1 client wanted rest (e1, m1, w) = (errs', mine', w')" for e1 m1
    using Cons.IH[OF that] more by blast
  have wrote: ?case
    if "ag_Write client x w = (r, w1)" "may_write_existing o1 wanted (cur # rest) x"
      "sync_existing o1 client wanted rest (e1, m1, w1) = (errs', mine', w')" for x r w1 e1 m1
  proof -
    from Cons.IH[OF that(3)] obtain ws where "log w' = log w1 @ ws"
      "\<forall>x\<in>set ws. may_write_existing o1 wanted rest x" by blast
    then show ?thesis using logs_write[OF assms that(1)] that(2) more
      by (intro exI[of _ "x # ws"]) auto
  qed
  show ?case
  proof (cases "wanted (as_Name cur)")
    case None
    show ?thesis
    proof (cases "is_managed cur \<and> registrar_owns o1 cur")
      case True
      obtain r w1 where wr: "ag_Write client (DeleteService (as_Name cur)) w = (r, w1)" by (metis surj_pair)
      have m: "may_write_existing o1 wanted (cur # rest) (DeleteService (as_Name cur))"
        using None True by (auto simp: may_write_existing_def)
      show ?thesis using Cons.prems None True wr
        by (cases r) (auto intro: wrote[OF wr m])
    next
      case False
      with Cons.prems None show ?thesis by (auto intro: skip)
    qed
  next
    case (Some want)
    show ?thesis
    proof (cases "is_managed cur \<and> snd (merge_service cur want)")
      case True
      obtain updated where u: "merge_service cur want = (updated, True)" using True by (metis prod.collapse)
      obtain r w1 where wr: "ag_Write client (UpdateService updated) w = (r, w1)" by (metis surj_pair)
      have m: "may_write_existing o1 wanted (cur # rest) (UpdateService updated)"
        using Some True u by (auto simp: may_write_existing_def intro!: bexI[of _ cur])
      show ?thesis using Cons.prems Some True u wr
        by (cases r) (auto intro: wrote[OF wr m])
    next
      case False
      then have "\<not> is_managed cur \<or> (\<exists>updated. merge_service cur want = (updated, False))"
        by (metis prod.collapse)
      with Cons.prems Some show ?thesis by (auto split: if_splits intro: skip)
    qed
  qed
qed

lemma create_missing_log:
  assumes "logs_writes client log"
  shows "create_missing client wanted present names (errs, mine, w) = (errs', mine', w') \<Longrightarrow>
     \<exists>ws. log w' = log w @ ws \<and>
       (\<forall>x\<in>set ws. \<exists>n want. n \<notin> present \<and> wanted n = Some want \<and> x = CreateService want)"
proof (induction names arbitrary: errs mine w)
  case Nil
  then show ?case by simp
next
  case (Cons n names)
  show ?case
  proof (cases "n \<in> present \<or> wanted n = None")
    case True
    then have "create_missing client wanted present names (errs, mine, w) = (errs', mine', w')"
      using Cons.prems by (cases "n \<in> present") simp_all
    from Cons.IH[OF this] show ?thesis .
  next
    case False
    then obtain want where want: "n \<notin> present" "wanted n = Some want" by auto
    obtain r w1 where wr: "ag_Write client (CreateService want) w = (r, w1)" by (metis surj_pair)
    then obtain e1 m1 where rest: "create_missing client wanted present names (e1, m1, w1) = (errs', mine', w')"
      using Cons.prems want by (cases r) (auto split: if_splits)
    from Cons.IH[OF rest] obtain ws where ws: "log w' = log w1 @ ws"
      "\<forall>x\<in>set ws. \<exists>n want. n \<notin> present \<and> wanted n = Some want \<and> x = CreateService want" by blast
    show ?thesis
      by (rule exI[of _ "CreateService want # ws"])
         (use ws want logs_write[OF assms wr] in auto)
  qed
qed

definition registrable :: "registrar_source \<Rightarrow> group_version set \<Rightarrow> group_version set" where
  "registrable src fgn = dom (sn_Resources (sc_Snapshot src)) - fgn"

text \<open>The writes that are the registrar's to make, given what it has read.\<close>

definition own_write :: "APIServiceOptions \<Rightarrow> string \<Rightarrow> group_version set \<Rightarrow> api_service list \<Rightarrow> service_write \<Rightarrow> bool" where
  "own_write o1 ca gvs existing x =
     (case x of
        UpdateService s \<Rightarrow>
          \<exists>cur\<in>set existing. is_managed cur \<and> as_Name s = as_Name cur \<and> as_Labels s = as_Labels cur \<and>
            as_Annotations s = as_Annotations cur \<and>
            (\<exists>gv\<in>gvs. as_Name cur = service_name gv \<and> as_Spec s = as_Spec (desired o1 gv ca))
      | DeleteService n \<Rightarrow>
          \<exists>cur\<in>set existing. n = as_Name cur \<and> is_managed cur \<and> registrar_owns o1 cur \<and>
            (\<forall>gv\<in>gvs. service_name gv \<noteq> n)
      | CreateService s \<Rightarrow>
          \<exists>gv\<in>gvs. s = desired o1 gv ca \<and> service_name gv \<notin> as_Name ` set existing)"

lemma wanted_services_only:
  assumes "wanted_services o1 ca fgn gvs (Map.empty, warned) = (wanted, warned')" and "wanted n = Some want"
  obtains gv where "gv \<in> set gvs - fgn" "want = desired o1 gv ca" "n = service_name gv"
  using wanted_services_from[OF assms] by auto

lemma wanted_services_none:
  assumes "wanted_services o1 ca fgn gvs (acc, warned) = (wanted, warned')" and "wanted n = None"
    and "gv \<in> set gvs - fgn"
  shows "service_name gv \<noteq> n"
  using wanted_services_all[where gv = gv and gvs = gvs and fgn = fgn and ?o1.0 = o1 and ca = ca and acc = acc
    and warned = warned] assms by auto

lemma merge_service_fields:
  assumes "is_managed cur"
  shows "as_Name (fst (merge_service cur want)) = as_Name cur"
    and "as_Labels (fst (merge_service cur want)) = as_Labels cur"
    and "as_Annotations (fst (merge_service cur want)) = as_Annotations cur"
    and "as_Spec (fst (merge_service cur want)) = as_Spec want"
  using assms by (auto simp: merge_service_def is_managed_def fun_upd_idem)

lemma existing_writes_are_own:
  assumes w: "wanted_services o1 ca fgn gvs (Map.empty, warned) = (wanted, warned')"
    and x: "may_write_existing o1 wanted existing x"
  shows "own_write o1 ca (set gvs - fgn) existing x"
proof -
  from x obtain cur where cur: "cur \<in> set existing" "is_managed cur"
    and how: "(\<exists>want. wanted (as_Name cur) = Some want \<and> x = UpdateService (fst (merge_service cur want))) \<or>
      (wanted (as_Name cur) = None \<and> registrar_owns o1 cur \<and> x = DeleteService (as_Name cur))"
    unfolding may_write_existing_def by blast
  from how show ?thesis
  proof
    assume "\<exists>want. wanted (as_Name cur) = Some want \<and> x = UpdateService (fst (merge_service cur want))"
    then obtain want where want: "wanted (as_Name cur) = Some want"
      and x: "x = UpdateService (fst (merge_service cur want))" by blast
    from wanted_services_only[OF w want] obtain gv where
      "gv \<in> set gvs - fgn" "want = desired o1 gv ca" "as_Name cur = service_name gv" by blast
    with cur x merge_service_fields[OF cur(2), of want] show ?thesis
      by (auto simp: own_write_def intro!: bexI[of _ cur] bexI[of _ gv])
  next
    assume "wanted (as_Name cur) = None \<and> registrar_owns o1 cur \<and> x = DeleteService (as_Name cur)"
    with cur wanted_services_none[OF w] show ?thesis by (auto simp: own_write_def)
  qed
qed

lemma created_writes_are_own:
  assumes w: "wanted_services o1 ca fgn gvs (Map.empty, warned) = (wanted, warned')"
    and "n \<notin> as_Name ` set existing" "wanted n = Some want"
  shows "own_write o1 ca (set gvs - fgn) existing (CreateService want)"
  using wanted_services_only[OF w assms(3)] assms(2) by (auto simp: own_write_def)

text \<open>The rounds that write, taken apart.\<close>

lemma reconcile_services_cases [consumes 1]:
  assumes "reconcile_services read_file client src gv_order name_order r w = ((failed, mine), r', w')"
  obtains (idle) "w' = w"
  | (unread) "w' = snd (foreign (rg_options r) client w)" "failed \<noteq> None"
  | (unlisted) fgn w1 e where "foreign (rg_options r) client w = (Ok fgn, w1)" "ag_List client w1 = (Err e, w')"
      "failed \<noteq> None"
  | (written) ca fgn w1 wanted warned existing w2 errs0 mine0 w3 errs where
      "leads (rg_leader r)" "sc_HasSynced src" "caBundle read_file (rg_options r) = Ok ca"
      "foreign (rg_options r) client w = (Ok fgn, w1)"
      "wanted_services (rg_options r) ca fgn gv_order (Map.empty, rg_warned r) = (wanted, warned)"
      "ag_List client w1 = (Ok existing, w2)"
      "sync_existing (rg_options r) client wanted existing ([], 0, w2) = (errs0, mine0, w3)"
      "create_missing client wanted (as_Name ` set existing) name_order (errs0, mine0, w3) = (errs, mine, w')"
      "failed = None \<longleftrightarrow> errs = []"
proof (cases "leads (rg_leader r) \<and> sc_HasSynced src \<and> (\<exists>ca. caBundle read_file (rg_options r) = Ok ca)")
  case False
  with assms have "w' = w" by (auto simp: reconcile_services_def split: if_splits sum.splits)
  then show thesis by (rule idle)
next
  case True
  then obtain ca where b: "leads (rg_leader r)" "sc_HasSynced src" "caBundle read_file (rg_options r) = Ok ca"
    by blast
  obtain f w1 where f: "foreign (rg_options r) client w = (f, w1)" by (metis surj_pair)
  show thesis
  proof (cases f)
    case (Inl e)
    with assms b f have "w' = w1" "failed \<noteq> None" by (auto simp: reconcile_services_def)
    with f show thesis by (intro unread) simp_all
  next
    case (Inr fgn)
    obtain wanted warned where ws:
      "wanted_services (rg_options r) ca fgn gv_order (Map.empty, rg_warned r) = (wanted, warned)"
      by (metis surj_pair)
    obtain l w2 where l: "ag_List client w1 = (l, w2)" by (metis surj_pair)
    show thesis
    proof (cases l)
      case (Inl e)
      with assms b f Inr ws l have "w' = w2" "failed \<noteq> None" by (auto simp: reconcile_services_def Let_def)
      with f Inr l Inl show thesis by (intro unlisted) simp_all
    next
      case l': (Inr existing)
      obtain errs0 mine0 w3 where se:
        "sync_existing (rg_options r) client wanted existing ([], 0, w2) = (errs0, mine0, w3)"
        by (metis surj_pair)
      obtain errs mine1 w4 where cm:
        "create_missing client wanted (as_Name ` set existing) name_order (errs0, mine0, w3) = (errs, mine1, w4)"
        by (metis surj_pair)
      have "w' = w4" "mine = mine1" "failed = None \<longleftrightarrow> errs = []"
        using assms b f Inr ws l l' se cm by (auto simp: reconcile_services_def Let_def split: if_splits)
      with b f Inr ws l l' se cm show thesis by (intro written) simp_all
    qed
  qed
qed

lemma reconcile_keeps_options:
  "reconcile_services read_file client src gv_order name_order r w = (out, r', w') \<Longrightarrow> rg_options r' = rg_options r"
  by (auto simp: reconcile_services_def Let_def split: sum.splits prod.splits if_splits)

lemma successful_round:
  assumes "reconcile_services read_file client src gv_order name_order r w = ((None, mine), r', w')"
    and "leads (rg_leader r)" and "sc_HasSynced src"
  obtains ca fgn w1 wanted warned existing w2 errs0 mine0 w3 where
      "caBundle read_file (rg_options r) = Ok ca"
      "foreign (rg_options r) client w = (Ok fgn, w1)"
      "wanted_services (rg_options r) ca fgn gv_order (Map.empty, rg_warned r) = (wanted, warned)"
      "ag_List client w1 = (Ok existing, w2)"
      "sync_existing (rg_options r) client wanted existing ([], 0, w2) = (errs0, mine0, w3)"
      "create_missing client wanted (as_Name ` set existing) name_order (errs0, mine0, w3) = ([], mine, w')"
proof -
  from assms obtain ca fgn w1 wanted warned existing w2 where round:
      "caBundle read_file (rg_options r) = Ok ca"
      "foreign (rg_options r) client w = (Ok fgn, w1)"
      "wanted_services (rg_options r) ca fgn gv_order (Map.empty, rg_warned r) = (wanted, warned)"
      "ag_List client w1 = (Ok existing, w2)"
    and cm: "create_missing client wanted (as_Name ` set existing) name_order
      (sync_existing (rg_options r) client wanted existing ([], 0, w2)) = ([], mine, w')"
    by (auto simp: reconcile_services_def Let_def split: sum.splits prod.splits if_splits)
  obtain errs0 mine0 w3 where se:
    "sync_existing (rg_options r) client wanted existing ([], 0, w2) = (errs0, mine0, w3)"
    by (metis prod_cases3)
  show thesis by (rule that[OF round se cm[unfolded se]])
qed

text \<open>
  C13. The registrar writes only what is its own. Nothing is written by a replica that does not lead,
  before the workspaces have been read, or when the bundle, the cluster's groups or its APIServices
  could not be. Otherwise an update goes only to an APIService that carries spillway's label and names
  a group version the workspaces serve and the cluster does not, and leaves its name, labels and
  annotations alone; a delete only to one that carries the label, points at spillway's own Service and
  names nothing served; and a create only to a name that is not taken.
\<close>

theorem registrar_touches_only_its_own:
  assumes "logs_writes client log"
    and "set gv_order = dom (sn_Resources (sc_Snapshot src))"
    and "reconcile_services read_file client src gv_order name_order r w = (out, r', w')"
  shows "\<exists>writes. log w' = log w @ writes \<and>
    (writes = [] \<or>
     leads (rg_leader r) \<and> sc_HasSynced src \<and>
     (\<exists>ca fgn w1 existing.
        caBundle read_file (rg_options r) = Ok ca \<and> foreign (rg_options r) client w = (Ok fgn, w1) \<and>
        fst (ag_List client w1) = Ok existing \<and>
        (\<forall>x\<in>set writes. own_write (rg_options r) ca (registrable src fgn) existing x)))"
proof -
  obtain failed mine where run: "reconcile_services read_file client src gv_order name_order r w = ((failed, mine), r', w')"
    using assms(3) by (cases out) simp
  from run show ?thesis
  proof (cases rule: reconcile_services_cases)
    case idle
    then show ?thesis by (intro exI[of _ "[]"]) simp
  next
    case unread
    then show ?thesis using foreign_log[OF assms(1)] by (intro exI[of _ "[]"]) simp
  next
    case (unlisted fgn w1 e)
    then have "log w' = log w"
      using foreign_log[OF assms(1), of "rg_options r" w] logs_list[OF assms(1) unlisted(2)] by simp
    then show ?thesis by (intro exI[of _ "[]"]) simp
  next
    case (written ca fgn w1 wanted warned existing w2 errs0 mine0 w3 errs)
    have l: "log w2 = log w"
      using foreign_log[OF assms(1), of "rg_options r" w] logs_list[OF assms(1) written(6)] written(4) by simp
    obtain ws1 where ws1: "log w3 = log w2 @ ws1"
      "\<forall>x\<in>set ws1. may_write_existing (rg_options r) wanted existing x"
      using sync_existing_log[OF assms(1) written(7)] by blast
    obtain ws2 where ws2: "log w' = log w3 @ ws2"
      "\<forall>x\<in>set ws2. \<exists>n want. n \<notin> as_Name ` set existing \<and> wanted n = Some want \<and> x = CreateService want"
      using create_missing_log[OF assms(1) written(8)] by blast
    have "own_write (rg_options r) ca (registrable src fgn) existing x" if "x \<in> set (ws1 @ ws2)" for x
      using that ws1(2) ws2(2) existing_writes_are_own[OF written(5)] created_writes_are_own[OF written(5)] assms(2)
      unfolding registrable_def by auto
    then show ?thesis using written(1-4,6) ws1(1) ws2(1) l
      by (intro exI[of _ "ws1 @ ws2"]) auto
  qed
qed

section \<open>Convergence\<close>

text \<open>
  What the aggregator's API promises when a call succeeds, over what is stored by name. A failed write
  is held to nothing, except that the two refusals the program treats as success mean what they say.
\<close>

definition store_laws :: "'w aggregator \<Rightarrow> ('w \<Rightarrow> string \<rightharpoonup> api_service) \<Rightarrow> bool" where
  "store_laws client contents \<longleftrightarrow>
     (\<forall>w. contents (snd (ag_ServerGroups client w)) = contents w) \<and>
     (\<forall>w. contents (snd (ag_List client w)) = contents w) \<and>
     (\<forall>w xs. fst (ag_List client w) = Ok xs \<longrightarrow>
        distinct (map as_Name xs) \<and> map_of (map (\<lambda>s. (as_Name s, s)) xs) = contents w) \<and>
     (\<forall>w s w'. ag_Write client (UpdateService s) w = (None, w') \<longrightarrow> contents w' = (contents w)(as_Name s \<mapsto> s)) \<and>
     (\<forall>w s w'. ag_Write client (CreateService s) w = (None, w') \<longrightarrow> contents w' = (contents w)(as_Name s \<mapsto> s)) \<and>
     (\<forall>w s w'. ag_Write client (CreateService s) w = (Some AlreadyExistsError, w') \<longrightarrow>
        contents w' = contents w \<and> contents w (as_Name s) \<noteq> None) \<and>
     (\<forall>w n w'. ag_Write client (DeleteService n) w = (None, w') \<longrightarrow> contents w' = (contents w)(n := None)) \<and>
     (\<forall>w n w'. ag_Write client (DeleteService n) w = (Some NotFoundError, w') \<longrightarrow>
        contents w' = contents w \<and> contents w n = None)"

lemma store_laws_rules:
  assumes "store_laws client contents"
  shows "ag_ServerGroups client w = (g, w') \<Longrightarrow> contents w' = contents w"
    and "ag_List client w = (l, w') \<Longrightarrow> contents w' = contents w"
    and "ag_List client w = (Ok xs, w') \<Longrightarrow> distinct (map as_Name xs)"
    and "ag_List client w = (Ok xs, w') \<Longrightarrow> map_of (map (\<lambda>s. (as_Name s, s)) xs) = contents w"
    and "ag_Write client (UpdateService s) w = (None, w') \<Longrightarrow> contents w' = (contents w)(as_Name s \<mapsto> s)"
    and "ag_Write client (CreateService s) w = (None, w') \<Longrightarrow> contents w' = (contents w)(as_Name s \<mapsto> s)"
    and "ag_Write client (CreateService s) w = (Some AlreadyExistsError, w') \<Longrightarrow>
      contents w' = contents w \<and> contents w (as_Name s) \<noteq> None"
    and "ag_Write client (DeleteService n) w = (None, w') \<Longrightarrow> contents w' = (contents w)(n := None)"
    and "ag_Write client (DeleteService n) w = (Some NotFoundError, w') \<Longrightarrow>
      contents w' = contents w \<and> contents w n = None"
  using assms unfolding store_laws_def by (metis fst_conv snd_conv)+

lemma foreign_contents:
  assumes "store_laws client contents" and "foreign o1 client w = (f, w')"
  shows "contents w' = contents w"
  using assms(2) unfolding foreign_def
  by (auto split: prod.splits sum.splits dest!: store_laws_rules(1,2)[OF assms(1)])

text \<open>What a name should hold after a round.\<close>

definition settled :: "APIServiceOptions \<Rightarrow> api_service option \<Rightarrow> api_service option \<Rightarrow> api_service option" where
  "settled o1 wanted held =
     (case held of
        None \<Rightarrow> wanted
      | Some cur \<Rightarrow>
          if \<not> is_managed cur then Some cur
          else (case wanted of
                  Some want \<Rightarrow> Some (fst (merge_service cur want))
                | None \<Rightarrow> if registrar_owns o1 cur then None else Some cur))"

text \<open>Errors are only ever added.\<close>

lemma sync_existing_errors:
  "sync_existing o1 client wanted existing (errs, mine, w) = ([], mine', w') \<Longrightarrow> errs = []"
proof (induction existing arbitrary: errs mine w)
  case Nil
  then show ?case by simp
next
  case (Cons cur rest)
  from Cons.prems show ?case
    by (auto split: option.splits if_splits prod.splits bool.splits dest!: Cons.IH)
qed

lemma create_missing_errors:
  "create_missing client wanted present names (errs, mine, w) = ([], mine', w') \<Longrightarrow> errs = []"
proof (induction names arbitrary: errs mine w)
  case Nil
  then show ?case by simp
next
  case (Cons n names)
  from Cons.prems show ?case by (auto split: option.splits if_splits prod.splits dest!: Cons.IH)
qed

lemma sync_existing_settles:
  assumes laws: "store_laws client contents"
  shows "sync_existing o1 client wanted existing (errs, mine, w) = ([], mine', w') \<Longrightarrow>
    distinct (map as_Name existing) \<Longrightarrow> (\<forall>cur\<in>set existing. contents w (as_Name cur) = Some cur) \<Longrightarrow>
    errs = [] \<and> (\<forall>n. contents w' n =
      (if n \<in> as_Name ` set existing then settled o1 (wanted n) (contents w n) else contents w n))"
proof (induction existing arbitrary: errs mine w)
  case Nil
  then show ?case by simp
next
  case (Cons cur rest)
  let ?n = "as_Name cur"
  have held: "contents w ?n = Some cur" and new: "?n \<notin> as_Name ` set rest" using Cons.prems by auto
  have step: ?case
    if run: "sync_existing o1 client wanted rest (e1, m1, w1) = ([], mine', w')"
      and one: "contents w1 = (contents w)(?n := settled o1 (wanted ?n) (Some cur))"
      and e1: "e1 = [] \<Longrightarrow> errs = []" for e1 m1 w1
  proof -
    have rest: "\<forall>s\<in>set rest. contents w1 (as_Name s) = Some s"
    proof
      fix s assume s: "s \<in> set rest"
      then have "as_Name s \<noteq> ?n" using new by (metis imageI)
      with s Cons.prems(3) show "contents w1 (as_Name s) = Some s" by (simp add: one)
    qed
    have "distinct (map as_Name rest)" using Cons.prems(2) by simp
    from Cons.IH[OF run this rest] have ih: "e1 = []" "\<forall>n. contents w' n =
      (if n \<in> as_Name ` set rest then settled o1 (wanted n) (contents w1 n) else contents w1 n)" by blast+
    have "contents w' n =
        (if n \<in> as_Name ` set (cur # rest) then settled o1 (wanted n) (contents w n) else contents w n)" for n
    proof (cases "n = ?n")
      case True
      with ih(2)[rule_format, of n] new held show ?thesis by (simp add: one)
    next
      case False
      with ih(2)[rule_format, of n] show ?thesis by (simp add: one)
    qed
    with ih(1) e1 show ?thesis by blast
  qed
  have same: "contents w = (contents w)(?n := Some cur)" using held by auto
  show ?case
  proof (cases "is_managed cur")
    case False
    then have "sync_existing o1 client wanted rest (errs, mine, w) = ([], mine', w')"
      using Cons.prems(1) by (auto split: option.splits)
    then show ?thesis using same False by (intro step) (simp_all add: settled_def)
  next
    case m: True
    show ?thesis
    proof (cases "wanted ?n")
      case None
      show ?thesis
      proof (cases "registrar_owns o1 cur")
        case False
        then have "sync_existing o1 client wanted rest (errs, mine, w) = ([], mine', w')"
          using Cons.prems(1) None by simp
        then show ?thesis using same False m None by (intro step) (simp_all add: settled_def)
      next
        case True
        obtain r w1 where wr: "ag_Write client (DeleteService ?n) w = (r, w1)" by (metis surj_pair)
        show ?thesis
        proof (cases r)
          case r: None
          have "contents w1 = (contents w)(?n := None)" using store_laws_rules(8)[OF laws wr[unfolded r]] .
          then show ?thesis using Cons.prems(1) None True m wr r
            by (intro step[of errs mine w1]) (simp_all add: settled_def)
        next
          case (Some e)
          show ?thesis
          proof (cases "e = NotFoundError")
            case gone: True
            with store_laws_rules(9)[OF laws] wr Some held show ?thesis by fastforce
          next
            case False
            then have run: "sync_existing o1 client wanted rest (errs @ [(?n, e)], mine, w1) = ([], mine', w')"
              using Cons.prems(1) None True m wr Some by simp
            have "errs @ [(?n, e)] = []" by (rule sync_existing_errors[OF run])
            then show ?thesis by simp
          qed
        qed
      qed
    next
      case (Some want)
      show ?thesis
      proof (cases "snd (merge_service cur want)")
        case False
        then have u: "merge_service cur want = (cur, False)" by (auto simp: merge_service_def split: if_splits)
        then have "sync_existing o1 client wanted rest (errs, mine + 1, w) = ([], mine', w')"
          using Cons.prems(1) Some m by simp
        then show ?thesis using same Some m u by (intro step) (simp_all add: settled_def)
      next
        case True
        obtain updated where u: "merge_service cur want = (updated, True)" using True by (metis prod.collapse)
        have nm: "as_Name updated = ?n" using merge_service_fields(1)[OF m, of want] u by simp
        obtain r w1 where wr: "ag_Write client (UpdateService updated) w = (r, w1)" by (metis surj_pair)
        show ?thesis
        proof (cases r)
          case r: None
          have "contents w1 = (contents w)(?n \<mapsto> updated)"
            using store_laws_rules(5)[OF laws wr[unfolded r]] nm by simp
          then show ?thesis using Cons.prems(1) Some m wr r u
            by (intro step[of errs "mine + 1" w1]) (simp_all add: settled_def)
        next
          case e: (Some e)
          then have run: "sync_existing o1 client wanted rest (errs @ [(?n, e)], mine + 1, w1) = ([], mine', w')"
            using Cons.prems(1) Some m wr u by simp
          have "errs @ [(?n, e)] = []" by (rule sync_existing_errors[OF run])
          then show ?thesis by simp
        qed
      qed
    qed
  qed
qed

lemma create_missing_settles:
  assumes laws: "store_laws client contents"
    and named: "\<And>n want. wanted n = Some want \<Longrightarrow> as_Name want = n"
  shows "create_missing client wanted present names (errs, mine, w) = ([], mine', w') \<Longrightarrow>
    (\<forall>n. n \<notin> present \<longrightarrow> wanted n \<noteq> None \<longrightarrow> contents w n = None \<or> contents w n = wanted n) \<Longrightarrow>
    errs = [] \<and> (\<forall>n. contents w' n =
      (if n \<in> set names \<and> n \<notin> present \<and> wanted n \<noteq> None then wanted n else contents w n))"
proof (induction names arbitrary: errs mine w)
  case Nil
  then show ?case by simp
next
  case (Cons n names)
  show ?case
  proof (cases "n \<in> present \<or> wanted n = None")
    case True
    then have run: "create_missing client wanted present names (errs, mine, w) = ([], mine', w')"
      using Cons.prems(1) by (cases "n \<in> present") simp_all
    from Cons.IH[OF run Cons.prems(2)] True show ?thesis by auto
  next
    case False
    then obtain want where want: "n \<notin> present" "wanted n = Some want" by auto
    obtain r w1 where wr: "ag_Write client (CreateService want) w = (r, w1)" by (metis surj_pair)
    have step: ?thesis
      if run: "create_missing client wanted present names (e1, m1, w1) = ([], mine', w')"
        and one: "contents w1 = (contents w)(n \<mapsto> want)" and e1: "e1 = [] \<Longrightarrow> errs = []" for e1 m1
    proof -
      have "\<forall>k. k \<notin> present \<longrightarrow> wanted k \<noteq> None \<longrightarrow> contents w1 k = None \<or> contents w1 k = wanted k"
        using Cons.prems(2) want(2) by (auto simp: one)
      from Cons.IH[OF run this] e1 want show ?thesis by (auto simp: one)
    qed
    consider "r = None" | "r = Some AlreadyExistsError" | e where "r = Some e" "e \<noteq> AlreadyExistsError"
      by (cases r) auto
    then show ?thesis
    proof cases
      case 1
      then show ?thesis using store_laws_rules(6)[OF laws wr[unfolded 1]] named[OF want(2)] Cons.prems(1) want wr
        by (intro step[of errs "mine + 1"]) simp_all
    next
      case 2
      from store_laws_rules(7)[OF laws wr[unfolded 2]] named[OF want(2)]
      have "contents w1 = contents w" "contents w n \<noteq> None" by auto
      moreover from this Cons.prems(2) want have "contents w n = Some want" by auto
      ultimately show ?thesis using Cons.prems(1) want wr 2
        by (intro step[of errs "mine + 1"]) auto
    next
      case (3 e)
      then have run: "create_missing client wanted present names (errs @ [(n, e)], mine, w1) = ([], mine', w')"
        using Cons.prems(1) want wr by simp
      have "errs @ [(n, e)] = []" by (rule create_missing_errors[OF run])
      then show ?thesis by simp
    qed
  qed
qed

lemma wanted_services_named:
  assumes "wanted_services o1 ca fgn gvs (Map.empty, warned) = (wanted, warned')" and "wanted n = Some want"
  shows "as_Name want = n" and "is_managed want" and "registrar_owns o1 want"
  using wanted_services_only[OF assms] by (metis service_name_desired, metis desired_managed, metis desired_owned)

lemma wanted_services_eq:
  assumes w: "wanted_services o1 ca fgn gvs (Map.empty, warned) = (wanted, warned')"
    and inj: "inj_on service_name (set gvs)"
  shows "gv \<in> set gvs - fgn \<Longrightarrow> wanted (service_name gv) = Some (desired o1 gv ca)"
    and "n \<notin> service_name ` (set gvs - fgn) \<Longrightarrow> wanted n = None"
proof -
  assume gv: "gv \<in> set gvs - fgn"
  from wanted_services_none[OF w _ gv] obtain want where want: "wanted (service_name gv) = Some want" by blast
  from wanted_services_only[OF w want] obtain gv' where
    gv': "gv' \<in> set gvs - fgn" "want = desired o1 gv' ca" "service_name gv = service_name gv'" by blast
  have "gv = gv'" by (rule inj_onD[OF inj gv'(3)]) (use gv gv'(1) in blast)+
  with gv'(2) want show "wanted (service_name gv) = Some (desired o1 gv ca)" by simp
next
  assume n: "n \<notin> service_name ` (set gvs - fgn)"
  show "wanted n = None"
  proof (rule ccontr)
    assume "wanted n \<noteq> None"
    then obtain want where "wanted n = Some want" by blast
    from wanted_services_only[OF w this] obtain gv where "gv \<in> set gvs - fgn" "n = service_name gv" by blast
    with n show False by simp
  qed
qed

text \<open>What a list says of the store: each name it holds once, and what it holds there.\<close>

lemma listed_contents:
  assumes laws: "store_laws client contents" and l: "ag_List client w = (Ok existing, w')"
  shows "distinct (map as_Name existing)" and "n \<in> as_Name ` set existing \<longleftrightarrow> contents w n \<noteq> None"
    and "\<forall>cur\<in>set existing. contents w (as_Name cur) = Some cur"
proof -
  show d: "distinct (map as_Name existing)" by (rule store_laws_rules(3)[OF laws l])
  note m = store_laws_rules(4)[OF laws l, symmetric]
  show "n \<in> as_Name ` set existing \<longleftrightarrow> contents w n \<noteq> None"
    unfolding m by (force simp: map_of_eq_None_iff image_image)
  show "\<forall>cur\<in>set existing. contents w (as_Name cur) = Some cur"
    unfolding m using d by (auto simp: comp_def intro!: map_of_is_SomeI)
qed

text \<open>A round without errors, by name.\<close>

lemma round_settles:
  assumes laws: "store_laws client contents"
    and f: "foreign o1 client w = (Ok fgn, w1)"
    and ws: "wanted_services o1 ca fgn gv_order (Map.empty, warned) = (wanted, warned')"
    and l: "ag_List client w1 = (Ok existing, w2)"
    and se: "sync_existing o1 client wanted existing ([], 0, w2) = (errs0, mine0, w3)"
    and cm: "create_missing client wanted (as_Name ` set existing) name_order (errs0, mine0, w3) = ([], mine, w')"
    and covers: "\<And>n. wanted n \<noteq> None \<Longrightarrow> n \<in> set name_order"
  shows "contents w' n = settled o1 (wanted n) (contents w n)"
proof -
  have c2: "contents w2 = contents w1" "contents w1 = contents w"
    using foreign_contents[OF laws f] store_laws_rules(2)[OF laws l] by simp_all
  note d = listed_contents(1)[OF laws l] and dm = listed_contents(2)[OF laws l, folded c2(1)]
    and held = listed_contents(3)[OF laws l, folded c2(1)]
  have e0: "errs0 = []" by (rule create_missing_errors[OF cm])
  from sync_existing_settles[OF laws se[unfolded e0] d held]
  have w3: "contents w3 n = (if contents w2 n \<noteq> None then settled o1 (wanted n) (contents w2 n) else contents w2 n)"
    for n unfolding dm by blast
  have "\<forall>n. n \<notin> as_Name ` set existing \<longrightarrow> wanted n \<noteq> None \<longrightarrow> contents w3 n = None \<or> contents w3 n = wanted n"
    unfolding dm by (simp add: w3)
  from create_missing_settles[OF laws wanted_services_named(1)[OF ws] cm this]
  have w': "contents w' n = (if n \<in> set name_order \<and> contents w2 n = None \<and> wanted n \<noteq> None then wanted n
      else contents w3 n)" for n unfolding dm by simp
  show ?thesis
  proof (cases "contents w2 n")
    case None
    then show ?thesis using covers[of n] w' w3 c2 by (cases "wanted n") (simp_all add: settled_def)
  next
    case (Some cur)
    then show ?thesis using w' w3 c2 by simp
  qed
qed

lemma wanted_services_unique:
  assumes "wanted_services o1 ca fgn gvs (Map.empty, warned1) = (wanted, warned1')"
    and "wanted_services o1 ca fgn gvs (Map.empty, warned2) = (wanted', warned2')" and "inj_on service_name (set gvs)"
  shows "wanted' = wanted"
proof
  fix n
  show "wanted' n = wanted n"
    by (cases "n \<in> service_name ` (set gvs - fgn)")
       (auto simp: wanted_services_eq[OF assms(1,3)] wanted_services_eq[OF assms(2,3)])
qed

text \<open>A round that succeeded: what it wanted, and that the store is now that way.\<close>

lemma completed_round:
  assumes laws: "store_laws client contents"
    and round: "reconcile_services read_file client src gv_order name_order r w = ((None, mine), r', w')"
    and lead: "leads (rg_leader r)" "sc_HasSynced src"
    and names: "service_name ` set gv_order \<subseteq> set name_order" and inj: "inj_on service_name (set gv_order)"
  obtains ca fgn w1 wanted warned where "caBundle read_file (rg_options r) = Ok ca"
    "foreign (rg_options r) client w = (Ok fgn, w1)"
    "wanted_services (rg_options r) ca fgn gv_order (Map.empty, rg_warned r) = (wanted, warned)"
    "\<forall>n. contents w' n = settled (rg_options r) (wanted n) (contents w n)"
proof -
  obtain ca fgn w1 wanted warned existing w2 errs0 mine0 w3 where written:
      "caBundle read_file (rg_options r) = Ok ca"
      "foreign (rg_options r) client w = (Ok fgn, w1)"
      "wanted_services (rg_options r) ca fgn gv_order (Map.empty, rg_warned r) = (wanted, warned)"
      "ag_List client w1 = (Ok existing, w2)"
      "sync_existing (rg_options r) client wanted existing ([], 0, w2) = (errs0, mine0, w3)"
      "create_missing client wanted (as_Name ` set existing) name_order (errs0, mine0, w3) = ([], mine, w')"
    by (rule successful_round[OF round lead])
  have covers: "n \<in> set name_order" if "wanted n \<noteq> None" for n
  proof -
    have "n \<in> service_name ` (set gv_order - fgn)"
      by (rule ccontr) (use that wanted_services_eq(2)[OF written(3) inj, of n] in simp)
    with names show ?thesis by blast
  qed
  show thesis by (rule that[OF written(1-3)]) (rule allI, rule round_settles[OF laws written(2-6) covers])
qed

text \<open>
  C17. A round that succeeds leaves every name as it should be: under each group version the
  workspaces serve and the cluster does not, an APIService spillway manages now carries the desired
  spec, and a missing one has been created; a managed one that points at spillway and names nothing
  served any more is gone; and everything else, whatever an operator declared under those names
  included, is exactly as it was. It relies only on what the API says of a call that succeeds.
\<close>

theorem registrar_converges:
  assumes "store_laws client contents"
    and "leads (rg_leader r)" and "sc_HasSynced src"
    and "set gv_order = dom (sn_Resources (sc_Snapshot src))"
    and "service_name ` set gv_order \<subseteq> set name_order"
    and "inj_on service_name (set gv_order)"
    and "reconcile_services read_file client src gv_order name_order r w = ((None, mine), r', w')"
  shows "\<exists>ca fgn w1. caBundle read_file (rg_options r) = Ok ca \<and>
    foreign (rg_options r) client w = (Ok fgn, w1) \<and>
    (\<forall>gv\<in>registrable src fgn. contents w' (service_name gv) =
       settled (rg_options r) (Some (desired (rg_options r) gv ca)) (contents w (service_name gv))) \<and>
    (\<forall>n. n \<notin> service_name ` registrable src fgn \<longrightarrow>
       contents w' n = settled (rg_options r) None (contents w n))"
proof -
  obtain ca fgn w1 wanted warned where done_round: "caBundle read_file (rg_options r) = Ok ca"
    "foreign (rg_options r) client w = (Ok fgn, w1)"
    "wanted_services (rg_options r) ca fgn gv_order (Map.empty, rg_warned r) = (wanted, warned)"
    "\<forall>n. contents w' n = settled (rg_options r) (wanted n) (contents w n)"
    by (rule completed_round[OF assms(1,7,2,3,5,6)])
  with wanted_services_eq[OF done_round(3) assms(6)] assms(4) show ?thesis
    unfolding registrable_def by (intro exI[of _ ca] exI[of _ fgn] exI[of _ w1]) auto
qed

lemma settled_again:
  "is_managed want \<Longrightarrow> settled o1 (Some want) (settled o1 (Some want) held) = settled o1 (Some want) held"
  "settled o1 None (settled o1 None held) = settled o1 None held"
  by (auto simp: settled_def merge_service_def is_managed_def split: option.splits)

lemma settled_needs_no_update:
  assumes "is_managed cur" and "settled o1 (Some want) (Some cur) = Some cur"
  shows "merge_service cur want = (cur, False)"
proof -
  from assms have "fst (merge_service cur want) = cur" by (simp add: settled_def)
  with merge_service_fields(4)[OF assms(1), of want] have "as_Spec cur = as_Spec want" by simp
  with assms(1) show ?thesis by (simp add: merge_service_def is_managed_def)
qed

lemma sync_existing_quiet:
  assumes "\<forall>cur\<in>set existing. settled o1 (wanted (as_Name cur)) (Some cur) = Some cur"
  shows "\<exists>mine'. sync_existing o1 client wanted existing (errs, mine, w) = (errs, mine', w)"
  using assms
proof (induction existing arbitrary: mine)
  case Nil
  then show ?case by simp
next
  case (Cons cur rest)
  have rest: "\<exists>mine'. sync_existing o1 client wanted rest (errs, m, w) = (errs, mine', w)" for m
    using Cons by simp
  have now: "settled o1 (wanted (as_Name cur)) (Some cur) = Some cur" using Cons.prems by simp
  show ?case
  proof (cases "wanted (as_Name cur)")
    case None
    with now have "\<not> (is_managed cur \<and> registrar_owns o1 cur)" by (auto simp: settled_def)
    with None show ?thesis using rest by auto
  next
    case (Some want)
    with now settled_needs_no_update[of cur o1 want] show ?thesis using rest by (cases "is_managed cur") auto
  qed
qed

lemma create_missing_quiet:
  assumes "\<forall>n. wanted n \<noteq> None \<longrightarrow> n \<in> present"
  shows "create_missing client wanted present names (errs, mine, w) = (errs, mine, w)"
proof (induction names)
  case Nil
  then show ?case by simp
next
  case (Cons n names)
  then show ?case using assms by (cases "wanted n"; cases "n \<in> present") auto
qed

text \<open>A round over a store that is as it should be writes nothing.\<close>

lemma settled_round_is_quiet:
  assumes laws: "store_laws client contents"
    and l: "ag_List client v1 = (Ok existing, v2)"
    and se: "sync_existing o1 client wanted existing ([], 0, v2) = (errs, mine, v3)"
    and cm: "create_missing client wanted (as_Name ` set existing) names (errs, mine, v3) = (errs', mine', w)"
    and fixed: "\<And>n. settled o1 (wanted n) (contents v1 n) = contents v1 n"
    and there: "\<forall>n. wanted n \<noteq> None \<longrightarrow> contents v1 n \<noteq> None"
  shows "w = v2"
proof -
  have "\<forall>cur\<in>set existing. settled o1 (wanted (as_Name cur)) (Some cur) = Some cur"
    using listed_contents(3)[OF laws l] fixed by metis
  from sync_existing_quiet[OF this] se have "v3 = v2" by (metis prod.inject)
  moreover have "\<forall>n. wanted n \<noteq> None \<longrightarrow> n \<in> as_Name ` set existing"
    unfolding listed_contents(2)[OF laws l] by (rule there)
  from create_missing_quiet[OF this] cm have "w = v3" by (metis prod.inject)
  ultimately show ?thesis by simp
qed

text \<open>
  C28. The registrar comes to rest: when a round has succeeded, the next round over the same
  workspaces, with the same bundle and the same groups served by the cluster itself, asks the
  aggregator for no write at all.
\<close>

theorem registrar_comes_to_rest:
  assumes "store_laws client contents" and "logs_writes client log"
    and "leads (rg_leader r)" and "sc_HasSynced src"
    and "set gv_order = dom (sn_Resources (sc_Snapshot src))"
    and "service_name ` set gv_order \<subseteq> set name_order"
    and "inj_on service_name (set gv_order)"
    and "reconcile_services read_file client src gv_order name_order r w = ((None, mine), r', w')"
    and "fst (foreign (rg_options r) client w) = fst (foreign (rg_options r) client w')"
    and "reconcile_services read_file client src gv_order name_order r' w' = (out, r'', w'')"
  shows "log w'' = log w'"
proof -
  obtain ca fgn w1 wanted warned where first: "caBundle read_file (rg_options r) = Ok ca"
    "foreign (rg_options r) client w = (Ok fgn, w1)"
    "wanted_services (rg_options r) ca fgn gv_order (Map.empty, rg_warned r) = (wanted, warned)"
    "\<forall>n. contents w' n = settled (rg_options r) (wanted n) (contents w n)"
    by (rule completed_round[OF assms(1,8,3,4,6,7)])
  note target = first(4)[rule_format]
  have fixed: "settled (rg_options r) (wanted n) (contents w' n) = contents w' n" for n
    unfolding target using settled_again wanted_services_named(2)[OF first(3)] by (cases "wanted n") auto
  have o1: "rg_options r' = rg_options r" by (rule reconcile_keeps_options[OF assms(8)])
  obtain failed2 mine2 where "out = (failed2, mine2)" by (metis surj_pair)
  from assms(10)[unfolded this] show ?thesis
  proof (cases rule: reconcile_services_cases)
    case idle
    then show ?thesis by simp
  next
    case unread
    then show ?thesis using foreign_log[OF assms(2)] by simp
  next
    case (unlisted fgn2 v1 e)
    then show ?thesis using foreign_log[OF assms(2), of "rg_options r'" w'] logs_list[OF assms(2) unlisted(2)] by simp
  next
    case (written ca2 fgn2 v1 wanted2 warned2 existing2 v2 errs1 mine1 v3 errs2)
    have "ca2 = ca" "fgn2 = fgn" using written(3,4) first(1,2) assms(9) by (simp_all add: o1)
    from wanted_services_unique[OF first(3) written(5)[unfolded this o1] assms(7)] have same: "wanted2 = wanted" .
    have c: "contents v1 = contents w'" by (rule foreign_contents[OF assms(1) written(4)])
    have there: "\<forall>n. wanted n \<noteq> None \<longrightarrow> contents w' n \<noteq> None"
      unfolding target by (auto simp: settled_def split: option.splits)
    have w'': "w'' = v2"
      by (rule settled_round_is_quiet[OF assms(1) written(6-8)]) (use fixed there in \<open>simp_all add: c same o1\<close>)
    have "log v1 = log w'" using foreign_log[OF assms(2), of "rg_options r'" w'] written(4) by simp
    with logs_list[OF assms(2) written(6)] w'' show ?thesis by simp
  qed
qed

section \<open>A cluster with one registration\<close>

type_synonym sample_cluster = "api_service option \<times> service_write list"

definition sample_aggregator :: "sample_cluster aggregator" where
  "sample_aggregator =
     \<lparr>ag_List = (\<lambda>w. (Ok (case fst w of None \<Rightarrow> [] | Some s \<Rightarrow> [s]), w)),
      ag_Write = (\<lambda>x w.
        case x of
          CreateService s \<Rightarrow>
            (case fst w of
               None \<Rightarrow> (None, (Some s, snd w @ [x]))
             | Some t \<Rightarrow> (Some (if as_Name t = as_Name s then AlreadyExistsError else WriteFailed ''full''),
                          (fst w, snd w @ [x])))
        | UpdateService s \<Rightarrow>
            (case fst w of
               None \<Rightarrow> (Some NotFoundError, (fst w, snd w @ [x]))
             | Some t \<Rightarrow> if as_Name t = as_Name s then (None, (Some s, snd w @ [x]))
                          else (Some NotFoundError, (fst w, snd w @ [x])))
        | DeleteService n \<Rightarrow>
            (case fst w of
               None \<Rightarrow> (Some NotFoundError, (fst w, snd w @ [x]))
             | Some t \<Rightarrow> if as_Name t = n then (None, (None, snd w @ [x]))
                          else (Some NotFoundError, (fst w, snd w @ [x])))),
      ag_ServerGroups = (\<lambda>w. (Ok [], w))\<rparr>"

definition sample_contents :: "sample_cluster \<Rightarrow> string \<rightharpoonup> api_service" where
  "sample_contents w = (case fst w of None \<Rightarrow> Map.empty | Some s \<Rightarrow> [as_Name s \<mapsto> s])"

lemma sample_store_laws: "store_laws sample_aggregator sample_contents"
  unfolding store_laws_def sample_aggregator_def sample_contents_def
  by (auto split: option.splits if_splits)

lemma sample_logs_writes: "logs_writes sample_aggregator snd"
  by (auto simp: logs_writes_def sample_aggregator_def split: option.splits service_write.splits)

definition sample_service_options :: APIServiceOptions where
  "sample_service_options =
     \<lparr>so_Register = True, so_ServiceName = ''spillway'', so_ServiceNamespace = ''infra'', so_ServicePort = 443,
      so_CABundleFile = [], so_InsecureSkipTLSVerify = True, so_GroupPriorityMinimum = 1000, so_VersionPriority = 15\<rparr>"

definition sample_source :: registrar_source where
  "sample_source =
     \<lparr>sc_Snapshot = \<lparr>sn_Groups = [''g'' \<mapsto> sample_group], sn_Resources = [GV ''g'' ''v2'' \<mapsto> []]\<rparr>, sc_HasSynced = True\<rparr>"

definition sample_registrar :: apiServiceRegistrar where
  "sample_registrar = \<lparr>rg_options = sample_service_options, rg_leader = None, rg_warned = {}\<rparr>"

text \<open>Yesterday's version is registered, the workspaces serve today's.\<close>

abbreviation sample_before :: sample_cluster where
  "sample_before \<equiv> (Some (desired sample_service_options (GV ''g'' ''v1'') []), [])"

abbreviation sample_after :: sample_cluster where
  "sample_after \<equiv> (Some (desired sample_service_options (GV ''g'' ''v2'') []),
     [DeleteService ''v1.g'', CreateService (desired sample_service_options (GV ''g'' ''v2'') [])])"

lemma sample_round:
  "reconcile_services read_file sample_aggregator sample_source [GV ''g'' ''v2''] [''v2.g''] sample_registrar sample_before =
     ((None, 1), sample_registrar, sample_after)"
  "reconcile_services read_file sample_aggregator sample_source [GV ''g'' ''v2''] [''v2.g''] sample_registrar sample_after =
     ((None, 1), sample_registrar, sample_after)"
  by (simp_all add: reconcile_services_def leads_def sample_registrar_def sample_source_def caBundle_def
      sample_service_options_def foreign_def sample_aggregator_def announced_def desired_def service_name_def
      is_managed_def registrar_owns_def merge_service_def managedByLabel_def managedByValue_def)

lemma sample_source_serves: "dom (sn_Resources (sc_Snapshot sample_source)) = {GV ''g'' ''v2''}"
  by (simp add: sample_source_def)

theorem registrar_touches_only_its_own_witness:
  "length (snd sample_after) = 2 \<and>
     (\<exists>ca fgn existing.
        list_all (own_write (rg_options sample_registrar) ca (registrable sample_source fgn) existing) (snd sample_after))"
proof -
  have "\<exists>writes. snd sample_after = snd sample_before @ writes \<and>
    (writes = [] \<or> leads (rg_leader sample_registrar) \<and> sc_HasSynced sample_source \<and>
     (\<exists>ca fgn w1 existing. caBundle (\<lambda>_. Err []) (rg_options sample_registrar) = Ok ca \<and>
        foreign (rg_options sample_registrar) sample_aggregator sample_before = (Ok fgn, w1) \<and>
        fst (ag_List sample_aggregator w1) = Ok existing \<and>
        (\<forall>x\<in>set writes. own_write (rg_options sample_registrar) ca (registrable sample_source fgn) existing x)))"
    by (rule registrar_touches_only_its_own[OF sample_logs_writes _ sample_round(1)])
       (simp add: sample_source_serves)
  then show ?thesis by (auto simp: list_all_iff)
qed

theorem registrar_converges_witness:
  "\<exists>ca. sample_contents sample_after ''v2.g'' =
       settled sample_service_options (Some (desired sample_service_options (GV ''g'' ''v2'') ca))
         (sample_contents sample_before ''v2.g'') \<and>
     sample_contents sample_after ''v1.g'' = settled sample_service_options None (sample_contents sample_before ''v1.g'')"
proof -
  have "\<exists>ca fgn w1. caBundle (\<lambda>_. Err []) (rg_options sample_registrar) = Ok ca \<and>
    foreign (rg_options sample_registrar) sample_aggregator sample_before = (Ok fgn, w1) \<and>
    (\<forall>gv\<in>registrable sample_source fgn. sample_contents sample_after (service_name gv) =
       settled (rg_options sample_registrar) (Some (desired (rg_options sample_registrar) gv ca))
         (sample_contents sample_before (service_name gv))) \<and>
    (\<forall>n. n \<notin> service_name ` registrable sample_source fgn \<longrightarrow>
       sample_contents sample_after n = settled (rg_options sample_registrar) None (sample_contents sample_before n))"
    by (rule registrar_converges[OF sample_store_laws _ _ _ _ _ sample_round(1)])
       (simp_all add: sample_source_serves, simp_all add: sample_registrar_def leads_def sample_source_def service_name_def)
  then obtain ca fgn w1 where f: "foreign (rg_options sample_registrar) sample_aggregator sample_before = (Ok fgn, w1)"
    and up: "\<forall>gv\<in>registrable sample_source fgn. sample_contents sample_after (service_name gv) =
       settled (rg_options sample_registrar) (Some (desired (rg_options sample_registrar) gv ca))
         (sample_contents sample_before (service_name gv))"
    and gone: "\<forall>n. n \<notin> service_name ` registrable sample_source fgn \<longrightarrow>
       sample_contents sample_after n = settled (rg_options sample_registrar) None (sample_contents sample_before n)"
    by blast
  have "fgn = {}" using f by (simp add: foreign_def sample_aggregator_def announced_def)
  then have r: "registrable sample_source fgn = {GV ''g'' ''v2''}" by (simp add: registrable_def sample_source_serves)
  have n: "service_name (GV ''g'' ''v2'') = ''v2.g''" by (simp add: service_name_def)
  from up gone show ?thesis unfolding r by (auto simp: n sample_registrar_def simp del: fun_upd_apply intro!: exI[of _ ca])
qed

theorem registrar_comes_to_rest_witness:
  "\<exists>r' w' r'' w''.
     reconcile_services (\<lambda>_. Err []) sample_aggregator sample_source [GV ''g'' ''v2''] [''v2.g'']
       sample_registrar sample_before = ((None, 1), r', w') \<and> length (snd w') = 2 \<and>
     reconcile_services (\<lambda>_. Err []) sample_aggregator sample_source [GV ''g'' ''v2''] [''v2.g'']
       r' w' = ((None, 1), r'', w'') \<and> snd w'' = snd w'"
proof -
  have f: "fst (foreign (rg_options sample_registrar) sample_aggregator sample_before) =
      fst (foreign (rg_options sample_registrar) sample_aggregator sample_after)"
    by (simp add: foreign_def sample_aggregator_def announced_def)
  have "snd sample_after = snd sample_after"
    by (rule registrar_comes_to_rest[OF sample_store_laws sample_logs_writes _ _ _ _ _ sample_round(1) f sample_round(2)])
       (simp_all add: sample_source_serves, simp_all add: sample_registrar_def leads_def sample_source_def service_name_def)
  then show ?thesis using sample_round by (metis One_nat_def Suc_1 length_Cons list.size(3) snd_conv)
qed

end
