(* ===== verification/Options.thy ===== *)
theory Options
  imports Workspace_Manager API_Services
begin

text \<open>
  \<open>pkg/cmd/server/workspaces.go\<close> and the part of \<open>pkg/cmd/server/options.go\<close> that decides something:
  the workspaces file, the options, their completion and validation, and what they turn into. Reading
  a file and the strict YAML decoder are parameters, and so are the errors of the generic server's own
  options. An absent matcher, which matches nothing, is the empty one.
\<close>

section \<open>The workspaces file\<close>

record WorkspaceEntry =
  we_Name :: string
  we_Kubeconfig :: string
  we_APIGroups :: "string list"
  we_ImpersonateUsers :: "bool option"
  we_RequestTimeout :: "duration option"
  we_Retries :: "int option"
  we_FailureThreshold :: "int option"
  we_CircuitCooldown :: "duration option"

datatype backend_setting_error =
    RequestTimeoutNotPositive duration
  | RetriesNegative int
  | FailureThresholdTooSmall int
  | CircuitCooldownNotPositive duration

datatype workspaces_error =
    ReadingWorkspacesFile string
  | ParsingWorkspacesFile string
  | NoWorkspacesListed
  | EntryHasNoName nat
  | EntryListedTwice string
  | EntryHasNoKubeconfig string
  | EntryGroups string group_error
  | GroupClaimedTwice string string string
  | EntryBackend string backend_setting_error

definition validateBackend :: "BackendOptions \<Rightarrow> backend_setting_error option" where
  "validateBackend b =
     (if bo_RequestTimeout b \<le> 0 then Some (RequestTimeoutNotPositive (bo_RequestTimeout b))
      else if bo_Retries b < 0 then Some (RetriesNegative (bo_Retries b))
      else if bo_FailureThreshold b < 1 then Some (FailureThresholdTooSmall (bo_FailureThreshold b))
      else if bo_CircuitCooldown b \<le> 0 then Some (CircuitCooldownNotPositive (bo_CircuitCooldown b))
      else None)"

text \<open>The loop over the groups an entry names outright: who claims each of them.\<close>

fun claim_groups :: "string \<Rightarrow> string list \<Rightarrow> (string \<rightharpoonup> string) \<Rightarrow> (workspaces_error, string \<rightharpoonup> string) result" where
  "claim_groups name [] claimed = Ok claimed"
| "claim_groups name (g # gs) claimed =
     (case claimed g of
        Some owner \<Rightarrow> Err (GroupClaimedTwice owner name g)
      | None \<Rightarrow> claim_groups name gs (claimed(g \<mapsto> name)))"

definition override :: "'a \<Rightarrow> 'a option \<Rightarrow> 'a" where
  "override d x = (case x of None \<Rightarrow> d | Some v \<Rightarrow> v)"

definition entry_config :: "WorkspaceConfig \<Rightarrow> WorkspaceEntry \<Rightarrow> group_matcher \<Rightarrow> WorkspaceConfig" where
  "entry_config defaults e matcher =
     \<lparr>wc_Name = we_Name e, wc_Kubeconfig = we_Kubeconfig e, wc_APIGroups = matcher,
      wc_Backend =
        \<lparr>bo_RequestTimeout = override (bo_RequestTimeout (wc_Backend defaults)) (we_RequestTimeout e),
         bo_Retries = override (bo_Retries (wc_Backend defaults)) (we_Retries e),
         bo_FailureThreshold = override (bo_FailureThreshold (wc_Backend defaults)) (we_FailureThreshold e),
         bo_CircuitCooldown = override (bo_CircuitCooldown (wc_Backend defaults)) (we_CircuitCooldown e)\<rparr>,
      wc_ImpersonateUsers = override (wc_ImpersonateUsers defaults) (we_ImpersonateUsers e)\<rparr>"

text \<open>The loop over the entries: its index, the names seen, the groups claimed, the configurations so far.\<close>

fun load_entries :: "WorkspaceConfig \<Rightarrow> WorkspaceEntry list \<Rightarrow> nat \<Rightarrow> string set \<Rightarrow> (string \<rightharpoonup> string) \<Rightarrow>
    WorkspaceConfig list \<Rightarrow> (workspaces_error, WorkspaceConfig list) result" where
  "load_entries defaults [] i names claimed configs = Ok configs"
| "load_entries defaults (e # es) i names claimed configs =
     (if we_Name e = [] then Err (EntryHasNoName i)
      else if we_Name e \<in> names then Err (EntryListedTwice (we_Name e))
      else if we_Kubeconfig e = [] then Err (EntryHasNoKubeconfig (we_Name e))
      else (case ParseGroupMatcher (we_APIGroups e) of
              Err err \<Rightarrow> Err (EntryGroups (we_Name e) err)
            | Ok matcher \<Rightarrow>
                (case claim_groups (we_Name e) (Exact (Some matcher)) claimed of
                   Err err \<Rightarrow> Err err
                 | Ok claimed' \<Rightarrow>
                     let config = entry_config defaults e matcher in
                     (case validateBackend (wc_Backend config) of
                        Some err \<Rightarrow> Err (EntryBackend (we_Name e) err)
                      | None \<Rightarrow>
                          load_entries defaults es (i + 1) (insert (we_Name e) names) claimed' (configs @ [config])))))"

definition loadWorkspaces :: "(string \<Rightarrow> (string, string) result) \<Rightarrow> (string \<Rightarrow> (string, WorkspaceEntry list) result) \<Rightarrow>
    string \<Rightarrow> WorkspaceConfig \<Rightarrow> (workspaces_error, WorkspaceConfig list) result" where
  "loadWorkspaces read_file unmarshal path defaults =
     (case read_file path of
        Err e \<Rightarrow> Err (ReadingWorkspacesFile e)
      | Ok raw \<Rightarrow>
          (case unmarshal raw of
             Err e \<Rightarrow> Err (ParsingWorkspacesFile e)
           | Ok entries \<Rightarrow>
               if entries = [] then Err NoWorkspacesListed
               else load_entries defaults entries 0 {} Map.empty []))"

section \<open>The options\<close>

record SpillwayServerOptions =
  op_KCPKubeconfig :: string
  op_WorkspacesFile :: string
  op_APIGroups :: "string list"
  op_ResyncPeriod :: duration
  op_CredentialReloadPeriod :: duration
  op_MirrorNamespaces :: bool
  op_ImpersonateUsers :: bool
  op_Backend :: BackendOptions
  op_MaxRequestsInFlight :: int
  op_MaxMutatingRequestsInFlight :: int
  op_APIServices :: APIServiceOptions
  op_LeaderElection :: LeaderElectionOptions
  op_AuthorizationQPS :: int
  op_AuthorizationBurst :: int

text \<open>\<open>DefaultServiceNamespace\<close>: what \<open>strings.TrimSpace\<close> leaves of the pod's namespace file, if there is one.\<close>

definition inClusterNamespaceFile :: string where
  "inClusterNamespaceFile = ''/var/run/secrets/kubernetes.io/serviceaccount/namespace''"

definition DefaultServiceNamespace :: "(string \<Rightarrow> (string, string) result) \<Rightarrow> (string \<Rightarrow> string) \<Rightarrow> string" where
  "DefaultServiceNamespace read_file trim_space =
     (case read_file inClusterNamespaceFile of Err _ \<Rightarrow> [] | Ok content \<Rightarrow> trim_space content)"

definition NewSpillwayServerOptions :: "string \<Rightarrow> SpillwayServerOptions" where
  "NewSpillwayServerOptions in_cluster =
     \<lparr>op_KCPKubeconfig = [], op_WorkspacesFile = [], op_APIGroups = [], op_ResyncPeriod = 10 * minute,
      op_CredentialReloadPeriod = minute, op_MirrorNamespaces = False, op_ImpersonateUsers = False,
      op_Backend = \<lparr>bo_RequestTimeout = 30 * second, bo_Retries = 2, bo_FailureThreshold = 5,
                    bo_CircuitCooldown = 10 * second\<rparr>,
      op_MaxRequestsInFlight = 400, op_MaxMutatingRequestsInFlight = 200,
      op_APIServices = \<lparr>so_Register = False, so_ServiceName = ''spillway'', so_ServiceNamespace = in_cluster,
        so_ServicePort = 443, so_CABundleFile = [], so_InsecureSkipTLSVerify = False,
        so_GroupPriorityMinimum = 1000, so_VersionPriority = 15\<rparr>,
      op_LeaderElection = \<lparr>le_Enabled = True, le_Namespace = in_cluster, le_Name = ''spillway-apiservices'',
        le_LeaseDuration = 15 * second, le_RenewDeadline = 10 * second, le_RetryPeriod = 2 * second\<rparr>,
      op_AuthorizationQPS = 800, op_AuthorizationBurst = 1600\<rparr>"

definition options_Complete :: "SpillwayServerOptions \<Rightarrow> SpillwayServerOptions" where
  "options_Complete o1 =
     (if op_APIGroups o1 = [] then o1
      else o1\<lparr>op_APIGroups := sorted_list_of_set (set (op_APIGroups o1))\<rparr>)"

definition workspaceDefaults :: "SpillwayServerOptions \<Rightarrow> WorkspaceConfig" where
  "workspaceDefaults o1 =
     \<lparr>wc_Name = [], wc_Kubeconfig = [], wc_APIGroups = new_matcher, wc_Backend = op_Backend o1,
      wc_ImpersonateUsers = op_ImpersonateUsers o1\<rparr>"

datatype option_error =
    RecommendedError string
  | FileWithFlags
  | FileError workspaces_error
  | NoAPIGroup
  | GroupError group_error
  | ReloadPeriodNegative duration
  | ResyncPeriodNotPositive duration
  | BackendError backend_setting_error
  | InFlightNegative int
  | MutatingInFlightNegative int
  | ServiceError service_option_error
  | LeaderError leader_option_error
  | QPSNotPositive int
  | BurstBelowQPS int int

definition source_errors :: "(string \<Rightarrow> (string, string) result) \<Rightarrow> (string \<Rightarrow> (string, WorkspaceEntry list) result) \<Rightarrow>
    SpillwayServerOptions \<Rightarrow> option_error list" where
  "source_errors read_file unmarshal o1 =
     (if op_WorkspacesFile o1 \<noteq> [] \<and> (op_APIGroups o1 \<noteq> [] \<or> op_KCPKubeconfig o1 \<noteq> []) then [FileWithFlags]
      else if op_WorkspacesFile o1 \<noteq> [] then
        (case loadWorkspaces read_file unmarshal (op_WorkspacesFile o1) (workspaceDefaults o1) of
           Err e \<Rightarrow> [FileError e] | Ok _ \<Rightarrow> [])
      else if op_APIGroups o1 = [] then [NoAPIGroup]
      else (case ParseGroupMatcher (op_APIGroups o1) of Err e \<Rightarrow> [GroupError e] | Ok _ \<Rightarrow> []))"

definition options_Validate :: "(string \<Rightarrow> (string, string) result) \<Rightarrow> (string \<Rightarrow> (string, WorkspaceEntry list) result) \<Rightarrow>
    string list \<Rightarrow> SpillwayServerOptions \<Rightarrow> option_error list" where
  "options_Validate read_file unmarshal recommended o1 =
     map RecommendedError recommended @ source_errors read_file unmarshal o1 @
     (if op_CredentialReloadPeriod o1 < 0 then [ReloadPeriodNegative (op_CredentialReloadPeriod o1)] else []) @
     (if op_ResyncPeriod o1 \<le> 0 then [ResyncPeriodNotPositive (op_ResyncPeriod o1)] else []) @
     (if bo_RequestTimeout (op_Backend o1) \<le> 0
      then [BackendError (RequestTimeoutNotPositive (bo_RequestTimeout (op_Backend o1)))] else []) @
     (if bo_Retries (op_Backend o1) < 0 then [BackendError (RetriesNegative (bo_Retries (op_Backend o1)))] else []) @
     (if bo_FailureThreshold (op_Backend o1) < 1
      then [BackendError (FailureThresholdTooSmall (bo_FailureThreshold (op_Backend o1)))] else []) @
     (if bo_CircuitCooldown (op_Backend o1) \<le> 0
      then [BackendError (CircuitCooldownNotPositive (bo_CircuitCooldown (op_Backend o1)))] else []) @
     (if op_MaxRequestsInFlight o1 < 0 then [InFlightNegative (op_MaxRequestsInFlight o1)] else []) @
     (if op_MaxMutatingRequestsInFlight o1 < 0
      then [MutatingInFlightNegative (op_MaxMutatingRequestsInFlight o1)] else []) @
     map ServiceError (services_Validate (op_APIServices o1)) @
     (if so_Register (op_APIServices o1) then map LeaderError (leader_Validate (op_LeaderElection o1)) else []) @
     (if op_AuthorizationQPS o1 \<le> 0 then [QPSNotPositive (op_AuthorizationQPS o1)] else []) @
     (if op_AuthorizationBurst o1 < op_AuthorizationQPS o1
      then [BurstBelowQPS (op_AuthorizationBurst o1) (op_AuthorizationQPS o1)] else [])"

definition options_workspaces :: "(string \<Rightarrow> (string, string) result) \<Rightarrow> (string \<Rightarrow> (string, WorkspaceEntry list) result) \<Rightarrow>
    SpillwayServerOptions \<Rightarrow> (option_error, WorkspaceConfig list) result" where
  "options_workspaces read_file unmarshal o1 =
     (if op_WorkspacesFile o1 \<noteq> [] then
        (case loadWorkspaces read_file unmarshal (op_WorkspacesFile o1) (workspaceDefaults o1) of
           Err e \<Rightarrow> Err (FileError e) | Ok configs \<Rightarrow> Ok configs)
      else (case ParseGroupMatcher (op_APIGroups o1) of
              Err e \<Rightarrow> Err (GroupError e)
            | Ok groups \<Rightarrow>
                Ok [(workspaceDefaults o1)\<lparr>wc_Name := ''default'', wc_Kubeconfig := op_KCPKubeconfig o1,
                     wc_APIGroups := groups\<rparr>]))"

text \<open>\<open>reloadWorkspaces\<close>: reading the file again, when there is one; the file may have changed by then.\<close>

definition reloadWorkspaces :: "(string \<Rightarrow> (string, WorkspaceEntry list) result) \<Rightarrow> SpillwayServerOptions \<Rightarrow>
    ((string \<Rightarrow> (string, string) result) \<Rightarrow> (workspaces_error, WorkspaceConfig list) result) option" where
  "reloadWorkspaces unmarshal o1 =
     (if op_WorkspacesFile o1 = [] then None
      else Some (\<lambda>read_file. loadWorkspaces read_file unmarshal (op_WorkspacesFile o1) (workspaceDefaults o1)))"

record 'k ExtraConfig =
  ex_Workspaces :: "WorkspaceConfig list"
  ex_MirrorNamespaces :: bool
  ex_CredentialReloadPeriod :: duration
  ex_ResyncPeriod :: duration
  ex_ImpersonateUsers :: bool
  ex_Backend :: BackendOptions
  ex_APIServices :: APIServiceOptions
  ex_LeaderElection :: LeaderElectionOptions
  ex_ReloadWorkspaces :: "((string \<Rightarrow> (string, string) result) \<Rightarrow> (workspaces_error, WorkspaceConfig list) result) option"
  ex_ClusterClientConfig :: "'k option"

definition extraConfig :: "(string \<Rightarrow> (string, WorkspaceEntry list) result) \<Rightarrow> SpillwayServerOptions \<Rightarrow>
    WorkspaceConfig list \<Rightarrow> 'k option \<Rightarrow> 'k ExtraConfig" where
  "extraConfig unmarshal o1 workspaces cluster =
     \<lparr>ex_Workspaces = workspaces, ex_MirrorNamespaces = op_MirrorNamespaces o1,
      ex_CredentialReloadPeriod = op_CredentialReloadPeriod o1, ex_ResyncPeriod = op_ResyncPeriod o1,
      ex_ImpersonateUsers = op_ImpersonateUsers o1, ex_Backend = op_Backend o1,
      ex_APIServices = op_APIServices o1, ex_LeaderElection = op_LeaderElection o1,
      ex_ReloadWorkspaces = reloadWorkspaces unmarshal o1, ex_ClusterClientConfig = cluster\<rparr>"

section \<open>What a workspaces file has to say\<close>

definition matcher_of :: "WorkspaceEntry \<Rightarrow> group_matcher" where
  "matcher_of e = (case ParseGroupMatcher (we_APIGroups e) of Err _ \<Rightarrow> new_matcher | Ok m \<Rightarrow> m)"

definition configure :: "WorkspaceConfig \<Rightarrow> WorkspaceEntry \<Rightarrow> WorkspaceConfig" where
  "configure defaults e = entry_config defaults e (matcher_of e)"

definition named_groups :: "WorkspaceEntry \<Rightarrow> string list" where
  "named_groups e = Exact (Some (matcher_of e))"

definition valid_backend :: "BackendOptions \<Rightarrow> bool" where
  "valid_backend b \<longleftrightarrow>
     0 < bo_RequestTimeout b \<and> 0 \<le> bo_Retries b \<and> 1 \<le> bo_FailureThreshold b \<and> 0 < bo_CircuitCooldown b"

definition valid_entry :: "WorkspaceConfig \<Rightarrow> WorkspaceEntry \<Rightarrow> bool" where
  "valid_entry defaults e \<longleftrightarrow>
     we_Name e \<noteq> [] \<and> we_Kubeconfig e \<noteq> [] \<and> is_ok (ParseGroupMatcher (we_APIGroups e)) \<and>
     valid_backend (wc_Backend (configure defaults e))"

definition valid_entries :: "WorkspaceConfig \<Rightarrow> WorkspaceEntry list \<Rightarrow> bool" where
  "valid_entries defaults es \<longleftrightarrow>
     es \<noteq> [] \<and> list_all (valid_entry defaults) es \<and> distinct (map we_Name es) \<and> distinct (concat (map named_groups es))"

lemma validateBackend_None: "validateBackend b = None \<longleftrightarrow> valid_backend b"
  by (auto simp: validateBackend_def valid_backend_def)

lemma claim_groups_ok:
  "claim_groups name gs claimed = Ok claimed' \<longleftrightarrow>
     distinct gs \<and> (\<forall>g\<in>set gs. claimed g = None) \<and> claimed' = (\<lambda>g. if g \<in> set gs then Some name else claimed g)"
proof (induction gs arbitrary: claimed)
  case Nil
  then show ?case by auto
next
  case (Cons g gs)
  show ?case
  proof (cases "claimed g")
    case None
    have "(\<forall>x\<in>set gs. (claimed(g \<mapsto> name)) x = None) \<longleftrightarrow> g \<notin> set gs \<and> (\<forall>x\<in>set gs. claimed x = None)" by auto
    moreover have "(\<lambda>x. if x \<in> set gs then Some name else (claimed(g \<mapsto> name)) x) =
        (\<lambda>x. if x \<in> set (g # gs) then Some name else claimed x)" by auto
    ultimately show ?thesis using None by (simp add: Cons.IH del: fun_upd_apply) blast
  next
    case (Some owner)
    then show ?thesis by simp
  qed
qed

lemma load_entries_ok:
  "load_entries defaults es i names claimed configs = Ok cs \<longleftrightarrow>
     list_all (valid_entry defaults) es \<and> distinct (map we_Name es) \<and> (\<forall>e\<in>set es. we_Name e \<notin> names) \<and>
     distinct (concat (map named_groups es)) \<and> (\<forall>g\<in>set (concat (map named_groups es)). claimed g = None) \<and>
     cs = configs @ map (configure defaults) es"
proof (induction es arbitrary: i names claimed configs)
  case Nil
  then show ?case by auto
next
  case (Cons e es)
  show ?case
  proof (cases "we_Name e \<noteq> [] \<and> we_Name e \<notin> names \<and> we_Kubeconfig e \<noteq> [] \<and> is_ok (ParseGroupMatcher (we_APIGroups e)) \<and>
      valid_backend (wc_Backend (configure defaults e))")
    case False
    then have "load_entries defaults (e # es) i names claimed configs \<noteq> Ok cs"
      by (auto simp: validateBackend_None configure_def matcher_of_def Let_def split: sum.splits option.splits)
    with False show ?thesis by (auto simp: valid_entry_def)
  next
    case True
    then obtain m where m: "ParseGroupMatcher (we_APIGroups e) = Ok m" by (auto simp: is_ok_iff)
    have c: "configure defaults e = entry_config defaults e m" and n: "named_groups e = Exact (Some m)"
      using m by (simp_all add: configure_def named_groups_def matcher_of_def)
    have b: "validateBackend (wc_Backend (entry_config defaults e m)) = None"
      using True c by (simp add: validateBackend_None)
    have step: "load_entries defaults (e # es) i names claimed configs =
        (case claim_groups (we_Name e) (named_groups e) claimed of
           Err err \<Rightarrow> Err err
         | Ok claimed' \<Rightarrow> load_entries defaults es (i + 1) (insert (we_Name e) names) claimed' (configs @ [configure defaults e]))"
      using True m b c n by (auto simp: Let_def split: sum.split)
    show ?thesis
    proof (cases "claim_groups (we_Name e) (named_groups e) claimed")
      case (Inl err)
      then have "\<not> (distinct (named_groups e) \<and> (\<forall>g\<in>set (named_groups e). claimed g = None))"
        using claim_groups_ok[of "we_Name e" "named_groups e" claimed] by auto
      with Inl show ?thesis unfolding step by auto
    next
      case (Inr claimed')
      then have cl: "distinct (named_groups e)" "\<forall>g\<in>set (named_groups e). claimed g = None"
        "claimed' = (\<lambda>g. if g \<in> set (named_groups e) then Some (we_Name e) else claimed g)"
        by (simp_all add: claim_groups_ok)
      have k: "(\<forall>g\<in>set gs. claimed' g = None) \<longleftrightarrow> set (named_groups e) \<inter> set gs = {} \<and> (\<forall>g\<in>set gs. claimed g = None)" for gs
        unfolding cl(3) by auto
      have e: "valid_entry defaults e" "we_Name e \<notin> names" using True by (simp_all add: valid_entry_def)
      have nm: "(\<forall>x\<in>set es. we_Name x \<notin> insert (we_Name e) names) \<longleftrightarrow>
          we_Name e \<notin> we_Name ` set es \<and> (\<forall>x\<in>set es. we_Name x \<notin> names)" by (auto simp: image_iff)
      show ?thesis unfolding step Inr sum.case Cons.IH k nm using e cl(1,2) by auto
    qed
  qed
qed

text \<open>
  What an entry is to be turned into, written over the two of them alone: the entry's own name,
  kubeconfig and groups, and each setting the entry's when it gives one and the flags' when it does not.
\<close>

definition given :: "'a option \<Rightarrow> 'a \<Rightarrow> 'a \<Rightarrow> bool" where
  "given said flag value \<longleftrightarrow> (case said of Some v \<Rightarrow> value = v | None \<Rightarrow> value = flag)"

definition inherits :: "WorkspaceConfig \<Rightarrow> WorkspaceEntry \<Rightarrow> WorkspaceConfig \<Rightarrow> bool" where
  "inherits flags e c \<longleftrightarrow>
     wc_Name c = we_Name e \<and> wc_Kubeconfig c = we_Kubeconfig e \<and>
     ParseGroupMatcher (we_APIGroups e) = Ok (wc_APIGroups c) \<and>
     given (we_RequestTimeout e) (bo_RequestTimeout (wc_Backend flags)) (bo_RequestTimeout (wc_Backend c)) \<and>
     given (we_Retries e) (bo_Retries (wc_Backend flags)) (bo_Retries (wc_Backend c)) \<and>
     given (we_FailureThreshold e) (bo_FailureThreshold (wc_Backend flags)) (bo_FailureThreshold (wc_Backend c)) \<and>
     given (we_CircuitCooldown e) (bo_CircuitCooldown (wc_Backend flags)) (bo_CircuitCooldown (wc_Backend c)) \<and>
     given (we_ImpersonateUsers e) (wc_ImpersonateUsers flags) (wc_ImpersonateUsers c)"

definition acceptable :: "WorkspaceConfig \<Rightarrow> bool" where
  "acceptable c \<longleftrightarrow> wc_Name c \<noteq> [] \<and> wc_Kubeconfig c \<noteq> [] \<and> valid_backend (wc_Backend c)"

lemma inherits_iff:
  "inherits flags e c \<longleftrightarrow> is_ok (ParseGroupMatcher (we_APIGroups e)) \<and> c = configure flags e"
  by (cases "ParseGroupMatcher (we_APIGroups e)")
    (auto simp: inherits_def configure_def matcher_of_def entry_config_def given_def override_def split: option.splits)

lemma inherits_all:
  "list_all2 (inherits flags) es cs \<longleftrightarrow>
     list_all (\<lambda>e. is_ok (ParseGroupMatcher (we_APIGroups e))) es \<and> cs = map (configure flags) es"
  by (induction es arbitrary: cs) (auto simp: list_all2_Cons1 inherits_iff)

lemma valid_entries_iff:
  "valid_entries flags es \<and> cs = map (configure flags) es \<longleftrightarrow>
     cs \<noteq> [] \<and> list_all2 (inherits flags) es cs \<and> list_all acceptable cs \<and> distinct (map wc_Name cs) \<and>
     distinct (concat (map (\<lambda>c. Exact (Some (wc_APIGroups c))) cs))"
proof -
  have names: "map wc_Name (map (configure flags) es) = map we_Name es"
    and groups: "map (\<lambda>c. Exact (Some (wc_APIGroups c))) (map (configure flags) es) = map named_groups es"
    by (simp_all add: configure_def entry_config_def named_groups_def)
  have each: "list_all (valid_entry flags) es \<longleftrightarrow>
      list_all (\<lambda>e. is_ok (ParseGroupMatcher (we_APIGroups e))) es \<and> list_all acceptable (map (configure flags) es)"
    by (auto simp: list_all_iff valid_entry_def acceptable_def configure_def entry_config_def)
  show ?thesis
  proof (cases "cs = map (configure flags) es")
    case True
    show ?thesis unfolding True inherits_all valid_entries_def each names groups by (simp add: conj_ac)
  next
    case False
    then show ?thesis unfolding inherits_all by blast
  qed
qed

text \<open>What a file that reads, parses strictly and lists something comes to.\<close>

lemma loaded_iff:
  "loadWorkspaces read_file unmarshal path defaults = Ok configs \<longleftrightarrow>
     (\<exists>raw entries. read_file path = Ok raw \<and> unmarshal raw = Ok entries \<and> valid_entries defaults entries \<and>
        configs = map (configure defaults) entries)"
  by (auto simp: loadWorkspaces_def load_entries_ok valid_entries_def split: sum.splits)

text \<open>
  C23. A workspaces file is accepted exactly when it reads, parses strictly and its entries, of which
  there is at least one, can be turned into acceptable configurations one by one and in order: with the
  entry's name, which is not empty and no other entry's, its kubeconfig, which is not empty, the matcher
  its groups parse to, and each of its five settings as the entry gives it or, where it gives none, as the
  flags do, the four of the backend being ones the flags would have accepted; and when no group is named
  outright twice. Those configurations are then what is loaded.
\<close>

theorem workspaces_file_is_loaded_exactly:
  "loadWorkspaces read_file unmarshal path flags = Ok configs \<longleftrightarrow>
     configs \<noteq> [] \<and>
     (\<exists>raw entries. read_file path = Ok raw \<and> unmarshal raw = Ok entries \<and> list_all2 (inherits flags) entries configs) \<and>
     list_all acceptable configs \<and> distinct (map wc_Name configs) \<and>
     distinct (concat (map (\<lambda>c. Exact (Some (wc_APIGroups c))) configs))"
  unfolding loaded_iff valid_entries_iff by blast

lemma loaded_workspaces:
  assumes "loadWorkspaces read_file unmarshal path defaults = Ok configs"
  shows "configs \<noteq> []" and "distinct (map wc_Name configs)" and "list_all (\<lambda>c. valid_backend (wc_Backend c)) configs"
proof -
  from assms obtain entries where v: "valid_entries defaults entries" "configs = map (configure defaults) entries"
    by (auto simp: loadWorkspaces_def load_entries_ok valid_entries_def split: sum.splits if_splits)
  have names: "map wc_Name configs = map we_Name entries" by (simp add: v(2) configure_def entry_config_def)
  show "distinct (map wc_Name configs)" unfolding names using v(1) by (simp add: valid_entries_def)
  show "configs \<noteq> []" "list_all (\<lambda>c. valid_backend (wc_Backend c)) configs"
    using v by (auto simp: valid_entries_def list_all_iff valid_entry_def)
qed

text \<open>Resolving the workspaces of options that validate cannot fail, with the same file.\<close>

lemma valid_options_resolve:
  assumes "options_Validate read_file unmarshal recommended o1 = []"
  shows "\<exists>configs. options_workspaces read_file unmarshal o1 = Ok configs \<and> configs \<noteq> [] \<and>
    distinct (map wc_Name configs) \<and> list_all (\<lambda>c. valid_backend (wc_Backend c)) configs"
proof -
  have src: "source_errors read_file unmarshal o1 = []" and backend: "valid_backend (op_Backend o1)"
    using assms by (auto simp: options_Validate_def valid_backend_def split: if_splits)
  show ?thesis
  proof (cases "op_WorkspacesFile o1 = []")
    case True
    then show ?thesis using src backend
      by (auto simp: source_errors_def options_workspaces_def workspaceDefaults_def split: sum.splits if_splits)
  next
    case False
    then obtain configs where l: "loadWorkspaces read_file unmarshal (op_WorkspacesFile o1) (workspaceDefaults o1) = Ok configs"
      using src by (auto simp: source_errors_def split: sum.splits if_splits)
    with loaded_workspaces[OF l] False show ?thesis by (simp add: options_workspaces_def)
  qed
qed

lemma configured_names:
  "options_workspaces read_file unmarshal o1 = Ok configs \<Longrightarrow> distinct (map wc_Name configs)"
  by (auto simp: options_workspaces_def split: if_splits sum.splits dest: loaded_workspaces(2))

text \<open>
  Options that validate can be started: with the same file, resolving the workspaces cannot fail
  any more, gives at least one, all named apart, each with a positive timeout and cooldown, a threshold
  of at least one and no negative retries; the review client's rate is positive and its burst no
  smaller; and the leases, when APIServices are registered by an elected leader, are ordered.
\<close>

theorem valid_options_can_be_started:
  assumes "options_Validate read_file unmarshal recommended o1 = []"
  shows "\<exists>configs. options_workspaces read_file unmarshal o1 = Ok configs \<and> configs \<noteq> [] \<and>
    distinct (map wc_Name configs) \<and> list_all (\<lambda>c. valid_backend (wc_Backend c)) configs \<and>
    0 < op_AuthorizationQPS o1 \<and> op_AuthorizationQPS o1 \<le> op_AuthorizationBurst o1 \<and> 0 < op_ResyncPeriod o1 \<and>
    (so_Register (op_APIServices o1) \<and> le_Enabled (op_LeaderElection o1) \<longrightarrow>
       le_RetryPeriod (op_LeaderElection o1) < le_RenewDeadline (op_LeaderElection o1) \<and>
       le_RenewDeadline (op_LeaderElection o1) < le_LeaseDuration (op_LeaderElection o1))"
proof -
  have rates: "0 < op_AuthorizationQPS o1" "op_AuthorizationQPS o1 \<le> op_AuthorizationBurst o1" "0 < op_ResyncPeriod o1"
    and lease: "so_Register (op_APIServices o1) \<Longrightarrow> leader_Validate (op_LeaderElection o1) = []"
    using assms by (auto simp: options_Validate_def split: if_splits)
  with valid_options_resolve[OF assms] show ?thesis by (auto simp: valid_leader_options)
qed

theorem valid_options_can_be_started_witness:
  "\<exists>configs. options_workspaces (\<lambda>_. Err []) (\<lambda>_. Err [])
      ((NewSpillwayServerOptions [])\<lparr>op_APIGroups := [''a.b.c'']\<rparr>) = Ok configs \<and> configs \<noteq> []"
proof -
  let ?o = "(NewSpillwayServerOptions [])\<lparr>op_APIGroups := [''a.b.c'']\<rparr>"
  have "is_ok (ParseGroupMatcher [''a.b.c''])" by code_simp
  then have v: "options_Validate (\<lambda>_. Err []) (\<lambda>_. Err []) [] ?o = []"
    by (auto simp: options_Validate_def source_errors_def NewSpillwayServerOptions_def services_Validate_def is_ok_iff
        second_def minute_def millisecond_def)
  show ?thesis using valid_options_can_be_started[OF v] by blast
qed

end
