(* ===== verification/Authorization.thy ===== *)
theory Authorization
  imports Options
begin

text \<open>
  \<open>pkg/cmd/server/authorization.go\<close>: the authorizer spillway installs in place of the generic
  server's, composed the same way over a review client with a rate of its own. The client
  constructors and the authorizers themselves are Kubernetes' own and are parameters; what is relied
  on of the authorizers is what they document.
\<close>

section \<open>Authorizers\<close>

datatype decision = DecisionDeny | DecisionAllow | DecisionNoOpinion

record authz_request =
  az_User :: user_info
  az_IsResourceRequest :: bool
  az_Path :: string
  az_Verb :: string

text \<open>An authorizer answers over a world, which a review changes. Reasons are left out.\<close>

type_synonym 'w authorizer = "authz_request \<Rightarrow> 'w \<Rightarrow> decision \<times> 'w"

text \<open>The fields of \<open>DelegatingAuthorizationOptions\<close> that are read.\<close>

record ('b, 'f) authorization_options =
  ao_RemoteKubeConfigFile :: string
  ao_RemoteKubeConfigFileOptional :: bool
  ao_AllowCacheTTL :: duration
  ao_DenyCacheTTL :: duration
  ao_AlwaysAllowPaths :: "string list"
  ao_AlwaysAllowGroups :: "string list"
  ao_ClientTimeout :: duration
  ao_WebhookRetryBackoff :: 'b
  ao_CustomRoundTripperFn :: "'f option"

record 'c client_config =
  cc_QPS :: int
  cc_Burst :: int
  cc_Timeout :: duration
  cc_rest :: 'c

record ('c, 'f, 'k) client_libs =
  cl_load :: "string \<Rightarrow> (string, 'c client_config) result"
  cl_InClusterConfig :: "(string, 'c client_config) result"
  cl_Wrap :: "'f \<Rightarrow> 'c \<Rightarrow> 'c"
  cl_NewForConfig :: "'c client_config \<Rightarrow> (string, 'k) result"

record ('k, 'b, 'w) authorizer_libs =
  al_NewPrivilegedGroups :: "string list \<Rightarrow> 'w authorizer"
  al_NewPathAuthorizer :: "string list \<Rightarrow> (string, 'w authorizer) result"
  al_NewDelegating :: "'k \<Rightarrow> duration \<Rightarrow> duration \<Rightarrow> 'b \<Rightarrow> (string, 'w authorizer) result"
  al_NewUnion :: "(string \<times> 'w authorizer) list \<Rightarrow> (string, 'w authorizer) result"

datatype authorization_error =
    BuildingClient string
  | NewClient string
  | BuildingPathAuthorizer string
  | BuildingDelegated string
  | BuildingUnion string

section \<open>The review client\<close>

text \<open>
  \<open>float32\<close> of an integer: its 24 leading bits, rounded to nearest, ties to even. Up to 63 bits this
  never overflows, and the result is an integer again.
\<close>

fun bits :: "nat \<Rightarrow> nat" where
  "bits n = (if n = 0 then 0 else 1 + bits (n div 2))"

declare bits.simps [simp del]

definition round_to :: "nat \<Rightarrow> nat \<Rightarrow> nat" where
  "round_to e n =
     (let q = n div 2 ^ e; r = n mod 2 ^ e
      in (if 2 ^ e < 2 * r \<or> (2 * r = 2 ^ e \<and> odd q) then q + 1 else q) * 2 ^ e)"

definition float32 :: "int \<Rightarrow> int" where
  "float32 n = sgn n * int (round_to (bits (nat \<bar>n\<bar>) - 24) (nat \<bar>n\<bar>))"

definition authorization_config :: "('c, 'f, 'k) client_libs \<Rightarrow> ('b, 'f) authorization_options \<Rightarrow>
    (authorization_error, 'c client_config option) result" where
  "authorization_config libs ao =
     (if ao_RemoteKubeConfigFile ao \<noteq> [] then
        (case cl_load libs (ao_RemoteKubeConfigFile ao) of
           Err e \<Rightarrow> Err (BuildingClient e) | Ok c \<Rightarrow> Ok (Some c))
      else (case cl_InClusterConfig libs of
              Err e \<Rightarrow> if ao_RemoteKubeConfigFileOptional ao then Ok None else Err (BuildingClient e)
            | Ok c \<Rightarrow> Ok (Some c)))"

definition tuned :: "('c, 'f, 'k) client_libs \<Rightarrow> SpillwayServerOptions \<Rightarrow> ('b, 'f) authorization_options \<Rightarrow>
    'c client_config \<Rightarrow> 'c client_config" where
  "tuned libs o1 ao config =
     (let config1 = config\<lparr>cc_QPS := float32 (op_AuthorizationQPS o1), cc_Burst := op_AuthorizationBurst o1,
                           cc_Timeout := ao_ClientTimeout ao\<rparr>
      in (case ao_CustomRoundTripperFn ao of
            None \<Rightarrow> config1 | Some f \<Rightarrow> config1\<lparr>cc_rest := cl_Wrap libs f (cc_rest config1)\<rparr>))"

definition authorizationClient :: "('c, 'f, 'k) client_libs \<Rightarrow> SpillwayServerOptions \<Rightarrow>
    ('b, 'f) authorization_options \<Rightarrow> (authorization_error, 'k option) result" where
  "authorizationClient libs o1 ao =
     (case authorization_config libs ao of
        Err e \<Rightarrow> Err e
      | Ok None \<Rightarrow> Ok None
      | Ok (Some config) \<Rightarrow>
          (case cl_NewForConfig libs (tuned libs o1 ao config) of
             Err e \<Rightarrow> Err (NewClient e) | Ok k \<Rightarrow> Ok (Some k)))"

section \<open>The union\<close>

definition buildAuthorizer :: "('k, 'b, 'w) authorizer_libs \<Rightarrow> ('b, 'f) authorization_options \<Rightarrow> 'k \<Rightarrow>
    (authorization_error, 'w authorizer) result" where
  "buildAuthorizer al ao client =
     (let by_group = (if ao_AlwaysAllowGroups ao = [] then []
                      else [(''kubernetes.io/always-allow-groups'', al_NewPrivilegedGroups al (ao_AlwaysAllowGroups ao))])
      in (case (if ao_AlwaysAllowPaths ao = [] then Ok []
                else (case al_NewPathAuthorizer al (ao_AlwaysAllowPaths ao) of
                        Err e \<Rightarrow> Err (BuildingPathAuthorizer e)
                      | Ok allowed \<Rightarrow> Ok [(''kubernetes.io/always-allow-paths'', allowed)])) of
            Err e \<Rightarrow> Err e
          | Ok by_path \<Rightarrow>
              (case al_NewDelegating al client (ao_AllowCacheTTL ao) (ao_DenyCacheTTL ao) (ao_WebhookRetryBackoff ao) of
                 Err e \<Rightarrow> Err (BuildingDelegated e)
               | Ok delegated \<Rightarrow>
                   (case al_NewUnion al (by_group @ by_path @ [(''kubernetes.io/webhook'', delegated)]) of
                      Err e \<Rightarrow> Err (BuildingUnion e) | Ok built \<Rightarrow> Ok built))))"

text \<open>What is installed, given what the recommended options had installed.\<close>

definition applyAuthorization :: "('c, 'f, 'k) client_libs \<Rightarrow> ('k, 'b, 'w) authorizer_libs \<Rightarrow> SpillwayServerOptions \<Rightarrow>
    ('b, 'f) authorization_options option \<Rightarrow> 'w authorizer \<Rightarrow> (authorization_error, 'w authorizer) result" where
  "applyAuthorization libs al o1 options installed =
     (case options of
        None \<Rightarrow> Ok installed
      | Some ao \<Rightarrow>
          (case authorizationClient libs o1 ao of
             Err e \<Rightarrow> Err e
           | Ok None \<Rightarrow> Ok installed
           | Ok (Some client) \<Rightarrow> buildAuthorizer al ao client))"

text \<open>The per group health endpoints are exempt by default (\<open>NewSpillwayServerOptions\<close>).\<close>

definition GroupHealthPath :: string where
  "GroupHealthPath = ''/healthz/groups''"

definition exempt_health :: "('b, 'f) authorization_options \<Rightarrow> ('b, 'f) authorization_options" where
  "exempt_health ao = ao\<lparr>ao_AlwaysAllowPaths := ao_AlwaysAllowPaths ao @ [GroupHealthPath @ ''*'']\<rparr>"

section \<open>What the authorizers document\<close>

text \<open>A group the caller is in; a path listed outright, or a prefix of one that ends in a star; no slash needed.\<close>

definition privileged :: "string list \<Rightarrow> authz_request \<Rightarrow> bool" where
  "privileged gs r = list_ex (\<lambda>g. g \<in> set gs) (us_Groups (az_User r))"

definition path_matches :: "string \<Rightarrow> string \<Rightarrow> bool" where
  "path_matches pattern path =
     (let x = trim_prefix pattern [slash]; p = trim_prefix path [slash]
      in if has_suffix x ''*'' then has_prefix p (butlast x) else p = x)"

definition exempt_path :: "string list \<Rightarrow> authz_request \<Rightarrow> bool" where
  "exempt_path paths r = (\<not> az_IsResourceRequest r \<and> list_ex (\<lambda>x. path_matches x (az_Path r)) paths)"

text \<open>A union asks its members in order until one of them has an opinion.\<close>

fun ask_in_order :: "(string \<times> 'w authorizer) list \<Rightarrow> 'w authorizer" where
  "ask_in_order [] r w = (DecisionNoOpinion, w)"
| "ask_in_order ((name, a) # as) r w =
     (case a r w of (d, w') \<Rightarrow> if d = DecisionNoOpinion then ask_in_order as r w' else (d, w'))"

definition authorizer_laws :: "('k, 'b, 'w) authorizer_libs \<Rightarrow> bool" where
  "authorizer_laws al \<longleftrightarrow>
     (\<forall>gs r w. al_NewPrivilegedGroups al gs r w =
        (if privileged gs r then DecisionAllow else DecisionNoOpinion, w)) \<and>
     (\<forall>ps a r w. al_NewPathAuthorizer al ps = Ok a \<longrightarrow>
        a r w = (if exempt_path ps r then DecisionAllow else DecisionNoOpinion, w)) \<and>
     (\<forall>members a. al_NewUnion al members = Ok a \<longrightarrow> a = ask_in_order members)"

section \<open>Rates\<close>

lemma bits_le: "n < 2 ^ k \<Longrightarrow> bits n \<le> k"
proof (induction n arbitrary: k rule: bits.induct)
  case (1 n)
  show ?case
  proof (cases "n = 0")
    case True
    then show ?thesis by (simp add: bits.simps)
  next
    case False
    with 1(2) have "k \<noteq> 0" by (metis less_one power_0)
    then obtain j where j: "k = Suc j" by (cases k) auto
    with 1(2) have "n div 2 < 2 ^ j" by simp
    from 1(1)[OF False this] j False show ?thesis by (subst bits.simps) simp
  qed
qed

lemma round_to_0 [simp]: "round_to 0 n = n"
  by (simp add: round_to_def Let_def)

lemma float32_exact: "\<bar>n\<bar> < 2 ^ 24 \<Longrightarrow> float32 n = n"
proof -
  assume "\<bar>n\<bar> < 2 ^ 24"
  then have "nat \<bar>n\<bar> < 2 ^ 24" by simp
  from bits_le[OF this] show ?thesis by (simp add: float32_def sgn_mult_abs)
qed

text \<open>So the default rate is the one asked for.\<close>

lemma default_rate_is_exact: "float32 (op_AuthorizationQPS (NewSpillwayServerOptions ns)) = 800"
  by (simp add: NewSpillwayServerOptions_def float32_exact)

section \<open>Exempt requests\<close>

lemma buildAuthorizer_built:
  assumes "authorizer_laws al" and "buildAuthorizer al ao client = Ok built"
  obtains delegated where
    "al_NewDelegating al client (ao_AllowCacheTTL ao) (ao_DenyCacheTTL ao) (ao_WebhookRetryBackoff ao) = Ok delegated"
    "\<And>r w. built r w =
       (if privileged (ao_AlwaysAllowGroups ao) r \<or> exempt_path (ao_AlwaysAllowPaths ao) r then (DecisionAllow, w)
        else delegated r w)"
proof -
  let ?gs = "ao_AlwaysAllowGroups ao" and ?ps = "ao_AlwaysAllowPaths ao"
  let ?by_group = "if ?gs = [] then [] else [(''kubernetes.io/always-allow-groups'', al_NewPrivilegedGroups al ?gs)]"
  obtain by_path delegated where
    p: "(if ?ps = [] then Ok [] else (case al_NewPathAuthorizer al ?ps of
          Err e \<Rightarrow> Err (BuildingPathAuthorizer e)
        | Ok allowed \<Rightarrow> Ok [(''kubernetes.io/always-allow-paths'', allowed)])) = Ok by_path"
    and d: "al_NewDelegating al client (ao_AllowCacheTTL ao) (ao_DenyCacheTTL ao) (ao_WebhookRetryBackoff ao) = Ok delegated"
    and u: "al_NewUnion al (?by_group @ by_path @ [(''kubernetes.io/webhook'', delegated)]) = Ok built"
    using assms(2) unfolding buildAuthorizer_def Let_def
    by (auto split: sum.splits if_splits)
  have union: "built = ask_in_order (?by_group @ by_path @ [(''kubernetes.io/webhook'', delegated)])"
    using assms(1) u unfolding authorizer_laws_def by blast
  have rest: "ask_in_order (by_path @ [(''kubernetes.io/webhook'', delegated)]) r w =
      (if exempt_path ?ps r then (DecisionAllow, w) else delegated r w)" for r w
  proof (cases "?ps = []")
    case True
    with p show ?thesis by (simp add: exempt_path_def split: prod.split)
  next
    case False
    with p obtain allowed where a: "al_NewPathAuthorizer al ?ps = Ok allowed"
      "by_path = [(''kubernetes.io/always-allow-paths'', allowed)]" by (auto split: sum.splits)
    have "allowed r w = (if exempt_path ?ps r then DecisionAllow else DecisionNoOpinion, w)"
      using assms(1) a(1) unfolding authorizer_laws_def by blast
    with a(2) show ?thesis by (simp split: prod.split)
  qed
  have "built r w = (if privileged ?gs r \<or> exempt_path ?ps r then (DecisionAllow, w) else delegated r w)" for r w
  proof (cases "?gs = []")
    case True
    then show ?thesis using rest[of r w] by (simp add: union privileged_def list_ex_iff)
  next
    case False
    have "al_NewPrivilegedGroups al ?gs r w = (if privileged ?gs r then DecisionAllow else DecisionNoOpinion, w)"
      using assms(1) unfolding authorizer_laws_def by blast
    with False show ?thesis using rest[of r w] by (simp add: union)
  qed
  with d that show thesis by blast
qed

text \<open>
  C22. The authorizer that is installed answers a request of a privileged group, or for an exempt path,
  at once and without a review, and hands every other to the delegated authorizer as it is; and the
  client the reviews are sent with has the rate and burst of the options. Only without a cluster to ask,
  and only when that was allowed, does what was installed before stay.
\<close>

theorem exempt_requests_cost_no_review:
  assumes "authorizer_laws al" and "applyAuthorization libs al o1 (Some ao) installed = Ok built"
  shows "(built = installed \<and> ao_RemoteKubeConfigFile ao = [] \<and> ao_RemoteKubeConfigFileOptional ao \<and>
      (\<exists>e. cl_InClusterConfig libs = Err e)) \<or>
    (\<exists>config client delegated. cl_NewForConfig libs config = Ok client \<and>
       cc_QPS config = float32 (op_AuthorizationQPS o1) \<and> cc_Burst config = op_AuthorizationBurst o1 \<and>
       cc_Timeout config = ao_ClientTimeout ao \<and>
       al_NewDelegating al client (ao_AllowCacheTTL ao) (ao_DenyCacheTTL ao) (ao_WebhookRetryBackoff ao) = Ok delegated \<and>
       (\<forall>r w. built r w =
          (if privileged (ao_AlwaysAllowGroups ao) r \<or> exempt_path (ao_AlwaysAllowPaths ao) r then (DecisionAllow, w)
           else delegated r w)))"
proof -
  from assms(2) obtain answer where a: "authorizationClient libs o1 ao = Ok answer"
    and c: "answer = None \<and> built = installed \<or> (\<exists>client. answer = Some client \<and> buildAuthorizer al ao client = Ok built)"
    unfolding applyAuthorization_def by (auto split: sum.splits option.splits)
  show ?thesis
  proof (cases answer)
    case None
    with a c show ?thesis
      unfolding authorizationClient_def authorization_config_def
      by (auto split: sum.splits option.splits if_splits)
  next
    case (Some client)
    with a obtain config where n: "cl_NewForConfig libs (tuned libs o1 ao config) = Ok client"
      unfolding authorizationClient_def by (auto split: sum.splits option.splits)
    from c Some have "buildAuthorizer al ao client = Ok built" by simp
    from buildAuthorizer_built[OF assms(1) this] obtain delegated where
      "al_NewDelegating al client (ao_AllowCacheTTL ao) (ao_DenyCacheTTL ao) (ao_WebhookRetryBackoff ao) = Ok delegated"
      "\<forall>r w. built r w =
         (if privileged (ao_AlwaysAllowGroups ao) r \<or> exempt_path (ao_AlwaysAllowPaths ao) r then (DecisionAllow, w)
          else delegated r w)" by metis
    moreover have "cc_QPS (tuned libs o1 ao config) = float32 (op_AuthorizationQPS o1) \<and>
        cc_Burst (tuned libs o1 ao config) = op_AuthorizationBurst o1 \<and>
        cc_Timeout (tuned libs o1 ao config) = ao_ClientTimeout ao"
      by (simp add: tuned_def Let_def split: option.split)
    ultimately show ?thesis using n by blast
  qed
qed

section \<open>A probe of the group health, and a request that is reviewed\<close>

text \<open>A world that counts reviews, with a delegated authorizer that denies.\<close>

definition counting_authorizers :: "(unit, unit, nat) authorizer_libs" where
  "counting_authorizers =
     \<lparr>al_NewPrivilegedGroups = (\<lambda>gs r w. (if privileged gs r then DecisionAllow else DecisionNoOpinion, w)),
      al_NewPathAuthorizer = (\<lambda>ps. Ok (\<lambda>r w. (if exempt_path ps r then DecisionAllow else DecisionNoOpinion, w))),
      al_NewDelegating = (\<lambda>_ _ _ _. Ok (\<lambda>r w. (DecisionDeny, w + 1))),
      al_NewUnion = (\<lambda>members. Ok (ask_in_order members))\<rparr>"

definition sample_clients :: "(unit, unit, unit) client_libs" where
  "sample_clients =
     \<lparr>cl_load = (\<lambda>_. Err []), cl_InClusterConfig = Ok \<lparr>cc_QPS = 5, cc_Burst = 10, cc_Timeout = 0, cc_rest = ()\<rparr>,
      cl_Wrap = (\<lambda>_ x. x), cl_NewForConfig = (\<lambda>_. Ok ())\<rparr>"

definition sample_authorization :: "(unit, unit) authorization_options" where
  "sample_authorization = exempt_health
     \<lparr>ao_RemoteKubeConfigFile = [], ao_RemoteKubeConfigFileOptional = False, ao_AllowCacheTTL = 0,
      ao_DenyCacheTTL = 0, ao_AlwaysAllowPaths = [], ao_AlwaysAllowGroups = [''system:masters''],
      ao_ClientTimeout = 0, ao_WebhookRetryBackoff = (), ao_CustomRoundTripperFn = None\<rparr>"

definition sample_review :: "bool \<Rightarrow> string \<Rightarrow> authz_request" where
  "sample_review is_resource path =
     \<lparr>az_User = \<lparr>us_Name = ''anonymous'', us_UID = [], us_Groups = [], us_Extra = []\<rparr>,
      az_IsResourceRequest = is_resource, az_Path = path, az_Verb = ''get''\<rparr>"

theorem exempt_requests_cost_no_review_witness:
  "\<exists>built. applyAuthorization sample_clients counting_authorizers (NewSpillwayServerOptions [])
       (Some sample_authorization) (\<lambda>_ w. (DecisionDeny, w)) = Ok built \<and>
     built (sample_review False ''/healthz/groups/a.b.c'') 0 = (DecisionAllow, 0) \<and>
     built (sample_review True ''/apis/a.b.c/v1/widgets/x'') 0 = (DecisionDeny, 1)"
proof -
  let ?o = "NewSpillwayServerOptions []" and ?in = "\<lambda>_ w. (DecisionDeny, w)"
  have laws: "authorizer_laws counting_authorizers" by (simp add: authorizer_laws_def counting_authorizers_def)
  obtain built where b: "applyAuthorization sample_clients counting_authorizers ?o (Some sample_authorization) ?in = Ok built"
    by (simp add: applyAuthorization_def authorizationClient_def authorization_config_def sample_clients_def
        sample_authorization_def exempt_health_def buildAuthorizer_def counting_authorizers_def Let_def)
  have ao: "ao_AlwaysAllowGroups sample_authorization = [''system:masters'']"
    "ao_AlwaysAllowPaths sample_authorization = [''/healthz/groups*'']"
    by (simp_all add: sample_authorization_def exempt_health_def GroupHealthPath_def)
  from exempt_requests_cost_no_review[OF laws b] have all: "\<forall>r w. built r w =
      (if privileged [''system:masters''] r \<or> exempt_path [''/healthz/groups*''] r then (DecisionAllow, w)
       else (DecisionDeny, w + 1))"
    unfolding ao by (auto simp: sample_clients_def counting_authorizers_def)
  have probe: "exempt_path [''/healthz/groups*''] (sample_review False ''/healthz/groups/a.b.c'')" by code_simp
  have other: "privileged [''system:masters''] (sample_review True ''/apis/a.b.c/v1/widgets/x'') = False"
    "exempt_path [''/healthz/groups*''] (sample_review True ''/apis/a.b.c/v1/widgets/x'') = False"
    by (simp_all add: privileged_def exempt_path_def sample_review_def)
  show ?thesis using b all probe other by auto
qed

end
