(* ===== verification/Server.thy ===== *)
theory Server
  imports Discovery_Handler OpenAPI Authorization
begin

text \<open>
  \<open>pkg/apiserver/apiserver.go\<close> and \<open>Config\<close> of \<open>pkg/cmd/server/options.go\<close>: putting the components
  together. What a workspace is built of, what runs after a change, what the post start hook does, the
  health checks; and, as a step relation, everything that can happen to a running server. The clients,
  files and generic server underneath are the functions of \<open>workspace_libs\<close> and \<open>server_libs\<close>, over an
  outside world \<open>'x\<close>; \<open>'d\<close> is the state of the generic server's discovery documents.
\<close>

section \<open>From options to a configuration\<close>

text \<open>\<open>version.go\<close>: what the aggregation layer is told, a fallback when a build names no version.\<close>

definition APIVersion :: "(string \<Rightarrow> (string, string) result) \<Rightarrow> string \<Rightarrow> string" where
  "APIVersion parse_semantic version =
     (case parse_semantic version of Err _ \<Rightarrow> ''0.0.0'' | Ok parsed \<Rightarrow> parsed)"

record ('k, 'w) server_config =
  vc_EffectiveVersion :: string
  vc_MaxRequestsInFlight :: int
  vc_MaxMutatingRequestsInFlight :: int
  vc_Authorizer :: "'w authorizer"
  vc_ClientConfig :: "'k option"

datatype config_error =
    SelfSigned string
  | ResolvingWorkspaces option_error
  | ApplyingOptions string
  | ApplyingAuthorization authorization_error

text \<open>
  \<open>self_signed\<close> and \<open>apply_to\<close> are the recommended options' own; \<open>fresh_config\<close> is the configuration
  \<open>NewRecommendedConfig\<close> gives.
\<close>

definition options_Config :: "(string, unit) result \<Rightarrow> (string \<Rightarrow> (string, string) result) \<Rightarrow>
    (string \<Rightarrow> (string, WorkspaceEntry list) result) \<Rightarrow> string \<Rightarrow> ('k, 'w) server_config \<Rightarrow>
    (('k, 'w) server_config \<Rightarrow> (string, ('k, 'w) server_config) result) \<Rightarrow>
    ('c, 'f, 'l) client_libs \<Rightarrow> ('l, 'b, 'w) authorizer_libs \<Rightarrow> ('b, 'f) authorization_options option \<Rightarrow>
    SpillwayServerOptions \<Rightarrow> (config_error, ('k, 'w) server_config \<times> 'k ExtraConfig) result" where
  "options_Config self_signed read_file unmarshal api_version fresh_config apply_to libs al auth o1 =
     (case self_signed of Err e \<Rightarrow> Err (SelfSigned e)
      | Ok _ \<Rightarrow>
     (case options_workspaces read_file unmarshal o1 of Err e \<Rightarrow> Err (ResolvingWorkspaces e)
      | Ok workspaces \<Rightarrow>
     (case apply_to (fresh_config\<lparr>vc_EffectiveVersion := api_version\<rparr>) of Err e \<Rightarrow> Err (ApplyingOptions e)
      | Ok config \<Rightarrow>
          let config1 = config\<lparr>vc_MaxRequestsInFlight := op_MaxRequestsInFlight o1,
                               vc_MaxMutatingRequestsInFlight := op_MaxMutatingRequestsInFlight o1\<rparr>
          in (case applyAuthorization libs al o1 auth (vc_Authorizer config1) of
                Err e \<Rightarrow> Err (ApplyingAuthorization e)
              | Ok authorizer \<Rightarrow>
                  Ok (config1\<lparr>vc_Authorizer := authorizer\<rparr>,
                      extraConfig unmarshal o1 workspaces (vc_ClientConfig config1))))))"

text \<open>What the configuration carries on.\<close>

lemma config_carries:
  assumes "options_Config self_signed read_file unmarshal v fresh0 apply_to libs al auth o1 = Ok (sc, ex)"
  shows "\<exists>workspaces cluster. options_workspaces read_file unmarshal o1 = Ok workspaces \<and>
      ex = extraConfig unmarshal o1 workspaces cluster"
    and "vc_MaxRequestsInFlight sc = op_MaxRequestsInFlight o1 \<and>
      vc_MaxMutatingRequestsInFlight sc = op_MaxMutatingRequestsInFlight o1"
    and "\<exists>installed. applyAuthorization libs al o1 auth installed = Ok (vc_Authorizer sc)"
    and "ex_ClusterClientConfig ex = vc_ClientConfig sc"
  using assms by (auto simp: options_Config_def extraConfig_def Let_def split: sum.splits)

lemma config_unresolved:
  assumes "options_Config self_signed read_file unmarshal v fresh0 apply_to libs al auth o1 = Err (ResolvingWorkspaces e)"
  shows "options_workspaces read_file unmarshal o1 = Err e"
  using assms by (auto simp: options_Config_def Let_def split: sum.splits)

section \<open>Building a workspace\<close>

text \<open>
  What the proxy of a workspace works on while it handles a request: the workspace's own cache and
  credentials, which it reads, its breaker, its conversion policy, the metrics, and everything outside.
\<close>

record 'x workspace_world =
  xw_cache :: ResourceCache
  xw_credentials :: "('x transport, string) credentialSource"
  xw_breaker :: breaker
  xw_conversion :: conversionPolicy
  xw_metrics :: metrics
  xw_outside :: 'x

text \<open>
  What is put together for a workspace: the proxy, its transport, breaker and credentials, the namespace
  mirror and the conversion policy, and the functions the last two ask with.
\<close>

record 'x workspace_proxy =
  wp_proxy :: "'x workspace_world resourceProxy"
  wp_transport :: backendTransport
  wp_breaker :: breaker
  wp_credentials :: "('x transport, string) credentialSource"
  wp_namespaces :: "(namespaceMirror \<times> 'x workspace_world namespace_backend) option"
  wp_conversion :: "conversionPolicy \<times> ('x workspace_world, backend_error) policy_source"

text \<open>
  The admission chain is the workload cluster's: it works on everything outside, and changes nothing of
  the workspace itself. While it runs it may ask the convertor it was handed, which does. So a half of it
  is a run that says its answer, or asks for a conversion and goes on with the answer and with whatever
  the world outside has become.
\<close>

datatype ('x, 'r) admission_run =
    Says 'r 'x
  | Asks any_object any_object 'x "(convert_error, k8s_object) result \<Rightarrow> 'x \<Rightarrow> ('x, 'r) admission_run"

record 'x cluster_chain =
  cu_mutates :: bool
  cu_validates :: bool
  cu_Handles :: "operation \<Rightarrow> bool"
  cu_Admit :: "attributes \<Rightarrow> 'x \<Rightarrow> ('x, string option \<times> any_object option) admission_run"
  cu_Validate :: "attributes \<Rightarrow> 'x \<Rightarrow> ('x, string option) admission_run"

record ('c, 'x) workspace_libs =
  wl_credentials :: "('x, 'c client_config, 'c, 'x transport, string) credential_env"
  wl_NewDiscoveryClient :: "'c client_config \<Rightarrow> (string, unit) result"
  wl_ParseURL :: "string \<Rightarrow> (string, parsed_url) result"
  wl_new_request_ok :: "url \<Rightarrow> bool"
  wl_ctx_err :: "'x \<Rightarrow> transport_error option"
  wl_wait :: "'x \<Rightarrow> duration \<Rightarrow> bool \<times> 'x"
  wl_now :: "'x \<Rightarrow> time"
  wl_admit :: "'x cluster_chain option"
  wl_unmarshal_list :: "string \<Rightarrow> (string, crd list) result"
  wl_informers :: admission_informers

datatype workspace_build_error =
    WorkspaceConfigFailed string rest_config_error
  | DiscoveryClientFailed string string
  | WorkspaceProxyFailed string proxy_error

definition clientQPS :: int where "clientQPS = 50"
definition clientBurst :: int where "clientBurst = 100"

text \<open>
  The transport of a workspace, over which its proxy and everything else asks it: retries, the breaker
  and the metrics around whatever credentials are in force when a request is made.
\<close>

definition workspace_env :: "('c, 'x) workspace_libs \<Rightarrow> ('x transport, string) credentialSource \<Rightarrow> 'x env" where
  "workspace_env libs credentials =
     \<lparr>env_base = cred_RoundTrip (\<lambda>transport. transport) credentials, env_ctx_err = wl_ctx_err libs,
      env_wait = wl_wait libs, env_now = wl_now libs\<rparr>"

definition workspace_transport :: "('c, 'x) workspace_libs \<Rightarrow> backendTransport \<Rightarrow> 'x workspace_world transport" where
  "workspace_transport libs t w req =
     (case RoundTrip (workspace_env libs (xw_credentials w)) t req ((xw_breaker w, xw_metrics w), xw_outside w) of
        (answer, ((b, mx), x)) \<Rightarrow> (answer, w\<lparr>xw_breaker := b, xw_metrics := mx, xw_outside := x\<rparr>))"

text \<open>The cluster's chain over a workspace: its questions are put to the convertor of the workspace's gate.\<close>

primrec play :: "(any_object \<Rightarrow> any_object \<Rightarrow> 'x workspace_world \<Rightarrow> (convert_error, k8s_object) result \<times> 'x workspace_world) \<Rightarrow>
    ('x, 'r) admission_run \<Rightarrow> 'x workspace_world \<Rightarrow> 'r \<times> 'x workspace_world" where
  "play convert (Says r x) w = (r, w\<lparr>xw_outside := x\<rparr>)"
| "play convert (Asks inp out x onward) w =
     (case convert inp out (w\<lparr>xw_outside := x\<rparr>) of
        (answer, w') \<Rightarrow> play convert (onward answer (xw_outside w')) w')"

definition outside_chain :: "'x cluster_chain \<Rightarrow> 'x workspace_world admission_chain" where
  "outside_chain c =
     \<lparr>ch_mutates = cu_mutates c, ch_validates = cu_validates c, ch_Handles = cu_Handles c,
      ch_Admit = (\<lambda>i attrs w. play (oi_Convertor i) (cu_Admit c attrs (xw_outside w)) w),
      ch_Validate = (\<lambda>i attrs w. play (oi_Convertor i) (cu_Validate c attrs (xw_outside w)) w)\<rparr>"

primrec runs_quietly :: "('x \<Rightarrow> 'l) \<Rightarrow> ('x, 'r) admission_run \<Rightarrow> 'x \<Rightarrow> bool" where
  "runs_quietly seen (Says r x') x = (seen x' = seen x)"
| "runs_quietly seen (Asks inp out x' onward) x =
     (seen x' = seen x \<and> (\<forall>answer x2. runs_quietly seen (onward answer x2) x2))"

lemma play_sends:
  assumes "\<And>inp out w. sends P (\<lambda>w. log (xw_outside w)) w (snd (convert inp out w))"
  shows "runs_quietly log r (xw_outside w) \<Longrightarrow> sends P (\<lambda>w. log (xw_outside w)) w (snd (play convert r w))"
proof (induction r arbitrary: w)
  case (Says r x)
  then show ?case by (simp add: sends_none)
next
  case (Asks inp out x onward)
  let ?w = "w\<lparr>xw_outside := x\<rparr>"
  obtain answer w' where c: "convert inp out ?w = (answer, w')" by (metis surj_pair)
  have "sends P (\<lambda>w. log (xw_outside w)) w ?w" using Asks.prems by (simp add: sends_none)
  moreover have "sends P (\<lambda>w. log (xw_outside w)) ?w w'" using assms[of ?w inp out] by (simp add: c)
  moreover have "sends P (\<lambda>w. log (xw_outside w)) w' (snd (play convert (onward answer (xw_outside w')) w'))"
    by (rule Asks.IH) (use Asks.prems in auto)
  ultimately show ?case by (simp add: c) (blast intro: sends_trans)
qed

text \<open>A chain that sends nothing of what \<open>log\<close> records sends only what the convertor does.\<close>

lemma outside_chain_asks:
  assumes "\<And>attrs x. runs_quietly log (cu_Admit c attrs x) x" and "\<And>attrs x. runs_quietly log (cu_Validate c attrs x) x"
  shows "asks_only_the_convertor (outside_chain c) (\<lambda>w. log (xw_outside w))"
  unfolding asks_only_the_convertor_def
  by (intro allI impI conjI) (simp_all add: outside_chain_def play_sends assms)

text \<open>A list of definitions, as \<open>json.Unmarshal\<close> reads it; the items are the answer.\<close>

definition decodeCRDList :: "(string \<Rightarrow> (string, crd list) result) \<Rightarrow> string \<Rightarrow> (string, crd list) result" where
  "decodeCRDList unmarshal raw =
     (case unmarshal raw of
        Err e \<Rightarrow> Err (''parsing the CustomResourceDefinition list: '' @ e)
      | Ok items \<Rightarrow> Ok items)"

text \<open>
  The conversion policy of a workspace, as its gate points to it: kept in the workspace, its definitions
  fetched over the same side channel as everything else.
\<close>

definition conversion_of :: "('c, 'x) workspace_libs \<Rightarrow> backendTransport \<Rightarrow> backendClient \<Rightarrow>
    ('x workspace_world, backend_error) policy_source" where
  "conversion_of libs transport backend =
     \<lparr>ps_definitions = Some (fetchSpec (wl_new_request_ok libs) (workspace_transport libs transport) backend crdPath),
      ps_generation = Some (\<lambda>w. rc_generation (xw_cache w))\<rparr>"

definition policy_pointer :: "('c, 'x) workspace_libs \<Rightarrow> ('x workspace_world, backend_error) policy_source \<Rightarrow>
    'x workspace_world conversion_pointer" where
  "policy_pointer libs conversion =
     \<lparr>cr_decode = decodeCRDList (wl_unmarshal_list libs), cr_source = conversion, cr_policy = xw_conversion,
      cr_put = (\<lambda>p w. w\<lparr>xw_conversion := p\<rparr>)\<rparr>"

text \<open>What \<open>newWorkspace\<close> makes the gate of: the cluster's chain, its own side channel and its own policy.\<close>

definition workspace_gate :: "('c, 'x) workspace_libs \<Rightarrow> backendTransport \<Rightarrow> backendClient \<Rightarrow>
    'x workspace_world admissionGate" where
  "workspace_gate libs transport backend =
     newAdmissionGate (map_option outside_chain (wl_admit libs))
       (Some (client_backend (wl_new_request_ok libs) (workspace_transport libs transport) backend))
       (Some (informer_matcher (wl_informers libs)))
       (Some (policy_pointer libs (conversion_of libs transport backend)))"

definition newWorkspace :: "('c, 'x) workspace_libs \<Rightarrow> bool \<Rightarrow> WorkspaceConfig \<Rightarrow> metrics \<times> 'x \<Rightarrow>
    (workspace_build_error, 'x workspace_proxy workspace) result \<times> (metrics \<times> 'x)" where
  "newWorkspace libs mirror c st =
     (let name = wc_Name c; env = wl_credentials libs in
      case RestConfig (ce_clientcmd env) (wc_Kubeconfig c) (snd st) of
        (Err e, x1) \<Rightarrow> (Err (WorkspaceConfigFailed name e), (fst st, x1))
      | (Ok config, x1) \<Rightarrow>
          let throttled = config\<lparr>cc_QPS := clientQPS, cc_Burst := clientBurst\<rparr> in
          (case wl_NewDiscoveryClient libs throttled of
             Err e \<Rightarrow> (Err (DiscoveryClientFailed name e), (fst st, x1))
           | Ok _ \<Rightarrow>
               let mx = PublishWorkspace name (fst st) in
               (case newResourceProxy (wl_ParseURL libs)
                       (backendRoundTripper env name (wc_Kubeconfig c) config (wc_Backend c))
                       (ce_Host env config) (wc_ImpersonateUsers c) (wc_Backend c) (\<lambda>w. ServedGroups (xw_cache w)) x1 of
                  (Err e, x2) \<Rightarrow> (Err (WorkspaceProxyFailed name e), (mx, x2))
                | (Ok (proxy, (transport, breaker), credentials), x2) \<Rightarrow>
                    let backend = \<lparr>bc_location = rp_location proxy\<rparr>;
                        ok = wl_new_request_ok libs;
                        rt = workspace_transport libs transport
                    in (Ok \<lparr>ws_name = name, ws_fingerprint = [], ws_groups = wc_APIGroups c,
                            ws_cache = NewResourceCache name (wc_APIGroups c),
                            ws_proxy =
                              \<lparr>wp_proxy = proxy\<lparr>rp_admission := Some (workspace_gate libs transport backend)\<rparr>,
                               wp_transport = transport, wp_breaker = breaker, wp_credentials = credentials,
                               wp_namespaces =
                                 (if mirror
                                  then Some (newNamespaceMirror,
                                             \<lparr>nb_fetch = fetch ok rt backend, nb_create = create ok rt backend\<rparr>)
                                  else None),
                               wp_conversion = (emptyPolicy, conversion_of libs transport backend)\<rparr>,
                            ws_backend = backend\<rparr>, (mx, x2)))))"

section \<open>What runs after a change\<close>

record ('d, 'x) server_world =
  sw_published :: "string set"
  sw_documents :: 'd
  sw_registrar :: "apiServiceRegistrar option"
  sw_outside :: 'x

type_synonym 'x server_store = "'x workspace_proxy store"
type_synonym ('d, 'x) server_manager = "('x workspace_proxy, ('d, 'x) server_world) manager"

text \<open>The orders in which ranges over maps happen to run are functions of the set ranged over.\<close>

record ('c, 'k, 'd, 'x) server_libs =
  sl_workspaces :: "('c, 'x) workspace_libs"
  sl_ParseGroupVersion :: "string \<Rightarrow> (string, group_version) result"
  sl_documents :: "'d group_managers"
  sl_discovery :: "'x workspace_proxy workspace \<Rightarrow> 'x discovery_client"
  sl_watch :: "'x workspace_proxy workspace \<Rightarrow> 'x \<Rightarrow> (string, unit) result \<times> 'x"
  sl_aggregator :: "'x aggregator"
  sl_read_file :: "'x \<Rightarrow> string \<Rightarrow> (string, string) result"
  sl_services_client :: "'k \<Rightarrow> (string, unit) result"
  sl_discovery_client :: "'k \<Rightarrow> (string, unit) result"
  sl_lease_client :: "'k option \<Rightarrow> (string, unit) result"
  sl_hostname :: "(string, string) result"
  sl_elector :: "(string, unit) result"
  sl_group_order :: "string set \<Rightarrow> string list"
  sl_version_order :: "group_version set \<Rightarrow> group_version list"
  sl_name_order :: "string set \<Rightarrow> string list"
  sl_show_build :: "workspace_build_error \<Rightarrow> string"
  sl_show_file :: "workspaces_error \<Rightarrow> string"

text \<open>\<open>handler.publish\<close> over the router.\<close>

definition publish_view :: "('c, 'k, 'd, 'x) server_libs \<Rightarrow> 'x server_store \<Rightarrow>
    router \<times> metrics \<times> ('d, 'x) server_world \<Rightarrow> router \<times> metrics \<times> ('d, 'x) server_world" where
  "publish_view libs store1 st =
     (case st of (r, mx, w) \<Rightarrow>
        (case router_Snapshot store1 r of (snap, r') \<Rightarrow>
        (case publish (sl_ParseGroupVersion libs) (sl_documents libs) snap
                (sl_group_order libs (sw_published w - groupNames snap)) (sl_group_order libs (groupNames snap))
                (sw_published w, sw_documents w) of
           (published, documents) \<Rightarrow>
             (r', mx, w\<lparr>sw_published := published, sw_documents := documents\<rparr>))))"

text \<open>
  \<open>registrar.sync\<close> over the router, when APIServices are registered; its error is logged. The router
  was read a moment ago, so reading it again finds the same merged view.
\<close>

definition sync_view :: "('c, 'k, 'd, 'x) server_libs \<Rightarrow> 'x server_store \<Rightarrow>
    router \<times> metrics \<times> ('d, 'x) server_world \<Rightarrow> router \<times> metrics \<times> ('d, 'x) server_world" where
  "sync_view libs store1 st =
     (case st of (r, mx, w) \<Rightarrow>
        (case sw_registrar w of
           None \<Rightarrow> (r, mx, w)
         | Some rg \<Rightarrow>
             let snap = fst (router_Snapshot store1 r);
                 versions = sl_version_order libs (dom (sn_Resources snap));
                 src = \<lparr>sc_Snapshot = snap, sc_HasSynced = router_HasSynced store1 r\<rparr>
             in (case sync_services (sl_read_file libs (sw_outside w)) (sl_aggregator libs) src versions
                        (sl_name_order libs (service_name ` set versions)) rg (mx, sw_outside w) of
                   (_, rg', (mx', x')) \<Rightarrow> (r, mx', w\<lparr>sw_registrar := Some rg', sw_outside := x'\<rparr>))))"

definition onChange :: "('c, 'k, 'd, 'x) server_libs \<Rightarrow> 'x server_store \<Rightarrow>
    router \<times> metrics \<times> ('d, 'x) server_world \<Rightarrow> router \<times> metrics \<times> ('d, 'x) server_world" where
  "onChange libs store1 st = sync_view libs store1 (publish_view libs store1 st)"

section \<open>The manager's environment\<close>

definition outside_client :: "'x discovery_client \<Rightarrow> ('d, 'x) server_world discovery_client" where
  "outside_client client =
     \<lparr>dc_ServerGroups = (\<lambda>w. case dc_ServerGroups client (sw_outside w) of (r, x) \<Rightarrow> (r, w\<lparr>sw_outside := x\<rparr>)),
      dc_ServerResources = (\<lambda>gv w. case dc_ServerResources client gv (sw_outside w) of (r, x) \<Rightarrow> (r, w\<lparr>sw_outside := x\<rparr>))\<rparr>"

definition server_env :: "('c, 'k, 'd, 'x) server_libs \<Rightarrow> 'k ExtraConfig \<Rightarrow>
    ('x workspace_proxy, ('d, 'x) server_world) manager_env" where
  "server_env libs ex =
     \<lparr>me_build = (\<lambda>c st.
        (case newWorkspace (sl_workspaces libs) (ex_MirrorNamespaces ex) c (fst st, sw_outside (snd st)) of
           (r, (mx, x)) \<Rightarrow>
             ((case r of Err e \<Rightarrow> Err (sl_show_build libs e) | Ok built \<Rightarrow> Ok built),
              (mx, (snd st)\<lparr>sw_outside := x\<rparr>)))),
      me_reload = map_option (\<lambda>load w.
        ((case load (sl_read_file libs (sw_outside w)) of
            Err e \<Rightarrow> Err (sl_show_file libs e) | Ok configs \<Rightarrow> Ok configs), w)) (ex_ReloadWorkspaces ex),
      me_watch = (\<lambda>ws w. case sl_watch libs ws (sw_outside w) of (r, x) \<Rightarrow> (r, w\<lparr>sw_outside := x\<rparr>)),
      me_onChange = Some (onChange libs),
      me_discovery = (\<lambda>ws. outside_client (sl_discovery libs ws)),
      me_ParseGroupVersion = sl_ParseGroupVersion libs,
      me_now = (\<lambda>w. wl_now (sl_workspaces libs) (sw_outside w))\<rparr>"

section \<open>The post start hook\<close>

datatype hook_error =
    RegistrarFailed registrar_build_error
  | ElectionFailed election_error
  | StartFailed launch_error

definition hook_prepare :: "('c, 'k, 'd, 'x) server_libs \<Rightarrow> 'k ExtraConfig \<Rightarrow>
    (hook_error, apiServiceRegistrar option) result" where
  "hook_prepare libs ex =
     (if \<not> so_Register (ex_APIServices ex) then Ok None
      else (case newAPIServiceRegistrar (ex_ClusterClientConfig ex) (sl_services_client libs)
                   (sl_discovery_client libs) (ex_APIServices ex) of
              Err e \<Rightarrow> Err (RegistrarFailed e)
            | Ok rg \<Rightarrow>
                if \<not> le_Enabled (ex_LeaderElection ex) then Ok (Some rg)
                else (case runLeaderElection (sl_lease_client libs (ex_ClusterClientConfig ex)) (sl_hostname libs)
                             (sl_elector libs) of
                        Err e \<Rightarrow> Err (ElectionFailed e)
                      | Ok leader \<Rightarrow> Ok (Some (rg\<lparr>rg_leader := Some leader\<rparr>)))))"

definition hook_start :: "('c, 'k, 'd, 'x) server_libs \<Rightarrow> 'k ExtraConfig \<Rightarrow> ('d, 'x) server_manager \<Rightarrow>
    (hook_error, ('d, 'x) server_manager) result" where
  "hook_start libs ex m =
     (case manager_start (server_env libs ex) (ex_Workspaces ex) m of
        (Some e, m') \<Rightarrow> Err (StartFailed e)
      | (None, m') \<Rightarrow> Ok (manager_changed (server_env libs ex) m'))"

text \<open>A callback of the election: the flag the registrar reads, and being elected runs \<open>onChange\<close>.\<close>

definition set_leading :: "leadership \<Rightarrow> ('d, 'x) server_manager \<Rightarrow> ('d, 'x) server_manager" where
  "set_leading l m =
     m\<lparr>mg_world := (mg_world m)\<lparr>sw_registrar := map_option (\<lambda>rg. rg\<lparr>rg_leader := Some l\<rparr>) (sw_registrar (mg_world m))\<rparr>\<rparr>"

definition elected :: "('c, 'k, 'd, 'x) server_libs \<Rightarrow> 'k ExtraConfig \<Rightarrow> election_event \<Rightarrow> leadership \<Rightarrow>
    ('d, 'x) server_manager \<Rightarrow> ('d, 'x) server_manager" where
  "elected libs ex e l m =
     (case election_callback (Some (\<lambda>m. manager_changed (server_env libs ex) (set_leading \<lparr>ld_leading = True\<rparr> m)))
             e (l, m) of
        (l', m') \<Rightarrow> set_leading l' m')"

section \<open>Health\<close>

datatype health_error = NotSyncedYet | NobodyServes string | CircuitIsOpen string

definition discovery_synced :: "'x server_store \<Rightarrow> router \<Rightarrow> health_error option" where
  "discovery_synced st r = (if router_HasSynced st r then None else Some NotSyncedYet)"

definition group_check :: "'x server_store \<Rightarrow> router \<Rightarrow> string \<Rightarrow> health_error option \<times> router" where
  "group_check st r g =
     (if \<not> router_HasSynced st r then (Some NotSyncedYet, r)
      else (case router_Snapshot st r of
              (snap, r1) \<Rightarrow>
                if sn_Groups snap g = None then (Some (NobodyServes g), r1)
                else (case servingFor st r1 g of
                        (None, r2) \<Rightarrow> (None, r2)
                      | (Some a, r2) \<Rightarrow>
                          ((if breaker_open (wp_breaker (ws_proxy (st a)))
                            then Some (CircuitIsOpen (ws_name (st a))) else None), r2))))"

definition checked_groups :: "WorkspaceConfig list \<Rightarrow> string list" where
  "checked_groups workspaces = concat (map (\<lambda>c. Exact (Some (wc_APIGroups c))) workspaces)"

text \<open>The health endpoints: the readiness check, and one check per named group under \<open>GroupHealthPath\<close>.\<close>

definition group_checks :: "WorkspaceConfig list \<Rightarrow>
    (string \<times> ('x server_store \<Rightarrow> router \<Rightarrow> health_error option \<times> router)) list" where
  "group_checks workspaces = map (\<lambda>g. (g, \<lambda>st r. group_check st r g)) (checked_groups workspaces)"

section \<open>A new server\<close>

datatype new_error = NoWorkspacesConfigured

text \<open>What \<open>New\<close> leaves: an empty router and a manager nothing runs under. \<open>st0\<close> is the memory to come.\<close>

definition new_server :: "'k ExtraConfig \<Rightarrow> 'x server_store \<Rightarrow> metrics \<Rightarrow> 'd \<Rightarrow> 'x \<Rightarrow>
    (new_error, ('d, 'x) server_manager) result" where
  "new_server ex st0 mx documents x =
     (if ex_Workspaces ex = [] then Err NoWorkspacesConfigured
      else Ok \<lparr>mg_store = st0, mg_next = 0, mg_router = newRouter [], mg_live = {}, mg_metrics = mx,
               mg_world = \<lparr>sw_published = {}, sw_documents = documents, sw_registrar = None, sw_outside = x\<rparr>\<rparr>)"

end
