(* ===== verification/Manager_Runs.thy ===== *)
theory Manager_Runs
  imports Workspace_Manager
begin

text \<open>
  What the workspace manager's operations leave alone, and the start: bringing workspaces up touches
  neither the router nor a workspace that was there before, nor what of the world the functions it uses
  leave alone, and a start that succeeds routes exactly what was configured.
\<close>

section \<open>What of the world is left alone\<close>

text \<open>\<open>f\<close> is a part of the world that only what runs on a change may touch.\<close>

definition client_keeps :: "('w \<Rightarrow> 'a) \<Rightarrow> 'w discovery_client \<Rightarrow> bool" where
  "client_keeps f client \<longleftrightarrow>
     (\<forall>w. f (snd (dc_ServerGroups client w)) = f w) \<and> (\<forall>gv w. f (snd (dc_ServerResources client gv w)) = f w)"

definition keeps_world :: "('w \<Rightarrow> 'a) \<Rightarrow> ('p, 'w) manager_env \<Rightarrow> bool" where
  "keeps_world f env \<longleftrightarrow>
     (\<forall>c st. f (snd (snd (me_build env c st))) = f (snd st)) \<and> (\<forall>ws w. f (snd (me_watch env ws w)) = f w) \<and>
     (\<forall>ws. client_keeps f (me_discovery env ws)) \<and>
     (\<forall>reload w. me_reload env = Some reload \<longrightarrow> f (snd (reload w)) = f w)"

lemma refresh_versions_keeps:
  assumes "client_keeps f client"
  shows "refresh_versions parse_gv client vs acc w = (r, w') \<Longrightarrow> f w' = f w"
proof (induction vs arbitrary: acc w)
  case Nil
  then show ?case by simp
next
  case (Cons v vs)
  have "f w1 = f w" if "dc_ServerResources client (av_GroupVersion v) w = (x, w1)" for x w1
    using assms that unfolding client_keeps_def by (metis snd_conv)
  with Cons show ?case by (fastforce split: sum.splits prod.splits)
qed

lemma refresh_groups_keeps:
  assumes "client_keeps f client"
  shows "refresh_groups parse_gv client owned gs acc w = (r, w') \<Longrightarrow> f w' = f w"
proof (induction gs arbitrary: acc w)
  case Nil
  then show ?case by simp
next
  case (Cons g gs)
  show ?case
  proof (cases "Matches (Some owned) (ag_Name g)")
    case False
    with Cons show ?thesis by simp
  next
    case True
    obtain r1 w1 where v: "refresh_versions parse_gv client (ag_Versions g)
        (acc\<lparr>sn_Groups := (sn_Groups acc)(ag_Name g \<mapsto> g)\<rparr>) w = (r1, w1)" by (metis surj_pair)
    from refresh_versions_keeps[OF assms v] have "f w1 = f w" .
    with Cons True v show ?thesis by (cases r1) auto
  qed
qed

lemma Refresh_keeps:
  assumes "client_keeps f client" and "Refresh parse_gv client now c mx w = (r, c', mx', w')"
  shows "f w' = f w"
proof -
  obtain r1 w1 where g: "dc_ServerGroups client w = (r1, w1)" by (metis surj_pair)
  with assms(1) have "f w1 = f w" unfolding client_keeps_def by (metis snd_conv)
  moreover have "f w' = f w1"
    using assms(2) g refresh_groups_keeps[OF assms(1)]
    by (fastforce simp: Refresh_def refresh_def Let_def split: sum.splits prod.splits)
  ultimately show ?thesis by simp
qed

lemma launch_keeps:
  assumes "keeps_world f env" and "launch env c m = (r, m')"
  shows "f (mg_world m') = f (mg_world m)"
proof -
  obtain r1 mx1 w1 where b: "me_build env c (mg_metrics m, mg_world m) = (r1, (mx1, w1))" by (metis surj_pair)
  with assms(1) have w1: "f w1 = f (mg_world m)" unfolding keeps_world_def by (metis snd_conv)
  show ?thesis
  proof (cases r1)
    case (Inl e)
    with assms(2) b w1 show ?thesis by (auto simp: launch_def)
  next
    case (Inr built)
    let ?b = "built\<lparr>ws_fingerprint := fingerprint c\<rparr>"
    obtain e cache mx2 w2 where r: "Refresh (me_ParseGroupVersion env) (me_discovery env ?b) (me_now env)
        (ws_cache ?b) mx1 w1 = (e, cache, mx2, w2)" by (metis prod_cases4)
    have "client_keeps f (me_discovery env ?b)" using assms(1) by (simp add: keeps_world_def)
    from Refresh_keeps[OF this r] w1 have w2: "f w2 = f (mg_world m)" by simp
    obtain r3 w3 where w: "me_watch env (?b\<lparr>ws_cache := cache\<rparr>) w2 = (r3, w3)" by (metis surj_pair)
    with assms(1) w2 have "f w3 = f (mg_world m)" unfolding keeps_world_def by (metis snd_conv)
    with assms(2) b Inr r w w2 show ?thesis by (auto simp: launch_def Let_def split: option.splits sum.splits)
  qed
qed

section \<open>Growth\<close>

definition grows :: "('p workspace \<Rightarrow> bool) \<Rightarrow> ('w \<Rightarrow> 'a) \<Rightarrow> ('p, 'w) manager \<Rightarrow> ('p, 'w) manager \<Rightarrow> bool" where
  "grows P f m m' \<longleftrightarrow>
     mg_router m' = mg_router m \<and> mg_next m \<le> mg_next m' \<and> f (mg_world m') = f (mg_world m) \<and>
     (\<forall>a<mg_next m. mg_store m' a = mg_store m a) \<and>
     (\<forall>a. mg_next m \<le> a \<longrightarrow> a < mg_next m' \<longrightarrow> P (mg_store m' a))"

text \<open>What is launched from the configurations of \<open>cs\<close> is \<open>P\<close>.\<close>

definition launches :: "WorkspaceConfig set \<Rightarrow> ('p workspace \<Rightarrow> bool) \<Rightarrow> ('p, 'w) manager_env \<Rightarrow> bool" where
  "launches cs P env \<longleftrightarrow> (\<forall>c m a m'. c \<in> cs \<longrightarrow> launch env c m = (Ok a, m') \<longrightarrow> P (mg_store m' a))"

lemma grows_same:
  "mg_store m' = mg_store m \<Longrightarrow> mg_next m' = mg_next m \<Longrightarrow> mg_router m' = mg_router m \<Longrightarrow>
   f (mg_world m') = f (mg_world m) \<Longrightarrow> grows P f m m'"
  by (simp add: grows_def)

lemma grows_trans:
  assumes "grows P f m m1" and "grows P f m1 m2"
  shows "grows P f m m2"
  unfolding grows_def
proof (intro conjI allI impI)
  show "mg_router m2 = mg_router m" "mg_next m \<le> mg_next m2" "f (mg_world m2) = f (mg_world m)"
    using assms by (auto simp: grows_def)
  show "mg_store m2 a = mg_store m a" if "a < mg_next m" for a using assms that by (simp add: grows_def)
  show "P (mg_store m2 a)" if "mg_next m \<le> a" "a < mg_next m2" for a
  proof (cases "a < mg_next m1")
    case True
    with assms that show ?thesis by (auto simp: grows_def)
  next
    case False
    with assms that show ?thesis by (auto simp: grows_def not_less)
  qed
qed

lemma grows_launch:
  assumes "launch env c m = (r, m')" and "builds_by_name env" and "launches known P env" and "keeps_world f env"
    and "c \<in> known"
  shows "grows P f m m'"
proof (cases r)
  case (Inl e)
  show ?thesis by (rule grows_same) (rule launch_fails[OF assms(1)[unfolded Inl]] launch_keeps[OF assms(4,1)])+
next
  case (Inr a)
  note l = launch_succeeds[OF assms(1)[unfolded Inr] assms(2)]
  have "P (mg_store m' a)" using assms(1,3,5) Inr unfolding launches_def by blast
  moreover have "b = a" if "mg_next m \<le> b" "b < mg_next m'" for b using that l(1,2) by simp
  ultimately have "\<forall>b. mg_next m \<le> b \<longrightarrow> b < mg_next m' \<longrightarrow> P (mg_store m' b)" by blast
  with l(1,2,3,5) launch_keeps[OF assms(4,1)] show ?thesis unfolding grows_def by auto
qed

lemma grows_metrics: "grows P f m m' \<Longrightarrow> grows P f m (m'\<lparr>mg_metrics := x\<rparr>)"
  by (simp add: grows_def)

lemma grows_apply_desired:
  assumes "builds_by_name env" and "launches known P env" and "keeps_world f env"
  shows "apply_desired env by_name cs (nxt, keep, changes) m = (acc', m') \<Longrightarrow> set cs \<subseteq> known \<Longrightarrow> grows P f m m'"
proof (induction cs arbitrary: nxt keep changes m)
  case Nil
  then show ?case by (simp add: grows_same)
next
  case (Cons c cs)
  obtain r m1 where l: "launch env c m = (r, m1)" by (metis surj_pair)
  have c: "c \<in> known" and cs: "set cs \<subseteq> known" using Cons.prems(2) by simp_all
  note g = grows_launch[OF l assms c]
  show ?case
  proof (cases "case by_name (wc_Name c) of None \<Rightarrow> False | Some a \<Rightarrow> ws_fingerprint (mg_store m a) = fingerprint c")
    case True
    with Cons.prems cs show ?thesis by (auto dest: Cons.IH)
  next
    case False
    show ?thesis
    proof (cases r)
      case (Inl e)
      let ?m2 = "m1\<lparr>mg_metrics := ObserveWorkspaceReload ''error'' (mg_metrics m1)\<rparr>"
      have "grows P f ?m2 m'"
        using Cons.prems(1) cs False l Inl by (auto simp: Let_def split: option.splits dest: Cons.IH)
      with grows_metrics[OF g] grows_trans show ?thesis by blast
    next
      case (Inr a)
      have "grows P f m1 m'" using Cons.prems(1) cs False l Inr by (auto dest: Cons.IH)
      with g grows_trans show ?thesis by blast
    qed
  qed
qed

lemma retire_world: "retire nxt keep as changes m = (changes', m') \<Longrightarrow> mg_world m' = mg_world m"
  by (induction as arbitrary: changes m) (fastforce split: if_splits)+

lemma grows_retire: "retire nxt keep as changes m = (changes', m') \<Longrightarrow> grows P f m m'"
  by (rule grows_same) (rule retire_effect; assumption | rule arg_cong[where f = f], rule retire_world, assumption)+

lemma grows_start_all:
  assumes "builds_by_name env" and "launches known P env" and "keeps_world f env"
  shows "start_all env cs running m = (r, m') \<Longrightarrow> set cs \<subseteq> known \<Longrightarrow> grows P f m m'"
proof (induction cs arbitrary: running m)
  case Nil
  then show ?case by (simp add: grows_same)
next
  case (Cons c cs)
  obtain r1 m1 where l: "launch env c m = (r1, m1)" by (metis surj_pair)
  have c: "c \<in> known" and cs: "set cs \<subseteq> known" using Cons.prems(2) by simp_all
  note g = grows_launch[OF l assms c]
  show ?case
  proof (cases r1)
    case (Inl e)
    with Cons.prems(1) l g show ?thesis by simp
  next
    case (Inr a)
    with Cons.prems(1) l have "start_all env cs (running @ [a]) m1 = (r, m')" by simp
    from grows_trans[OF g Cons.IH[OF this cs]] show ?thesis .
  qed
qed

section \<open>A reload\<close>

text \<open>The router is the same afterwards, or it was replaced and what runs on a change has run.\<close>

lemma reconcile_router:
  assumes "manager_reconcile env reload m = (failed, m')" and "builds_by_name env" and "launches known P env"
    and "keeps_world f env" and "me_reload env = Some reload"
    and known: "\<And>w cs w'. reload w = (Ok cs, w') \<Longrightarrow> set cs \<subseteq> known"
  obtains m3 where "grows P f m m3" and "m' = m3"
  | m3 nxt mx where "grows P f m m3"
    and "m' = manager_changed env (m3\<lparr>mg_router := router_replace nxt (mg_router m3), mg_metrics := mx\<rparr>)"
proof (cases "reload (mg_world m)")
  case (Pair r w1)
  with assms(4,5) have world: "f w1 = f (mg_world m)" unfolding keeps_world_def by (metis snd_conv)
  show thesis
  proof (cases r)
    case (Inl e)
    with assms(1) Pair have "m' = m\<lparr>mg_world := w1\<rparr>" by (simp add: manager_reconcile_def)
    with that(1)[of m'] world show thesis by (simp add: grows_same)
  next
    case (Inr desired)
    obtain nxt keep changes m2 where ad:
      "apply_desired env (byName (mg_store m) (routed m)) desired ([], {}, 0) (m\<lparr>mg_world := w1\<rparr>) =
        ((nxt, keep, changes), m2)" by (metis prod.collapse)
    obtain changes' m3 where ret: "retire nxt keep (routed m) changes m2 = (changes', m3)" by (metis surj_pair)
    have "grows P f m (m\<lparr>mg_world := w1\<rparr>)" using world by (simp add: grows_same)
    from grows_trans[OF grows_trans[OF this grows_apply_desired[OF assms(2,3,4) ad known[OF Pair[unfolded Inr]]]] grows_retire[OF ret]]
    have g: "grows P f m m3" .
    show thesis
    proof (cases "changes' = 0")
      case True
      with assms(1) Pair Inr ad ret have "m' = m3" by (simp add: manager_reconcile_def Let_def)
      with that(1) g show thesis by blast
    next
      case False
      with assms(1) Pair Inr ad ret have "m' = manager_changed env (m3\<lparr>mg_router := router_replace nxt (mg_router m3),
          mg_metrics := ObserveWorkspaceReload ''reloaded'' (mg_metrics m3)\<rparr>)"
        by (simp add: manager_reconcile_def Let_def)
      from that(2)[OF g this] show thesis .
    qed
  qed
qed

section \<open>The start\<close>

lemma start_all_ok:
  assumes "builds_by_name env"
  shows "start_all env cs running m = (Ok as, m') \<Longrightarrow>
    mg_live m = set running \<Longrightarrow>
    \<forall>a\<in>set running. a < mg_next m \<and> rc_synced (ws_cache (mg_store m a)) \<Longrightarrow>
    map (name_of m') as = map (name_of m) running @ map wc_Name cs \<and> mg_live m' = set as \<and>
    mg_router m' = mg_router m \<and> (\<forall>a\<in>set as. a < mg_next m' \<and> rc_synced (ws_cache (mg_store m' a)))"
proof (induction cs arbitrary: running m)
  case Nil
  then show ?case by simp
next
  case (Cons c cs)
  obtain r m1 where l: "launch env c m = (r, m1)" by (metis surj_pair)
  with Cons.prems(1) obtain a where r: "r = Ok a" by (cases r) auto
  note s = launch_succeeds[OF l[unfolded r] assms]
  have rest: "start_all env cs (running @ [a]) m1 = (Ok as, m')" using Cons.prems(1) l r by simp
  have same: "mg_store m1 b = mg_store m b" if "b \<in> set running" for b
    using that Cons.prems(3) s(1,5) by (metis less_irrefl)
  have names: "map (name_of m1) running = map (name_of m) running" using same by simp
  have live: "mg_live m1 = set (running @ [a])" using s(4) Cons.prems(2) by simp
  have synced: "\<forall>b\<in>set (running @ [a]). b < mg_next m1 \<and> rc_synced (ws_cache (mg_store m1 b))"
    using Cons.prems(3) s(1,2,8) same by auto
  from Cons.IH[OF rest live synced] s(3,6) names show ?case by simp
qed

lemma started_ok:
  assumes "manager_start env configured m = (None, m')" and "builds_by_name env" and "mg_live m = {}"
    and "distinct (map wc_Name configured)"
  shows "manager_ok m' \<and> map (name_of m') (routed m') = map wc_Name configured"
proof -
  obtain as m1 where s: "start_all env configured [] m = (Ok as, m1)"
    and m': "m' = m1\<lparr>mg_router := router_replace as (mg_router m1)\<rparr>"
    using assms(1) by (auto simp: manager_start_def split: sum.splits prod.splits)
  from start_all_ok[OF assms(2) s] assms(3) have
    "map (name_of m1) as = map wc_Name configured" "mg_live m1 = set as"
    "\<forall>a\<in>set as. a < mg_next m1 \<and> rc_synced (ws_cache (mg_store m1 a))" by auto
  with assms(4) show ?thesis by (simp add: m' manager_ok_def router_replace_eq router_snapshot_def)
qed

end
