(* ===== verification/Server_Life.thy ===== *)
theory Server_Life
  imports Server Manager_Runs
begin

text \<open>
  Everything that can happen to a server, as a step relation over its manager: the post start hook in
  its two halves, reloads, the loops of the caches, the election, requests, and whatever the world does
  meanwhile. Each step is one turn of a goroutine; turns interleave in any order. The invariant says
  what holds in every state that can be reached.
\<close>

section \<open>Steps\<close>

datatype phase = Created | Prepared | Serving

record ('d, 'x) server =
  sv_phase :: phase
  sv_manager :: "('d, 'x) server_manager"

text \<open>One refresh by a cache's loop; what it does on success is a step of its own.\<close>

definition cache_refresh :: "('c, 'k, 'd, 'x) server_libs \<Rightarrow> 'k ExtraConfig \<Rightarrow> addr \<Rightarrow>
    ('d, 'x) server_manager \<Rightarrow> ('d, 'x) server_manager" where
  "cache_refresh libs ex a m =
     (let env = server_env libs ex; ws = mg_store m a in
      case Refresh (me_ParseGroupVersion env) (me_discovery env ws) (me_now env) (ws_cache ws)
             (mg_metrics m) (mg_world m) of
        (_, cache, mx, w) \<Rightarrow>
          m\<lparr>mg_store := (mg_store m)(a := ws\<lparr>ws_cache := cache\<rparr>), mg_metrics := mx, mg_world := w\<rparr>)"

text \<open>What a request may touch: the merged view of the router, and what a proxy remembers and the metrics.\<close>

definition router_read :: "('d, 'x) server_manager \<Rightarrow> ('d, 'x) server_manager" where
  "router_read m = m\<lparr>mg_router := snd (current (mg_store m) (mg_router m))\<rparr>"

type_synonym 'x proxy_memory =
  "breaker \<times> (namespaceMirror \<times> 'x workspace_world namespace_backend) option \<times>
    (conversionPolicy \<times> ('x workspace_world, backend_error) policy_source)"

definition proxy_moved :: "addr \<Rightarrow> 'x proxy_memory \<Rightarrow> metrics \<Rightarrow> ('d, 'x) server_manager \<Rightarrow> ('d, 'x) server_manager" where
  "proxy_moved a mem mx m =
     (case mem of (b, namespaces, conversion) \<Rightarrow>
        let ws = mg_store m a in
        m\<lparr>mg_store := (mg_store m)(a := ws\<lparr>ws_proxy := (ws_proxy ws)\<lparr>wp_breaker := b,
            wp_namespaces := namespaces, wp_conversion := conversion\<rparr>\<rparr>),
          mg_metrics := mx\<rparr>)"

text \<open>A tick of the loop that watches a workspace's credentials.\<close>

definition cred_rotate :: "('c, 'k, 'd, 'x) server_libs \<Rightarrow> 'k ExtraConfig \<Rightarrow> addr \<Rightarrow>
    ('d, 'x) server_manager \<Rightarrow> ('d, 'x) server_manager" where
  "cred_rotate libs ex a m =
     (let ws = mg_store m a in
      case cred_run (wl_credentials (sl_workspaces libs)) (ws_name ws) (ex_CredentialReloadPeriod ex) 1
             (wp_credentials (ws_proxy ws), mg_metrics m, sw_outside (mg_world m)) of
        (credentials, mx, x) \<Rightarrow>
          m\<lparr>mg_store := (mg_store m)(a := ws\<lparr>ws_proxy := (ws_proxy ws)\<lparr>wp_credentials := credentials\<rparr>\<rparr>),
            mg_metrics := mx, mg_world := (mg_world m)\<lparr>sw_outside := x\<rparr>\<rparr>)"

definition world_moved :: "'x \<Rightarrow> ('d, 'x) server_manager \<Rightarrow> ('d, 'x) server_manager" where
  "world_moved x m = m\<lparr>mg_world := (mg_world m)\<lparr>sw_outside := x\<rparr>\<rparr>"

definition registrar_ready :: "apiServiceRegistrar option \<Rightarrow> ('d, 'x) server_manager \<Rightarrow> ('d, 'x) server_manager" where
  "registrar_ready rg m = m\<lparr>mg_world := (mg_world m)\<lparr>sw_registrar := rg\<rparr>\<rparr>"

inductive server_step :: "('c, 'k, 'd, 'x) server_libs \<Rightarrow> 'k ExtraConfig \<Rightarrow> ('d, 'x) server \<Rightarrow> ('d, 'x) server \<Rightarrow> bool"
  for libs ex where
  prepared: "sv_phase s = Created \<Longrightarrow> hook_prepare libs ex = Ok rg \<Longrightarrow>
     server_step libs ex s \<lparr>sv_phase = Prepared, sv_manager = registrar_ready rg (sv_manager s)\<rparr>"
| started: "sv_phase s = Prepared \<Longrightarrow> hook_start libs ex (sv_manager s) = Ok m \<Longrightarrow>
     server_step libs ex s \<lparr>sv_phase = Serving, sv_manager = m\<rparr>"
| reloaded: "sv_phase s = Serving \<Longrightarrow>
     server_step libs ex s
       (s\<lparr>sv_manager := manager_run (server_env libs ex) (ex_CredentialReloadPeriod ex) 1 (sv_manager s)\<rparr>)"
| election: "sv_phase s \<noteq> Created \<Longrightarrow>
     server_step libs ex s (s\<lparr>sv_manager := elected libs ex e l (sv_manager s)\<rparr>)"
| changed: "sv_phase s \<noteq> Created \<Longrightarrow>
     server_step libs ex s (s\<lparr>sv_manager := manager_changed (server_env libs ex) (sv_manager s)\<rparr>)"
| refreshed: "a \<in> mg_live (sv_manager s) \<Longrightarrow>
     server_step libs ex s (s\<lparr>sv_manager := cache_refresh libs ex a (sv_manager s)\<rparr>)"
| requested: "server_step libs ex s (s\<lparr>sv_manager := router_read (sv_manager s)\<rparr>)"
| rotated: "a \<in> mg_live (sv_manager s) \<Longrightarrow>
     server_step libs ex s (s\<lparr>sv_manager := cred_rotate libs ex a (sv_manager s)\<rparr>)"
| proxied: "server_step libs ex s (s\<lparr>sv_manager := proxy_moved a mem mx (sv_manager s)\<rparr>)"
| outside: "server_step libs ex s (s\<lparr>sv_manager := world_moved x (sv_manager s)\<rparr>)"

inductive server_reach :: "('c, 'k, 'd, 'x) server_libs \<Rightarrow> 'k ExtraConfig \<Rightarrow> ('d, 'x) server_manager \<Rightarrow>
    nat \<Rightarrow> ('d, 'x) server \<Rightarrow> bool" for libs ex m0 where
  created: "server_reach libs ex m0 0 \<lparr>sv_phase = Created, sv_manager = m0\<rparr>"
| further: "server_reach libs ex m0 n s \<Longrightarrow> server_step libs ex s t \<Longrightarrow> server_reach libs ex m0 (Suc n) t"

inductive_cases server_stepE: "server_step libs ex s t"

section \<open>What is built\<close>

text \<open>A workspace reads and serves only what it was configured for.\<close>

definition well_owned :: "'p workspace \<Rightarrow> bool" where
  "well_owned w \<longleftrightarrow>
     rc_owned (ws_cache w) = ws_groups w \<and> (\<forall>g\<in>ServedGroups (ws_cache w). Matches (Some (ws_groups w)) g)"

text \<open>
  The configurations a workspace may be launched from: those the server was given, and those a reload
  answers with.
\<close>

definition offered :: "'k ExtraConfig \<Rightarrow> WorkspaceConfig set" where
  "offered ex =
     {c. c \<in> set (ex_Workspaces ex) \<or>
         (\<exists>load read_file cs. ex_ReloadWorkspaces ex = Some load \<and> load read_file = Ok cs \<and> c \<in> set cs)}"

text \<open>
  A workspace is built as a configuration says. Its kubeconfig names a server; its requests and its side
  requests both go to that server's address; the credentials in force were loaded from that kubeconfig,
  which they watch, and are for that server. Owners are checked against its own cache.
\<close>

definition built_from :: "('c, 'x) workspace_libs \<Rightarrow> WorkspaceConfig \<Rightarrow> 'x workspace_proxy workspace \<Rightarrow> bool" where
  "built_from libs c w \<longleftrightarrow>
     ws_name w = wc_Name c \<and> ws_groups w = wc_APIGroups c \<and>
     rp_impersonate (wp_proxy (ws_proxy w)) = wc_ImpersonateUsers c \<and>
     rp_timeout (wp_proxy (ws_proxy w)) = bo_RequestTimeout (wc_Backend c) \<and>
     (\<exists>config u. from_kubeconfig (wl_credentials libs) (wc_Kubeconfig c) config \<and>
        wl_ParseURL libs (ce_Host (wl_credentials libs) config) = Ok u \<and> pu_Scheme u \<noteq> [] \<and> pu_Host u \<noteq> [] \<and>
        rp_location (wp_proxy (ws_proxy w)) = pu_url u \<and> bc_location (ws_backend w) = pu_url u \<and>
        cred_home (wl_credentials libs) (wc_Kubeconfig c) (ce_Host (wl_credentials libs) config) (wc_Backend c)
          (wp_credentials (ws_proxy w))) \<and>
     wp_transport (ws_proxy w) = fst (newBackendTransport (wc_Name c) (wc_Backend c)) \<and>
     rp_admission (wp_proxy (ws_proxy w)) = Some (workspace_gate libs (wp_transport (ws_proxy w)) (ws_backend w)) \<and>
     rp_served (wp_proxy (ws_proxy w)) = (\<lambda>v. ServedGroups (xw_cache v))"

text \<open>It is what one of the offered configurations says, and its fingerprint is that configuration's.\<close>

definition wired :: "('c, 'x) workspace_libs \<Rightarrow> 'k ExtraConfig \<Rightarrow> 'x workspace_proxy workspace \<Rightarrow> bool" where
  "wired libs ex w \<longleftrightarrow> (\<exists>c\<in>offered ex. ws_fingerprint w = fingerprint c \<and> built_from libs c w)"

text \<open>
  Its view is a finite map keyed by name; and with kcp naming the versions of a group as versions of that
  group, its versions parse as the group's own.
\<close>

definition keyed_answers :: "('c, 'k, 'd, 'x) server_libs \<Rightarrow> bool" where
  "keyed_answers libs \<longleftrightarrow>
     (\<forall>ws x gs x'. dc_ServerGroups (sl_discovery libs ws) x = (Ok gs, x') \<longrightarrow>
        (\<forall>ag\<in>set gs. \<forall>v\<in>set (ag_Versions ag). \<forall>gv.
           sl_ParseGroupVersion libs (av_GroupVersion v) = Ok gv \<longrightarrow> gv_Group gv = ag_Name ag))"

definition well_kept :: "('c, 'k, 'd, 'x) server_libs \<Rightarrow> 'p workspace \<Rightarrow> bool" where
  "well_kept libs w \<longleftrightarrow>
     finite (groupNames (rc_snapshot (ws_cache w))) \<and>
     (keyed_answers libs \<longrightarrow> well_keyed (sl_ParseGroupVersion libs) (rc_snapshot (ws_cache w)))"

definition well_built :: "('c, 'k, 'd, 'x) server_libs \<Rightarrow> 'k ExtraConfig \<Rightarrow> 'x workspace_proxy workspace \<Rightarrow> bool" where
  "well_built libs ex w \<longleftrightarrow> well_owned w \<and> wired (sl_workspaces libs) ex w \<and> well_kept libs w"

lemma newWorkspace_built:
  assumes "newWorkspace libs mirror c st = (Ok built, st')"
  shows "ws_name built = wc_Name c" "ws_groups built = wc_APIGroups c"
    "ws_cache built = NewResourceCache (wc_Name c) (wc_APIGroups c)" "fst st' = PublishWorkspace (wc_Name c) (fst st)"
  using assms by (auto simp: newWorkspace_def Let_def split: sum.splits prod.splits)

lemma newResourceProxy_ok:
  assumes "newResourceProxy parse round_tripper host impersonate options served w = (Ok (proxy, t), w')"
  shows "\<exists>u. parse host = Ok u \<and> pu_Scheme u \<noteq> [] \<and> pu_Host u \<noteq> [] \<and> round_tripper w = (Ok t, w') \<and>
    proxy = \<lparr>rp_location = pu_url u, rp_impersonate = impersonate, rp_timeout = bo_RequestTimeout options,
      rp_served = served, rp_admission = None\<rparr>"
  using assms by (auto simp: newResourceProxy_def split: sum.splits prod.splits if_splits)

lemma backendRoundTripper_ok:
  assumes "backendRoundTripper env name path config options w = (Ok ((transport, b), credentials), w')"
    and "from_kubeconfig env path config"
  shows "cred_home env path (ce_Host env config) options credentials" "transport = fst (newBackendTransport name options)"
  using assms(1) new_cred_home[OF _ assms(2), of options w credentials w']
  by (auto simp: backendRoundTripper_def split: sum.splits prod.splits)

lemma newWorkspace_wired:
  assumes "newWorkspace libs mirror c st = (Ok built, st')"
  shows "built_from libs c built"
proof -
  let ?env = "wl_credentials libs"
  from assms obtain config x1 proxy transport b credentials x2 where
    k: "RestConfig (ce_clientcmd ?env) (wc_Kubeconfig c) (snd st) = (Ok config, x1)"
    and p: "newResourceProxy (wl_ParseURL libs) (backendRoundTripper ?env (wc_Name c) (wc_Kubeconfig c) config (wc_Backend c))
       (ce_Host ?env config) (wc_ImpersonateUsers c) (wc_Backend c) (\<lambda>w. ServedGroups (xw_cache w)) x1 =
       (Ok (proxy, (transport, b), credentials), x2)"
    and built: "ws_backend built = \<lparr>bc_location = rp_location proxy\<rparr>" "ws_name built = wc_Name c"
      "ws_groups built = wc_APIGroups c"
      "wp_credentials (ws_proxy built) = credentials" "wp_transport (ws_proxy built) = transport"
      "wp_proxy (ws_proxy built) = proxy\<lparr>rp_admission := Some (workspace_gate libs transport \<lparr>bc_location = rp_location proxy\<rparr>)\<rparr>"
    by (auto simp: newWorkspace_def Let_def split: sum.splits prod.splits)
  have kube: "from_kubeconfig ?env (wc_Kubeconfig c) config" using k by (auto simp: from_kubeconfig_def)
  from newResourceProxy_ok[OF p] obtain u where
    u: "wl_ParseURL libs (ce_Host ?env config) = Ok u" "pu_Scheme u \<noteq> []" "pu_Host u \<noteq> []"
    and rt: "backendRoundTripper ?env (wc_Name c) (wc_Kubeconfig c) config (wc_Backend c) x1 =
      (Ok ((transport, b), credentials), x2)"
    and proxy: "proxy = \<lparr>rp_location = pu_url u, rp_impersonate = wc_ImpersonateUsers c,
      rp_timeout = bo_RequestTimeout (wc_Backend c), rp_served = (\<lambda>w. ServedGroups (xw_cache w)), rp_admission = None\<rparr>"
    by blast
  from backendRoundTripper_ok[OF rt kube] u kube show ?thesis
    unfolding built_from_def by (auto simp: built proxy)
qed

lemma built_from_frame [simp]:
  "built_from libs c (w\<lparr>ws_cache := cache\<rparr>) = built_from libs c w"
  "built_from libs c (w\<lparr>ws_fingerprint := f\<rparr>) = built_from libs c w"
  by (simp_all add: built_from_def)

lemma wired_frame [simp]: "wired libs ex (w\<lparr>ws_cache := cache\<rparr>) = wired libs ex w"
  by (simp add: wired_def)

text \<open>
  The gauge of a workspace's circuit is set to closed as soon as its clients could be built, also when
  what follows fails and the workspace running under that name stays in service.
\<close>

lemma failed_build_resets_the_gauge:
  assumes "newWorkspace libs mirror c st = (Err (WorkspaceProxyFailed name e), st')"
  shows "gauge_shows (wc_Name c) ''closed'' (fst st')"
  using assms by (auto simp: newWorkspace_def Let_def split: sum.splits prod.splits)

lemma Refresh_owned:
  assumes "Refresh parse_gv client now c mx w = (r, c', mx', w')"
    and "\<forall>g\<in>ServedGroups c. Matches (Some (rc_owned c)) g"
  shows "rc_owned c' = rc_owned c" "\<forall>g\<in>ServedGroups c'. Matches (Some (rc_owned c)) g"
proof -
  have "rc_owned c' = rc_owned c \<and> (\<forall>g\<in>ServedGroups c'. Matches (Some (rc_owned c)) g)"
  proof (cases r)
    case (Some e)
    with Refresh_failed[of parse_gv client now c mx w e c' mx' w'] assms show ?thesis by simp
  next
    case None
    with Refresh_ok[of parse_gv client now c mx w c' mx' w'] assms(1) obtain c1 where
      c1: "refresh parse_gv client c w = (Ok c1, w')" "c' = c1\<lparr>rc_matched := Some (groupNames (rc_snapshot c1))\<rparr>"
      by auto
    from refresh_ok[OF c1(1)] obtain gs where
      "sn_Groups (rc_snapshot c1) = owned_groups (rc_owned c) gs" "rc_owned c1 = rc_owned c" by blast
    with c1(2) owned_groups_matched[of _ "rc_owned c" gs] show ?thesis
      by (auto simp: ServedGroups_def groupNames_def)
  qed
  then show "rc_owned c' = rc_owned c" "\<forall>g\<in>ServedGroups c'. Matches (Some (rc_owned c)) g" by simp_all
qed

lemma well_owned_refresh:
  assumes "Refresh parse_gv client now (ws_cache w) mx x = (r, c', mx', x')" and "well_owned w"
  shows "well_owned (w\<lparr>ws_cache := c'\<rparr>)"
  using Refresh_owned[OF assms(1)] assms(2) by (auto simp: well_owned_def)

lemma owned_groups_named: "owned_groups owned gs g = Some ag \<Longrightarrow> ag \<in> set gs \<and> ag_Name ag = g"
  by (auto simp: owned_groups_def dest!: map_of_SomeD)

lemma finite_owned_groups: "finite (dom (owned_groups owned gs))"
  by (simp add: owned_groups_def finite_dom_map_of)

lemma outside_groups:
  "dc_ServerGroups (outside_client client) w = (r, w') \<Longrightarrow> \<exists>x'. dc_ServerGroups client (sw_outside w) = (r, x')"
  by (auto simp: outside_client_def split: prod.splits)

lemma well_kept_refresh:
  assumes "Refresh (sl_ParseGroupVersion libs) (outside_client (sl_discovery libs ws)) now (ws_cache w) mx x = (r, c', mx', x')"
    and "well_kept libs w"
  shows "well_kept libs (w\<lparr>ws_cache := c'\<rparr>)"
proof (cases r)
  case (Some e)
  with Refresh_failed[OF assms(1)[unfolded Some]] assms(2) show ?thesis by simp
next
  case None
  from Refresh_ok[OF assms(1)[unfolded None]] obtain c1 where
    c1: "refresh (sl_ParseGroupVersion libs) (outside_client (sl_discovery libs ws)) (ws_cache w) x = (Ok c1, x')"
    "rc_snapshot c' = rc_snapshot c1" by auto
  from refresh_ok[OF c1(1)] obtain gs w1 where
    g: "dc_ServerGroups (outside_client (sl_discovery libs ws)) x = (Ok gs, w1)"
    "sn_Groups (rc_snapshot c') = owned_groups (rc_owned (ws_cache w)) gs" using c1(2) by auto
  from outside_groups[OF g(1)] obtain x2 where x2: "dc_ServerGroups (sl_discovery libs ws) (sw_outside x) = (Ok gs, x2)" by blast
  have "well_keyed (sl_ParseGroupVersion libs) (rc_snapshot c')" if k: "keyed_answers libs"
    unfolding well_keyed_def g(2)
  proof (intro allI impI conjI ballI)
    fix name ag assume o: "owned_groups (rc_owned (ws_cache w)) gs name = Some ag"
    from owned_groups_named[OF this] show n: "ag_Name ag = name" by blast
    fix v gv assume "v \<in> set (ag_Versions ag)" "sl_ParseGroupVersion libs (av_GroupVersion v) = Ok gv"
    with k x2 owned_groups_named[OF o] show "gv_Group gv = name" unfolding keyed_answers_def by blast
  qed
  then show ?thesis by (simp add: well_kept_def groupNames_def g(2) finite_owned_groups)
qed

lemma server_builds_by_name: "builds_by_name (server_env libs ex)"
  by (auto simp: builds_by_name_def server_env_def newWorkspace_built split: prod.splits sum.splits)

lemma server_launches: "launches (offered ex) (well_built libs ex) (server_env libs ex)"
  unfolding launches_def
proof (intro allI impI)
  fix c a m m'
  let ?env = "server_env libs ex"
  assume c: "c \<in> offered ex" and l: "launch ?env c m = (Ok a, m')"
  then obtain built mx1 w1 where b: "me_build ?env c (mg_metrics m, mg_world m) = (Ok built, (mx1, w1))"
    by (auto simp: launch_def split: sum.splits prod.splits)
  let ?b = "built\<lparr>ws_fingerprint := fingerprint c\<rparr>"
  obtain cache mx2 w2 where r: "Refresh (me_ParseGroupVersion ?env) (me_discovery ?env ?b) (me_now ?env)
      (ws_cache ?b) mx1 w1 = (None, cache, mx2, w2)"
    using l b by (auto simp: launch_def Let_def split: sum.splits prod.splits option.splits)
  have "well_owned ?b"
    using b by (auto simp: server_env_def newWorkspace_built well_owned_def NewResourceCache_def ServedGroups_def
        groupNames_def empty_snapshot_def split: prod.splits sum.splits)
  moreover have "built_from (sl_workspaces libs) c built"
    using b by (auto simp: server_env_def newWorkspace_wired split: prod.splits sum.splits)
  then have "wired (sl_workspaces libs) ex ?b" using c by (auto simp: wired_def)
  moreover have "well_kept libs ?b"
    using b by (auto simp: server_env_def newWorkspace_built well_kept_def NewResourceCache_def groupNames_def
        empty_snapshot_def well_keyed_def split: prod.splits sum.splits)
  then have "well_kept libs (?b\<lparr>ws_cache := cache\<rparr>)"
    by (rule well_kept_refresh[rotated]) (use r in \<open>simp add: server_env_def\<close>)
  ultimately have "well_built libs ex (?b\<lparr>ws_cache := cache\<rparr>)"
    using well_owned_refresh[OF r] by (simp add: well_built_def)
  moreover have "mg_store m' a = ?b\<lparr>ws_cache := cache\<rparr>"
    using l b r by (auto simp: launch_def Let_def split: sum.splits prod.splits option.splits)
  ultimately show "well_built libs ex (mg_store m' a)" by simp
qed

text \<open>Nothing but what runs on a change touches the discovery documents.\<close>

definition docs_of :: "('d, 'x) server_world \<Rightarrow> string set \<times> 'd" where
  "docs_of w = (sw_published w, sw_documents w)"

lemma docs_of_outside [simp]: "docs_of (w\<lparr>sw_outside := x\<rparr>) = docs_of w" "docs_of (w\<lparr>sw_registrar := r\<rparr>) = docs_of w"
  by (simp_all add: docs_of_def)

lemma outside_client_keeps: "client_keeps docs_of (outside_client client)"
  by (simp add: client_keeps_def outside_client_def split: prod.splits)

lemma server_keeps_docs: "keeps_world docs_of (server_env libs ex)"
  by (auto simp: keeps_world_def server_env_def outside_client_keeps split: prod.splits)

section \<open>What runs on a change only reads the routes\<close>

lemma onChange_router: "fst (onChange libs st (r, mx, w)) = snd (current st r)"
  by (simp add: onChange_def publish_view_def sync_view_def router_Snapshot_def Let_def
      split: prod.splits option.splits)

lemma current_workspaces: "rt_workspaces (snd (current st r)) = rt_workspaces r"
  using current_keyed_cases[where r = r and g = "Generation st r" and rv = "rt_revision r" and st = st]
  by (cases "merged_view.hit r (Generation st r, rt_revision r)") (simp_all add: current_def frame_simps)

lemma server_onChange_only_reads: "onChange_only_reads (server_env libs ex)"
  by (auto simp: onChange_only_reads_def server_env_def onChange_router current_workspaces)

lemma changed_frame [frame_simps]:
  "mg_store (manager_changed (server_env libs ex) m) = mg_store m"
  "mg_next (manager_changed (server_env libs ex) m) = mg_next m"
  "mg_live (manager_changed (server_env libs ex) m) = mg_live m"
  "mg_router (manager_changed (server_env libs ex) m) = snd (current (mg_store m) (mg_router m))"
proof -
  let ?f = "onChange libs (mg_store m) (mg_router m, mg_metrics m, mg_world m)"
  obtain r mx w where f: "?f = (r, mx, w)" by (metis prod_cases3)
  have "manager_changed (server_env libs ex) m = m\<lparr>mg_router := r, mg_metrics := mx, mg_world := w\<rparr>"
    by (simp add: manager_changed_def server_env_def f)
  moreover have "r = snd (current (mg_store m) (mg_router m))" using onChange_router[of libs "mg_store m"] f by (metis fst_conv)
  ultimately show "mg_store (manager_changed (server_env libs ex) m) = mg_store m"
    "mg_next (manager_changed (server_env libs ex) m) = mg_next m"
    "mg_live (manager_changed (server_env libs ex) m) = mg_live m"
    "mg_router (manager_changed (server_env libs ex) m) = snd (current (mg_store m) (mg_router m))" by simp_all
qed

section \<open>The invariant\<close>

text \<open>
  The server's routes as the system of \<open>Router\<close>: nobody is halfway through a read, a refresh or a
  replacement between the turns of this theory. What finer interleavings do to the view is
  \<open>Router\<close>'s own theorem.
\<close>

definition route_of :: "('d, 'x) server_manager \<Rightarrow> 'x workspace_proxy route_sys" where
  "route_of m = \<lparr>rs_store = mg_store m, rs_router = mg_router m, rs_readers = [], rs_pending = {},
     rs_swapping = False, rs_torn = {}\<rparr>"

text \<open>
  The routes are sound \<open>n\<close> of their steps after the server was created, and so is what was noted of
  them: \<open>T\<close> holds keys of the merged view with the view there was then.
\<close>

type_synonym view_note = "(64 word \<times> 64 word) \<times> (Snapshot \<times> (string \<rightharpoonup> addr))"

definition routes_ok :: "view_note set \<Rightarrow> nat \<Rightarrow> ('d, 'x) server_manager \<Rightarrow> bool" where
  "routes_ok T n m \<longleftrightarrow> route_inv n (route_of m) \<and> (\<forall>(k, v)\<in>T. entry_ok n (route_of m) k v)"

text \<open>What holds of the manager in every phase.\<close>

definition manager_inv :: "view_note set \<Rightarrow> ('c, 'k, 'd, 'x) server_libs \<Rightarrow> 'k ExtraConfig \<Rightarrow> nat \<Rightarrow> ('d, 'x) server_manager \<Rightarrow> bool" where
  "manager_inv T libs ex n m \<longleftrightarrow>
     routes_ok T n m \<and> (\<forall>a\<in>set (routed m). a < mg_next m) \<and> (\<forall>a<mg_next m. well_built libs ex (mg_store m a))"

definition server_inv :: "view_note set \<Rightarrow> ('c, 'k, 'd, 'x) server_libs \<Rightarrow> 'k ExtraConfig \<Rightarrow> nat \<Rightarrow> ('d, 'x) server \<Rightarrow> bool" where
  "server_inv T libs ex n s \<longleftrightarrow>
     manager_inv T libs ex n (sv_manager s) \<and>
     (if sv_phase s = Serving then manager_ok (sv_manager s)
      else routed (sv_manager s) = [] \<and> mg_live (sv_manager s) = {})"

lemma route_of_simps [simp]:
  "rs_store (route_of m) = mg_store m" "rs_router (route_of m) = mg_router m"
  "rs_readers (route_of m) = []" "rs_pending (route_of m) = {}"
  "rs_swapping (route_of m) = False" "rs_torn (route_of m) = {}"
  by (simp_all add: route_of_def)

lemma route_of_quiet [simp]: "quiet (route_of m)"
  by (simp add: quiet_def)

lemma notes_later:
  assumes "\<forall>(k, v)\<in>T. entry_ok n (route_of m) k v"
    and "rt_revision (mg_router m') = rt_revision (mg_router m)"
    and "rs_generation (route_of m') = rs_generation (route_of m) + of_nat j" and "j \<le> 1"
    and "j = 0 \<Longrightarrow> rs_view (route_of m') = rs_view (route_of m)"
  shows "\<forall>(k, v)\<in>T. entry_ok (Suc n) (route_of m') k v"
proof -
  have "entry_ok (Suc n) (route_of m') k v" if "entry_ok n (route_of m) k v" for k v
    by (rule entry_later[OF that _ _ _ assms(3,4)]) (use assms(2,5) in simp_all)
  with assms(1) show ?thesis by blast
qed

text \<open>Steps that leave the router and what is routed alone.\<close>

lemma routes_later:
  assumes "routes_ok T n m" and "mg_router m' = mg_router m"
    and "rs_generation (route_of m') = rs_generation (route_of m) + of_nat j" and "j \<le> 1"
    and "j = 0 \<Longrightarrow> rs_view (route_of m') = rs_view (route_of m)"
  shows "routes_ok T (Suc n) m'"
proof -
  have "route_inv (Suc n) (route_of m')"
    using assms(1,2) entry_later[where t = "route_of m'", OF _ _ _ _ assms(3,4)] assms(5)
    by (auto simp: routes_ok_def route_inv_def intro: merged_view.holds_only_mono)
  with notes_later[OF _ _ assms(3-5), of T n] assms(1,2) show ?thesis by (simp add: routes_ok_def)
qed

lemma routes_kept:
  assumes "routes_ok T n m" and "mg_router m' = mg_router m"
    and "\<And>a. a \<in> set (routed m) \<Longrightarrow> rc_generation (ws_cache (mg_store m' a)) = rc_generation (ws_cache (mg_store m a))"
    and "\<And>a. a \<in> set (routed m) \<Longrightarrow> rc_snapshot (ws_cache (mg_store m' a)) = rc_snapshot (ws_cache (mg_store m a))"
  shows "routes_ok T (Suc n) m'"
proof (rule routes_later[where j = 0, OF assms(1,2)])
  show "rs_generation (route_of m') = rs_generation (route_of m) + of_nat 0"
    by (simp add: rs_generation_def Generation_sum assms(2,3) cong: map_cong)
  have "merge_all (mg_store m') (routed m) = merge_all (mg_store m) (routed m)"
    by (rule merge_all_cong) (rule assms(4))
  then show "rs_view (route_of m') = rs_view (route_of m)"
    by (simp add: rs_view_def assms(2))
qed simp

lemma routes_read:
  assumes "routes_ok T n m"
    and "mg_router m' = snd (current (mg_store m) (mg_router m))" and "mg_store m' = mg_store m"
  shows "routes_ok T (Suc n) m'"
proof -
  have "route_inv (Suc n) ((route_of m)\<lparr>rs_router := snd (current (mg_store m) (mg_router m))\<rparr>)"
    using inv_current[of n "route_of m"] assms(1) by (simp add: routes_ok_def)
  moreover have "(route_of m)\<lparr>rs_router := snd (current (mg_store m) (mg_router m))\<rparr> = route_of m'"
    by (simp add: route_of_def assms(2,3))
  ultimately have "route_inv (Suc n) (route_of m')" by simp
  moreover have "\<forall>(k, v)\<in>T. entry_ok (Suc n) (route_of m') k v"
    by (rule notes_later[where j = 0 and m = m])
       (use assms in \<open>simp_all add: routes_ok_def rs_generation_def rs_view_def frame_simps Generation_def\<close>)
  ultimately show ?thesis by (simp add: routes_ok_def)
qed

lemma routes_replaced:
  assumes "routes_ok T n m" and "distinct nxt"
    and "mg_router m' = router_replace nxt (mg_router m)" and "mg_store m' = mg_store m"
  shows "routes_ok T (Suc n) m'"
proof -
  have e: "(route_of m)\<lparr>rs_router := router_replace nxt (rs_router (route_of m))\<rparr> = route_of m'"
    by (simp add: route_of_def assms(3,4))
  have "route_inv (Suc n) ((route_of m)\<lparr>rs_router := router_replace nxt (rs_router (route_of m))\<rparr>)"
    by (rule inv_replaced[OF _ assms(2)]) (use assms(1) in \<open>simp_all add: routes_ok_def\<close>)
  moreover have "entry_ok (Suc n) (route_of m') k v" if "entry_ok n (route_of m) k v" for k v
    using entry_replaced[OF that, of nxt] unfolding e .
  ultimately show ?thesis using assms(1) unfolding routes_ok_def e by blast
qed

lemma routes_refreshed:
  assumes inv: "routes_ok T n m" and "mg_router m' = mg_router m"
    and st: "mg_store m' = (mg_store m)(a := (mg_store m a)\<lparr>ws_cache := cache\<rparr>)"
    and ref: "Refresh parse_gv client now (ws_cache (mg_store m a)) mx w = (r, cache, mx', w')"
  shows "routes_ok T (Suc n) m'"
proof (cases r)
  case (Some e)
  with Refresh_failed[of parse_gv client now _ mx w e cache mx' w'] ref
  have "cache = ws_cache (mg_store m a)" by simp
  then show ?thesis by (intro routes_kept[OF inv assms(2)]) (simp_all add: st)
next
  case None
  with Refresh_ok[of parse_gv client now _ mx w cache mx' w'] ref obtain c1 where
    c1: "refresh parse_gv client (ws_cache (mg_store m a)) w = (Ok c1, w')"
    "cache = c1\<lparr>rc_matched := Some (groupNames (rc_snapshot c1))\<rparr>" by auto
  from refresh_ok[OF c1(1)] c1(2) have gen: "rc_generation cache = rc_generation (ws_cache (mg_store m a)) + 1" by auto
  have d: "distinct (routed m)" using inv by (simp add: routes_ok_def route_inv_def)
  have sum: "sum_list (map (\<lambda>b. rc_generation (ws_cache (mg_store m' b))) as) =
      sum_list (map (\<lambda>b. rc_generation (ws_cache (mg_store m b))) as) + (if a \<in> set as then 1 else 0)"
    if "distinct as" for as
    using that by (induction as) (auto simp: st gen)
  have view: "rs_view (route_of m') = rs_view (route_of m)" if "a \<notin> set (routed m)"
  proof -
    have "merge_all (mg_store m') (routed m) = merge_all (mg_store m) (routed m)"
      by (rule merge_all_cong) (use that in \<open>auto simp: st\<close>)
    then show ?thesis by (simp add: rs_view_def assms(2))
  qed
  show ?thesis
    by (rule routes_later[where j = "if a \<in> set (routed m) then 1 else 0", OF inv assms(2)])
       (use sum[OF d] view in \<open>auto simp: rs_generation_def Generation_sum assms(2) split: if_splits\<close>)
qed

lemma routes_mono: "routes_ok T n m \<Longrightarrow> n \<le> k \<Longrightarrow> routes_ok T k m"
proof (induction k)
  case (Suc k)
  show ?case
  proof (cases "n = Suc k")
    case True
    with Suc.prems show ?thesis by simp
  next
    case False
    with Suc have "routes_ok T k m" by simp
    then show ?thesis by (rule routes_later[where j = 0]) simp_all
  qed
qed simp

section \<open>Every step keeps it\<close>

lemma inv_mono: "manager_inv T libs ex n m \<Longrightarrow> n \<le> k \<Longrightarrow> manager_inv T libs ex k m"
  by (auto simp: manager_inv_def intro: routes_mono)

lemma inv_same:
  assumes "manager_inv T libs ex n m" and "mg_store m' = mg_store m" "mg_next m' = mg_next m" "mg_router m' = mg_router m"
  shows "manager_inv T libs ex n m'"
  using assms by (simp add: manager_inv_def routes_ok_def route_of_def)

lemma inv_grows:
  assumes "manager_inv T libs ex n m" and "grows (well_built libs ex) docs_of m m'"
  shows "manager_inv T libs ex (Suc n) m'"
proof -
  have lt: "\<forall>a\<in>set (routed m). a < mg_next m" and own: "\<forall>a<mg_next m. well_built libs ex (mg_store m a)"
    and inv: "routes_ok T n m" using assms(1) by (simp_all add: manager_inv_def)
  have g: "mg_router m' = mg_router m" "mg_next m \<le> mg_next m'" "\<forall>a<mg_next m. mg_store m' a = mg_store m a"
    "\<forall>a. mg_next m \<le> a \<longrightarrow> a < mg_next m' \<longrightarrow> well_built libs ex (mg_store m' a)" using assms(2) by (simp_all add: grows_def)
  have "routes_ok T (Suc n) m'" by (rule routes_kept[OF inv g(1)]) (simp_all add: lt g(3))
  moreover have "well_built libs ex (mg_store m' a)" if "a < mg_next m'" for a
    using that own g(3,4) by (cases "a < mg_next m") auto
  moreover have "a < mg_next m'" if "a \<in> set (routed m')" for a
    using that lt g(1,2) by (auto intro: order_less_le_trans)
  ultimately show ?thesis by (simp add: manager_inv_def)
qed

lemma inv_read:
  assumes "manager_inv T libs ex n m" and "mg_router m' = snd (current (mg_store m) (mg_router m))"
    and "mg_store m' = mg_store m" and "mg_next m' = mg_next m"
  shows "manager_inv T libs ex (Suc n) m'"
  using assms routes_read[of T n m m'] by (simp add: manager_inv_def frame_simps)

lemma inv_changed:
  "manager_inv T libs ex n m \<Longrightarrow> manager_inv T libs ex (Suc n) (manager_changed (server_env libs ex) m)"
  by (rule inv_read) (simp_all add: frame_simps)

lemma inv_replaced_set:
  assumes "manager_inv T libs ex n m" and "distinct nxt" and "\<forall>a\<in>set nxt. a < mg_next m"
    and "mg_router m' = router_replace nxt (mg_router m)" "mg_store m' = mg_store m" "mg_next m' = mg_next m"
  shows "manager_inv T libs ex (Suc n) m'"
  using assms routes_replaced[of T n m nxt m']
  by (simp add: manager_inv_def)

lemma ok_routed: "manager_ok m \<Longrightarrow> distinct (routed m) \<and> (\<forall>a\<in>set (routed m). a < mg_next m)"
  by (auto simp: manager_ok_def distinct_map)

lemma ok_frame:
  assumes "manager_ok m" and "routed m' = routed m" "mg_live m' = mg_live m" "mg_next m' = mg_next m"
    and "\<And>a. name_of m' a = name_of m a"
    and "\<And>a. rc_synced (ws_cache (mg_store m a)) \<Longrightarrow> rc_synced (ws_cache (mg_store m' a))"
  shows "manager_ok m'"
  using assms by (simp add: manager_ok_def)

lemma ok_changed: "manager_ok m \<Longrightarrow> manager_ok (manager_changed (server_env libs ex) m)"
  by (erule ok_frame) (simp_all add: frame_simps)

text \<open>The start, from a manager nothing runs under.\<close>

lemma manager_start_inv:
  assumes inv: "manager_inv T libs ex n m" and "mg_live m = {}" and "distinct (map wc_Name (ex_Workspaces ex))"
    and ms: "manager_start (server_env libs ex) (ex_Workspaces ex) m = (None, m1)"
  shows "manager_inv T libs ex (n + 2) m1 \<and> manager_ok m1 \<and> docs_of (mg_world m1) = docs_of (mg_world m)"
proof -
  let ?env = "server_env libs ex"
  have ok: "manager_ok m1" using started_ok[OF ms server_builds_by_name assms(2,3)] by simp
  obtain as m0 where s: "start_all ?env (ex_Workspaces ex) [] m = (Ok as, m0)"
    and m1: "m1 = m0\<lparr>mg_router := router_replace as (mg_router m0)\<rparr>"
    using ms by (auto simp: manager_start_def split: sum.splits prod.splits)
  have as: "routed m1 = as" by (simp add: m1 router_replace_eq router_snapshot_def)
  have "set (ex_Workspaces ex) \<subseteq> offered ex" by (auto simp: offered_def)
  note g = grows_start_all[OF server_builds_by_name server_launches server_keeps_docs s this]
  have "manager_inv T libs ex (Suc n) m0" by (rule inv_grows[OF inv g])
  then have "manager_inv T libs ex (Suc (Suc n)) m1"
    by (rule inv_replaced_set[of T libs ex _ _ as]) (use ok_routed[OF ok] as in \<open>simp_all add: m1\<close>)
  moreover have "docs_of (mg_world m1) = docs_of (mg_world m)" using g by (simp add: grows_def m1)
  ultimately show ?thesis using ok by (simp add: eval_nat_numeral)
qed

lemma hook_start_inv:
  assumes inv: "manager_inv T libs ex n m" and "mg_live m = {}"
    and start: "hook_start libs ex m = Ok m'" and "distinct (map wc_Name (ex_Workspaces ex))"
  shows "manager_inv T libs ex (n + 3) m' \<and> manager_ok m'"
proof -
  let ?env = "server_env libs ex"
  obtain m1 where ms: "manager_start ?env (ex_Workspaces ex) m = (None, m1)" and m': "m' = manager_changed ?env m1"
    using start by (auto simp: hook_start_def split: prod.splits option.splits)
  note m1 = manager_start_inv[OF inv assms(2,4) ms]
  from inv_changed[of T libs ex "n + 2" m1] ok_changed[of m1 libs ex] m1 show ?thesis by (simp add: m' eval_nat_numeral)
qed

text \<open>A reload, which may fail, and which keeps the names apart because the file does.\<close>

definition reloads_by_name :: "('c, 'k, 'd, 'x) server_libs \<Rightarrow> 'k ExtraConfig \<Rightarrow> bool" where
  "reloads_by_name libs ex \<longleftrightarrow>
     (\<forall>load read_file configs. ex_ReloadWorkspaces ex = Some load \<longrightarrow> load read_file = Ok configs \<longrightarrow>
        distinct (map wc_Name configs))"

lemma reload_offers:
  assumes "me_reload (server_env libs ex) = Some reload"
  shows "reload w = (Ok cs, w') \<Longrightarrow> set cs \<subseteq> offered ex"
  using assms by (auto simp: server_env_def offered_def split: sum.splits)

lemma tick_inv:
  assumes inv: "manager_inv T libs ex n m" and ok: "manager_ok m" and by_name: "reloads_by_name libs ex"
    and reload: "me_reload (server_env libs ex) = Some reload"
  shows "manager_inv T libs ex (n + 3) (manager_tick (server_env libs ex) reload m) \<and>
    manager_ok (manager_tick (server_env libs ex) reload m)"
proof -
  let ?env = "server_env libs ex"
  obtain failed m' where rec: "manager_reconcile ?env reload m = (failed, m')" by (metis surj_pair)
  have ok': "manager_ok m'"
  proof (cases "reload (mg_world m)")
    case (Pair r w1)
    show ?thesis
    proof (cases r)
      case (Inl e)
      with rec Pair have "m' = m\<lparr>mg_world := w1\<rparr>" by (simp add: manager_reconcile_def)
      with ok show ?thesis by (simp add: manager_ok_def)
    next
      case (Inr desired)
      have "distinct (map wc_Name desired)"
        using by_name reload Pair Inr
        by (auto simp: reloads_by_name_def server_env_def split: sum.splits)
      from reconcile_applies[OF ok server_builds_by_name server_onChange_only_reads _ this rec] Pair Inr
      show ?thesis by simp
    qed
  qed
  have inv': "manager_inv T libs ex (n + 3) m'"
  proof (rule reconcile_router[OF rec server_builds_by_name server_launches server_keeps_docs reload
        reload_offers[OF reload]], assumption)
    fix m3 assume "grows (well_built libs ex) docs_of m m3" and "m' = m3"
    with inv_grows[OF inv] inv_mono show ?thesis by (metis add.commute le_add2 plus_1_eq_Suc Suc_le_mono add_Suc_right numeral_3_eq_3)
  next
    fix m3 nxt mx
    assume g: "grows (well_built libs ex) docs_of m m3"
      and m': "m' = manager_changed ?env (m3\<lparr>mg_router := router_replace nxt (mg_router m3), mg_metrics := mx\<rparr>)"
    let ?m4 = "m3\<lparr>mg_router := router_replace nxt (mg_router m3), mg_metrics := mx\<rparr>"
    have "routed m' = nxt" by (simp add: m' frame_simps)
    with ok_routed[OF ok'] have d: "distinct nxt" "\<forall>a\<in>set nxt. a < mg_next m3" by (simp_all add: m' frame_simps)
    have "manager_inv T libs ex (Suc (Suc n)) ?m4" by (rule inv_replaced_set[OF inv_grows[OF inv g] d]) simp_all
    from inv_changed[OF this] show ?thesis by (simp add: m' eval_nat_numeral)
  qed
  let ?m2 = "m'\<lparr>mg_metrics := ObserveWorkspaceReload ''error'' (mg_metrics m')\<rparr>"
  have "manager_inv T libs ex (n + 3) ?m2" by (rule inv_same[OF inv']) simp_all
  moreover have "manager_ok ?m2" using ok' by (simp add: manager_ok_def)
  ultimately show ?thesis using ok' inv' rec by (cases failed) (simp_all add: manager_tick_def)
qed

lemma run_inv:
  assumes "manager_inv T libs ex n m" and "manager_ok m" and "reloads_by_name libs ex"
  shows "manager_inv T libs ex (n + 3) (manager_run (server_env libs ex) period 1 m) \<and>
    manager_ok (manager_run (server_env libs ex) period 1 m)"
proof (cases "me_reload (server_env libs ex)")
  case None
  with assms(2) inv_mono[OF assms(1)] show ?thesis by (simp add: manager_run_def)
next
  case (Some reload)
  with tick_inv[OF assms Some] assms(2) inv_mono[OF assms(1)] show ?thesis by (simp add: manager_run_def)
qed

lemma set_leading_frame [frame_simps]:
  "mg_store (set_leading l m) = mg_store m" "mg_next (set_leading l m) = mg_next m"
  "mg_live (set_leading l m) = mg_live m" "mg_router (set_leading l m) = mg_router m"
  by (simp_all add: set_leading_def)

lemma elected_cases:
  "elected libs ex e l m = set_leading \<lparr>ld_leading = False\<rparr> m \<or>
   elected libs ex e l m = set_leading \<lparr>ld_leading = True\<rparr>
     (manager_changed (server_env libs ex) (set_leading \<lparr>ld_leading = True\<rparr> m))"
  by (cases e; cases l) (simp_all add: elected_def election_callback_def)

text \<open>What a step does to the manager when it does not move on to the next phase.\<close>

definition still :: "('d, 'x) server_manager \<Rightarrow> ('d, 'x) server_manager \<Rightarrow> bool" where
  "still m m' \<longleftrightarrow>
     mg_next m' = mg_next m \<and> mg_live m' = mg_live m \<and> routed m' = routed m \<and>
     (\<forall>a. name_of m' a = name_of m a) \<and>
     (\<forall>a. rc_synced (ws_cache (mg_store m a)) \<longrightarrow> rc_synced (ws_cache (mg_store m' a)))"

lemma still_ok: "still m m' \<Longrightarrow> manager_ok m \<Longrightarrow> manager_ok m'"
  by (auto simp: still_def intro: ok_frame)

lemma still_changed: "still m (manager_changed (server_env libs ex) m)"
  by (simp add: still_def frame_simps)

lemma elected_inv:
  assumes "manager_inv T libs ex n m"
  shows "manager_inv T libs ex (Suc n) (elected libs ex e l m) \<and> still m (elected libs ex e l m)"
  using elected_cases[of libs ex e l m]
proof
  let ?m = "set_leading \<lparr>ld_leading = False\<rparr> m"
  assume e: "elected libs ex e l m = ?m"
  have "manager_inv T libs ex n ?m" by (rule inv_same[OF assms]) (simp_all add: frame_simps)
  then have "manager_inv T libs ex (Suc n) ?m" by (rule inv_mono) simp
  then show ?thesis by (simp add: e still_def frame_simps)
next
  let ?m = "set_leading \<lparr>ld_leading = True\<rparr> m"
  let ?c = "manager_changed (server_env libs ex) ?m"
  assume e: "elected libs ex e l m = set_leading \<lparr>ld_leading = True\<rparr> ?c"
  have "manager_inv T libs ex n ?m" by (rule inv_same[OF assms]) (simp_all add: frame_simps)
  from inv_changed[OF this] have c: "manager_inv T libs ex (Suc n) ?c" .
  have "manager_inv T libs ex (Suc n) (set_leading \<lparr>ld_leading = True\<rparr> ?c)"
    by (rule inv_same[OF c]) (simp_all add: frame_simps)
  then show ?thesis by (simp add: e still_def frame_simps)
qed

lemma refresh_inv:
  assumes "manager_inv T libs ex n m"
  shows "manager_inv T libs ex (Suc n) (cache_refresh libs ex a m) \<and> still m (cache_refresh libs ex a m)"
proof -
  let ?env = "server_env libs ex" and ?ws = "mg_store m a"
  obtain r cache mx w where ref: "Refresh (me_ParseGroupVersion ?env) (me_discovery ?env ?ws) (me_now ?env)
      (ws_cache ?ws) (mg_metrics m) (mg_world m) = (r, cache, mx, w)" by (metis prod_cases4)
  let ?m' = "m\<lparr>mg_store := (mg_store m)(a := ?ws\<lparr>ws_cache := cache\<rparr>), mg_metrics := mx, mg_world := w\<rparr>"
  have m': "cache_refresh libs ex a m = ?m'" by (simp add: cache_refresh_def Let_def ref)
  have synced: "rc_synced cache" if "rc_synced (ws_cache ?ws)"
  proof (cases r)
    case None
    with ref show ?thesis by (auto dest: Refresh_syncs)
  next
    case (Some e)
    from Refresh_failed[OF ref[unfolded Some]] that show ?thesis by simp
  qed
  have "routes_ok T n m" using assms by (simp add: manager_inv_def)
  then have "routes_ok T (Suc n) ?m'" by (rule routes_refreshed[OF _ _ _ ref]) simp_all
  moreover have "well_built libs ex (?ws\<lparr>ws_cache := cache\<rparr>)" if "a < mg_next m"
    using well_owned_refresh[OF ref] well_kept_refresh[of libs ?ws _ ?ws] ref assms that
    by (simp add: manager_inv_def well_built_def server_env_def)
  ultimately have "manager_inv T libs ex (Suc n) ?m'" using assms by (simp add: manager_inv_def)
  moreover have "still m ?m'" using synced by (simp add: still_def)
  ultimately show ?thesis by (simp add: m')
qed

lemma proxy_inv:
  assumes "manager_inv T libs ex n m" and "mg_store m' = (mg_store m)(a := (mg_store m a)\<lparr>ws_proxy := p\<rparr>)"
    and "mg_next m' = mg_next m" "mg_live m' = mg_live m" "mg_router m' = mg_router m"
    and "wired (sl_workspaces libs) ex (mg_store m a) \<Longrightarrow> wired (sl_workspaces libs) ex ((mg_store m a)\<lparr>ws_proxy := p\<rparr>)"
  shows "manager_inv T libs ex (Suc n) m' \<and> still m m'"
proof -
  have "routes_ok T n m" using assms by (simp add: manager_inv_def)
  then have "routes_ok T (Suc n) m'"
    by (rule routes_kept) (simp_all add: assms)
  moreover have "well_built libs ex (mg_store m' b)" if "b < mg_next m'" for b
    using assms that by (auto simp: manager_inv_def well_built_def well_owned_def well_kept_def)
  ultimately have "manager_inv T libs ex (Suc n) m'" using assms by (simp add: manager_inv_def)
  moreover have "still m m'" by (simp add: still_def assms)
  ultimately show ?thesis by blast
qed

lemma moved_inv:
  assumes "manager_inv T libs ex n m"
  shows "manager_inv T libs ex (Suc n) (proxy_moved a mem mx m) \<and> still m (proxy_moved a mem mx m)"
proof -
  obtain b ns cv where mem: "mem = (b, ns, cv)" by (metis prod_cases3)
  let ?p = "(ws_proxy (mg_store m a))\<lparr>wp_breaker := b, wp_namespaces := ns, wp_conversion := cv\<rparr>"
  show ?thesis
    by (rule proxy_inv[OF assms, where a = a and p = ?p]) (simp_all add: mem proxy_moved_def wired_def built_from_def Let_def)
qed

lemma rotate_inv:
  assumes "manager_inv T libs ex n m"
  shows "manager_inv T libs ex (Suc n) (cred_rotate libs ex a m) \<and> still m (cred_rotate libs ex a m)"
proof -
  let ?ws = "mg_store m a" and ?env = "wl_credentials (sl_workspaces libs)"
  let ?st = "(wp_credentials (ws_proxy ?ws), mg_metrics m, sw_outside (mg_world m))"
  obtain c mx x where run: "cred_run ?env (ws_name ?ws) (ex_CredentialReloadPeriod ex) 1 ?st = (c, mx, x)"
    by (metis prod_cases3)
  have "cred_home ?env path server options c" if "cred_home ?env path server options (wp_credentials (ws_proxy ?ws))"
    for path server options
    using cred_run_home[of ?env path server options ?st] that run by (metis fst_conv)
  then have "built_from (sl_workspaces libs) cf (?ws\<lparr>ws_proxy := (ws_proxy ?ws)\<lparr>wp_credentials := c\<rparr>\<rparr>)"
    if "built_from (sl_workspaces libs) cf ?ws" for cf
    using that unfolding built_from_def by fastforce
  then have "wired (sl_workspaces libs) ex ?ws \<Longrightarrow>
      wired (sl_workspaces libs) ex (?ws\<lparr>ws_proxy := (ws_proxy ?ws)\<lparr>wp_credentials := c\<rparr>\<rparr>)"
    by (auto simp: wired_def)
  then show ?thesis
    by (intro proxy_inv[OF assms, where a = a and p = "(ws_proxy ?ws)\<lparr>wp_credentials := c\<rparr>"])
       (simp_all add: cred_rotate_def Let_def run[unfolded One_nat_def])
qed

lemma read_inv: "manager_inv T libs ex n m \<Longrightarrow> manager_inv T libs ex (Suc n) (router_read m) \<and> still m (router_read m)"
  using inv_read[of T libs ex n m "router_read m"] by (simp add: router_read_def still_def frame_simps)

lemma world_inv: "manager_inv T libs ex n m \<Longrightarrow> manager_inv T libs ex (Suc n) (world_moved x m) \<and> still m (world_moved x m)"
  using inv_same[of T libs ex n m "world_moved x m"] inv_mono[of T libs ex n _ "Suc n"] by (simp add: world_moved_def still_def)

lemma server_still:
  assumes "server_inv T libs ex n s" and "manager_inv T libs ex (Suc n) m' \<and> still (sv_manager s) m'"
  shows "server_inv T libs ex (n + 3) (s\<lparr>sv_manager := m'\<rparr>)"
proof -
  have "manager_inv T libs ex (n + 3) m'" using assms(2) inv_mono[of T libs ex "Suc n" m' "n + 3"] by simp
  with assms show ?thesis
    using still_ok[of "sv_manager s" m'] by (auto simp: server_inv_def still_def split: if_splits)
qed

lemma server_step_inv:
  assumes "server_step libs ex s t" and inv: "server_inv T libs ex n s"
    and by_name: "reloads_by_name libs ex" and names: "distinct (map wc_Name (ex_Workspaces ex))"
  shows "server_inv T libs ex (n + 3) t"
  using assms(1)
proof cases
  case (prepared rg)
  let ?m' = "registrar_ready rg (sv_manager s)"
  have m: "manager_inv T libs ex n (sv_manager s)" using inv by (simp add: server_inv_def)
  have "manager_inv T libs ex n ?m'" by (rule inv_same[OF m]) (simp_all add: registrar_ready_def)
  then have "manager_inv T libs ex (n + 3) ?m'" by (rule inv_mono) simp
  with inv prepared(2) show ?thesis by (simp add: prepared(1) server_inv_def registrar_ready_def)
next
  case (started m')
  have "manager_inv T libs ex n (sv_manager s)" "mg_live (sv_manager s) = {}"
    using inv started(2) by (simp_all add: server_inv_def)
  from hook_start_inv[OF this started(3) names] show ?thesis by (simp add: started(1) server_inv_def)
next
  case reloaded
  have "manager_inv T libs ex n (sv_manager s)" "manager_ok (sv_manager s)" using inv reloaded(2) by (simp_all add: server_inv_def)
  from run_inv[OF this by_name] reloaded(2) show ?thesis by (simp add: reloaded(1) server_inv_def)
next
  case (election e l)
  show ?thesis unfolding election(1) by (rule server_still[OF inv elected_inv]) (use inv in \<open>simp add: server_inv_def\<close>)
next
  case changed
  have "manager_inv T libs ex n (sv_manager s)" using inv by (simp add: server_inv_def)
  from inv_changed[OF this] still_changed[of "sv_manager s" libs ex]
  show ?thesis unfolding changed(1) by (intro server_still[OF inv] conjI)
next
  case (refreshed a)
  show ?thesis unfolding refreshed(1) by (rule server_still[OF inv refresh_inv]) (use inv in \<open>simp add: server_inv_def\<close>)
next
  case requested
  show ?thesis unfolding requested(1) by (rule server_still[OF inv read_inv]) (use inv in \<open>simp add: server_inv_def\<close>)
next
  case (rotated a)
  show ?thesis unfolding rotated(1) by (rule server_still[OF inv rotate_inv]) (use inv in \<open>simp add: server_inv_def\<close>)
next
  case (proxied a mem mx)
  show ?thesis unfolding proxied(1) by (rule server_still[OF inv moved_inv]) (use inv in \<open>simp add: server_inv_def\<close>)
next
  case (outside x)
  show ?thesis unfolding outside(1) by (rule server_still[OF inv world_inv]) (use inv in \<open>simp add: server_inv_def\<close>)
qed

lemma new_server_inv:
  assumes "new_server ex st0 mx documents x = Ok m0"
  shows "server_inv {} libs ex 0 \<lparr>sv_phase = Created, sv_manager = m0\<rparr>"
proof -
  have m0: "mg_next m0 = 0" "mg_router m0 = newRouter []" "mg_live m0 = {}"
    using assms by (auto simp: new_server_def split: if_splits)
  have "route_reach (mg_store m0) [] 0 (route_of m0)"
    unfolding route_of_def m0(2) by (rule route_reach.start)
  then have "route_inv 0 (route_of m0)" by (rule route_reach_inv) simp
  then show ?thesis
    by (simp add: server_inv_def manager_inv_def routes_ok_def m0 newRouter_def router_replace_eq router_snapshot_def)
qed

lemma server_reach_inv:
  assumes "server_reach libs ex m0 n s" and "new_server ex st0 mx documents x = Ok m0"
    and "reloads_by_name libs ex" and "distinct (map wc_Name (ex_Workspaces ex))"
  shows "server_inv {} libs ex (3 * n) s"
  using assms(1)
proof induction
  case created
  show ?case using new_server_inv[OF assms(2)] by simp
next
  case (further n s t)
  from server_step_inv[OF further(2,3) assms(3,4)] show ?case by (simp add: algebra_simps)
qed

section \<open>What follows in a state that can be reached\<close>

lemma view_is_merged:
  assumes "manager_inv T libs ex k m" and "k < 2 ^ 64"
  shows "(ms_snapshot (fst (current (mg_store m) (mg_router m))), ms_owners (fst (current (mg_store m) (mg_router m)))) =
    merge_all (mg_store m) (routed m)"
  using current_is_view[of k "route_of m"] assms by (simp add: manager_inv_def routes_ok_def rs_view_def)

lemma serving_is_first:
  assumes "manager_inv T libs ex k m" and "k < 2 ^ 64"
  shows "fst (servingFor (mg_store m) (mg_router m) g) = first_serving (mg_store m) (routed m) g"
    and "sn_Groups (fst (router_Snapshot (mg_store m) (mg_router m))) g \<noteq> None \<longleftrightarrow>
      first_serving (mg_store m) (routed m) g \<noteq> None"
proof -
  note v = view_is_merged[OF assms]
  have o': "ms_owners (fst (current (mg_store m) (mg_router m))) = snd (merge_all (mg_store m) (routed m))"
    and sn: "ms_snapshot (fst (current (mg_store m) (mg_router m))) = fst (merge_all (mg_store m) (routed m))"
    by (simp_all add: v[symmetric])
  show "fst (servingFor (mg_store m) (mg_router m) g) = first_serving (mg_store m) (routed m) g"
    by (simp add: servingFor_fst o' merge_all_owner)
  show "sn_Groups (fst (router_Snapshot (mg_store m) (mg_router m))) g \<noteq> None \<longleftrightarrow>
      first_serving (mg_store m) (routed m) g \<noteq> None"
    using merge_all_served[of "mg_store m" "routed m" g]
    by (simp add: router_Snapshot_def case_prod_beta sn merge_all_owner)
qed

lemma serving_is_live:
  assumes "manager_inv T libs ex k m" and "k < 2 ^ 64" and "manager_ok m"
    and "fst (servingFor (mg_store m) (mg_router m) g) = Some a"
  shows "a \<in> mg_live m \<and> g \<in> ServedGroups (ws_cache (mg_store m a)) \<and> Matches (Some (ws_groups (mg_store m a))) g"
proof -
  have "first_serving (mg_store m) (routed m) g = Some a" using serving_is_first(1)[OF assms(1,2)] assms(4) by simp
  from first_serving_serves[OF this] have a: "g \<in> ServedGroups (ws_cache (mg_store m a))" "a \<in> set (routed m)" by auto
  with assms(1,3) show ?thesis by (auto simp: manager_inv_def manager_ok_def well_built_def well_owned_def)
qed

lemma ready_once_ok: "manager_ok m \<Longrightarrow> router_HasSynced (mg_store m) (mg_router m)"
  by (simp add: router_HasSynced_def manager_ok_def list_all_iff)

lemma group_check_tells:
  assumes "manager_inv T libs ex k m" and "Suc k < 2 ^ 64" and "manager_ok m"
  shows "fst (group_check (mg_store m) (mg_router m) g) =
    (case first_serving (mg_store m) (routed m) g of
       None \<Rightarrow> Some (NobodyServes g)
     | Some a \<Rightarrow> if breaker_open (wp_breaker (ws_proxy (mg_store m a)))
                 then Some (CircuitIsOpen (name_of m a)) else None)"
proof -
  let ?st = "mg_store m" and ?r = "mg_router m"
  let ?m1 = "router_read m"
  have r1: "snd (router_Snapshot ?st ?r) = mg_router ?m1" "mg_store ?m1 = ?st" "routed ?m1 = routed m"
    by (simp_all add: router_Snapshot_def router_read_def frame_simps split: prod.splits)
  have "manager_inv T libs ex (Suc k) ?m1" using read_inv[OF assms(1)] by blast
  from serving_is_first(1)[OF this assms(2), of g] have serving:
    "fst (servingFor ?st (snd (router_Snapshot ?st ?r)) g) = first_serving ?st (routed m) g" by (simp add: r1)
  have k: "k < 2 ^ 64" using assms(2) by simp
  note synced = ready_once_ok[OF assms(3)] and there = serving_is_first(2)[OF assms(1) k, of g]
  obtain snap r' where s: "router_Snapshot ?st ?r = (snap, r')" by (metis surj_pair)
  show ?thesis
  proof (cases "first_serving ?st (routed m) g")
    case None
    with synced there s show ?thesis by (simp add: group_check_def)
  next
    case (Some a)
    with serving s obtain r2 where "servingFor ?st r' g = (Some a, r2)" by (metis fst_conv snd_conv surj_pair)
    with synced there s Some show ?thesis by (auto simp: group_check_def)
  qed
qed

section \<open>Where the names come from\<close>

lemma extraConfig_by_name: "reloads_by_name libs (extraConfig unmarshal o1 workspaces cluster)"
  by (auto simp: reloads_by_name_def extraConfig_def reloadWorkspaces_def split: if_splits dest: loaded_workspaces(2))

lemma configured_by_name:
  assumes "options_Config self_signed read_file unmarshal v fresh0 apply_to clients al auth o1 = Ok (sc, ex)"
  shows "reloads_by_name libs ex" and "distinct (map wc_Name (ex_Workspaces ex))"
proof -
  from config_carries(1)[OF assms] obtain workspaces cluster where
    w: "options_workspaces read_file unmarshal o1 = Ok workspaces" "ex = extraConfig unmarshal o1 workspaces cluster"
    by blast
  show "distinct (map wc_Name (ex_Workspaces ex))" using configured_names[OF w(1)] by (simp add: w(2) extraConfig_def)
  show "reloads_by_name libs ex" by (simp add: w(2) extraConfig_by_name)
qed

lemma configured_reach:
  assumes "options_Config self_signed read_file unmarshal v fresh0 apply_to clients al auth o1 = Ok (sc, ex)"
    and "new_server ex st0 mx documents x = Ok m0" and "server_reach libs ex m0 n s"
  shows "server_inv {} libs ex (3 * n) s"
  by (rule server_reach_inv[OF assms(3,2) configured_by_name[OF assms(1)]])

section \<open>From one state to a later one\<close>

inductive server_run :: "('c, 'k, 'd, 'x) server_libs \<Rightarrow> 'k ExtraConfig \<Rightarrow> ('d, 'x) server \<Rightarrow> nat \<Rightarrow>
    ('d, 'x) server \<Rightarrow> bool" for libs ex s where
  here: "server_run libs ex s 0 s"
| onward: "server_run libs ex s k t \<Longrightarrow> server_step libs ex t u \<Longrightarrow> server_run libs ex s (Suc k) u"

lemma server_run_reach: "server_run libs ex s k t \<Longrightarrow> server_reach libs ex m0 n s \<Longrightarrow> server_reach libs ex m0 (n + k) t"
  by (induction rule: server_run.induct) (auto intro: server_reach.further)

lemma server_run_inv:
  assumes "server_run libs ex s k t" and "server_inv T libs ex n s"
    and "reloads_by_name libs ex" and "distinct (map wc_Name (ex_Workspaces ex))"
  shows "server_inv T libs ex (n + 3 * k) t"
  using assms(1)
proof induction
  case here
  with assms(2) show ?case by simp
next
  case (onward k t u)
  from server_step_inv[OF onward(2,3) assms(3,4)] show ?case by (simp add: algebra_simps)
qed

text \<open>
  The key of the merged view tells views apart: while it reads the same, whatever happened in between,
  the workspaces serve what they did.
\<close>

lemma note_view:
  assumes "manager_inv {} libs ex n m"
  shows "manager_inv {((rs_generation (route_of m), rt_revision (mg_router m)), rs_view (route_of m))} libs ex n m"
proof -
  have "behind n 0 0 (rs_generation (route_of m), rt_revision (mg_router m)) (route_of m)" by (simp add: behind_def)
  then have "entry_ok n (route_of m) (rs_generation (route_of m), rt_revision (mg_router m)) (rs_view (route_of m))"
    unfolding entry_ok_def key_ok_def by blast
  with assms show ?thesis by (simp add: manager_inv_def routes_ok_def)
qed

lemma same_key_same_view:
  assumes inv: "server_inv {} libs ex n s" and run: "server_run libs ex s k t" and "n + 3 * k < 2 ^ 64"
    and "reloads_by_name libs ex" and "distinct (map wc_Name (ex_Workspaces ex))"
    and "rt_revision (mg_router (sv_manager t)) = rt_revision (mg_router (sv_manager s))"
    and "Generation (mg_store (sv_manager t)) (mg_router (sv_manager t)) =
      Generation (mg_store (sv_manager s)) (mg_router (sv_manager s))"
  shows "merge_all (mg_store (sv_manager t)) (routed (sv_manager t)) =
    merge_all (mg_store (sv_manager s)) (routed (sv_manager s))"
proof -
  let ?m = "sv_manager s" and ?m' = "sv_manager t"
  let ?k = "(rs_generation (route_of ?m), rt_revision (mg_router ?m))"
  have "server_inv {(?k, rs_view (route_of ?m))} libs ex n s" using inv note_view[of libs ex n ?m] unfolding server_inv_def by blast
  from server_run_inv[OF run this assms(4,5)] have e: "entry_ok (n + 3 * k) (route_of ?m') ?k (rs_view (route_of ?m))"
    by (simp add: server_inv_def manager_inv_def routes_ok_def)
  have "?k = (rs_generation (route_of ?m'), rt_revision (rs_router (route_of ?m')))"
    using assms(6,7) by (simp add: rs_generation_def)
  with e obtain d d' where b: "behind (n + 3 * k) d d' (rs_generation (route_of ?m'), rt_revision (rs_router (route_of ?m'))) (route_of ?m')"
    and v: "d = 0 \<and> d' = 0 \<and> quiet (route_of ?m') \<longrightarrow> rs_view (route_of ?m) = rs_view (route_of ?m')"
    by (auto simp: entry_ok_def key_ok_def)
  from behind_same_key[OF b assms(3)] v show ?thesis by (simp add: rs_view_def)
qed

section \<open>Before anything is served\<close>

text \<open>
  Until \<open>start\<close> has routed the workspaces, the router is empty, and an empty router counts as synced. A
  change that runs then -- an election won early, or the loop of a workspace launched before the last
  one -- and succeeds withdraws every APIService that spillway manages.
\<close>

lemma early_change_withdraws:
  assumes inv: "server_inv T libs ex k s" and k: "k < 2 ^ 64" and phase: "sv_phase s = Prepared"
    and rg: "sw_registrar w = Some rg" and lead: "leads (rg_leader rg)"
    and laws: "store_laws (sl_aggregator libs) contents"
    and orders: "sl_version_order libs {} = []" "sl_name_order libs {} = []"
    and round: "reconcile_services (sl_read_file libs (sw_outside w)) (sl_aggregator libs)
      \<lparr>sc_Snapshot = fst (router_Snapshot (mg_store (sv_manager s)) (mg_router (sv_manager s))),
       sc_HasSynced = router_HasSynced (mg_store (sv_manager s)) (mg_router (sv_manager s))\<rparr>
      (sl_version_order libs {}) (sl_name_order libs {}) rg (sw_outside w) = ((None, mine), rg', x')"
  shows "sc_HasSynced \<lparr>sc_Snapshot = fst (router_Snapshot (mg_store (sv_manager s)) (mg_router (sv_manager s))),
       sc_HasSynced = router_HasSynced (mg_store (sv_manager s)) (mg_router (sv_manager s))\<rparr>"
    and "fst (router_Snapshot (mg_store (sv_manager s)) (mg_router (sv_manager s))) = empty_snapshot"
    and "contents x' n = settled (rg_options rg) None (contents (sw_outside w) n)"
proof -
  have m: "manager_inv T libs ex k (sv_manager s)" and r: "routed (sv_manager s) = []"
    using inv phase by (simp_all add: server_inv_def)
  show synced: "sc_HasSynced \<lparr>sc_Snapshot = fst (router_Snapshot (mg_store (sv_manager s)) (mg_router (sv_manager s))),
       sc_HasSynced = router_HasSynced (mg_store (sv_manager s)) (mg_router (sv_manager s))\<rparr>"
    by (simp add: router_HasSynced_def r)
  show "fst (router_Snapshot (mg_store (sv_manager s)) (mg_router (sv_manager s))) = empty_snapshot"
    using view_is_merged[OF m k] by (simp add: r router_Snapshot_def case_prod_beta merge_all_def)
  obtain ca fgn w1 wanted warned existing w2 errs0 mine0 w3 where written:
      "caBundle (sl_read_file libs (sw_outside w)) (rg_options rg) = Ok ca"
      "foreign (rg_options rg) (sl_aggregator libs) (sw_outside w) = (Ok fgn, w1)"
      "wanted_services (rg_options rg) ca fgn (sl_version_order libs {}) (Map.empty, rg_warned rg) = (wanted, warned)"
      "ag_List (sl_aggregator libs) w1 = (Ok existing, w2)"
      "sync_existing (rg_options rg) (sl_aggregator libs) wanted existing ([], 0, w2) = (errs0, mine0, w3)"
      "create_missing (sl_aggregator libs) wanted (as_Name ` set existing) (sl_name_order libs {}) (errs0, mine0, w3) =
        ([], mine, x')"
    by (rule successful_round[OF round lead synced])
  have none: "wanted = Map.empty" using written(3) orders(1) by simp
  from round_settles[OF laws written(2-6)] show "contents x' n = settled (rg_options rg) None (contents (sw_outside w) n)"
    by (simp add: none)
qed

end
