(* ===== verification/Requests.thy ===== *)
theory Requests
  imports Server_Life
begin

text \<open>
  A request from the server's mux to the workspace and back: the paths \<open>New\<close> installs its handlers
  under (\<open>apiserver.go\<close>, \<open>install\<close> of \<open>discovery.go\<close> and \<open>openapi.go\<close>), the discovery handler, the proxy,
  and the transport, over the state of a running server. The mux itself, the upgrade aware handler the
  proxy hands a request to and the codecs are fields of \<open>serving_libs\<close>. A request is one turn here; a slow one may be interleaved with anything, which the
  step \<open>proxied\<close> of \<open>Server_Life\<close> covers, and this turn is a run of such steps.
\<close>

section \<open>Paths\<close>

datatype endpoint =
    DiscoveryEndpoint
  | OpenAPIV2
  | OpenAPIV3Index
  | OpenAPIV3Document
  | HealthOfAll
  | HealthOf string

datatype pattern = Exactly string | Under string

fun covers :: "pattern \<Rightarrow> string \<Rightarrow> bool" where
  "covers (Exactly p) path \<longleftrightarrow> path = p"
| "covers (Under p) path \<longleftrightarrow> has_prefix path p"

definition discovery_install :: "(pattern \<times> endpoint) list" where
  "discovery_install = [(Under apis_prefix, DiscoveryEndpoint)]"

definition openapi_install :: "(pattern \<times> endpoint) list" where
  "openapi_install =
     [(Exactly ''/openapi/v2'', OpenAPIV2), (Exactly ''/openapi/v3'', OpenAPIV3Index),
      (Under spec_prefix, OpenAPIV3Document)]"

text \<open>\<open>InstallPathHandler\<close> over the group checks: the path of all of them, and one below it for each.\<close>

definition health_install :: "string list \<Rightarrow> (pattern \<times> endpoint) list" where
  "health_install checks =
     (if checks = [] then []
      else (Exactly GroupHealthPath, HealthOfAll) #
           map (\<lambda>g. (Exactly (GroupHealthPath @ slash # g), HealthOf g)) checks)"

definition server_paths :: "'k ExtraConfig \<Rightarrow> (pattern \<times> endpoint) list" where
  "server_paths ex = discovery_install @ openapi_install @ health_install (checked_groups (ex_Workspaces ex))"

text \<open>
  What the mux promises: it dispatches to an entry only what its pattern covers, and to one of the
  entries whatever some pattern covers, an exact one before a prefix.
\<close>

type_synonym path_mux = "(pattern \<times> endpoint) list \<Rightarrow> string \<Rightarrow> endpoint option"

definition mux_laws :: "path_mux \<Rightarrow> bool" where
  "mux_laws mux \<longleftrightarrow>
     (\<forall>table path.
        (\<forall>e. mux table path = Some e \<longrightarrow> (\<exists>p. (p, e) \<in> set table \<and> covers p path)) \<and>
        (\<forall>p e. (p, e) \<in> set table \<longrightarrow> covers p path \<longrightarrow> mux table path \<noteq> None) \<and>
        (\<forall>e. (Exactly path, e) \<in> set table \<longrightarrow> (\<exists>e'. mux table path = Some e' \<and> (Exactly path, e') \<in> set table)))"

section \<open>Handling a request\<close>

record serving_libs =
  vl_mux :: path_mux
  vl_decode :: "string \<Rightarrow> k8s_object option"
  vl_encode :: "k8s_object \<Rightarrow> (string, string) result"
  vl_marshal :: "ns_object \<Rightarrow> (string, string) result"
  vl_outgoing :: "proxied \<Rightarrow> http_request"

datatype reply =
    GroupReply api_group
  | ResourcesReply group_version "api_resource list"
  | ErrorReply int
  | DeniedReply admission_error
  | Relayed http_response
  | Elsewhere "endpoint option"

text \<open>The discovery handler, who backs a group being its address: a pointer to its proxy.\<close>

definition address_handler :: "('p store \<times> router, addr) discoveryHandler" where
  "address_handler =
     \<lparr>dh_view = (\<lambda>s. fst (router_Snapshot (fst s) (snd s))),
      dh_owns = Some (\<lambda>s g. router_Owns (fst s) (snd s) g),
      dh_proxy = Some (\<lambda>s g. fst (servingFor (fst s) (snd s) g))\<rparr>"

definition writeGroupNotFound :: reply where "writeGroupNotFound = ErrorReply 404"
definition notImplemented :: reply where "notImplemented = ErrorReply 501"

text \<open>\<open>proxyResponder\<close>: a failure of the transport is an unavailable service.\<close>

definition transport_reply :: "(transport_error, http_response) result \<Rightarrow> reply" where
  "transport_reply r = (case r of Err _ \<Rightarrow> ErrorReply 503 | Ok resp \<Rightarrow> Relayed resp)"

definition refusal_reply :: "refusal \<Rightarrow> reply" where
  "refusal_reply r =
     (case refusal_status r of
        Some code \<Rightarrow> ErrorReply code
      | None \<Rightarrow> (case r of NotAdmitted e \<Rightarrow> DeniedReply e | _ \<Rightarrow> ErrorReply 500))"

definition route_request :: "serving_libs \<Rightarrow> 'k ExtraConfig \<Rightarrow> ('d, 'x) server_manager \<Rightarrow> string \<Rightarrow> (reply, addr) result" where
  "route_request sv ex m path =
     (let s = (mg_store m, mg_router m) in
      case vl_mux sv (server_paths ex) path of
        Some DiscoveryEndpoint \<Rightarrow>
          (case serve address_handler s s s path of
             AnswerGroup ag \<Rightarrow> Err (GroupReply ag)
           | AnswerResources gv rs \<Rightarrow> Err (ResourcesReply gv rs)
           | GroupNotFound _ \<Rightarrow> Err writeGroupNotFound
           | NotProxied _ _ \<Rightarrow> Err notImplemented
           | Forwarded a \<Rightarrow> Ok a)
      | e \<Rightarrow> Err (Elsewhere e))"

text \<open>What a workspace's proxy finds when it is asked, and what it leaves of it.\<close>

definition at_workspace :: "addr \<Rightarrow> ('d, 'x) server_manager \<Rightarrow> 'x workspace_world" where
  "at_workspace a m =
     (let ws = mg_store m a in
      \<lparr>xw_cache = ws_cache ws, xw_credentials = wp_credentials (ws_proxy ws), xw_breaker = wp_breaker (ws_proxy ws),
       xw_conversion = fst (wp_conversion (ws_proxy ws)), xw_metrics = mg_metrics m, xw_outside = sw_outside (mg_world m)\<rparr>)"

definition left_workspace :: "addr \<Rightarrow> (namespaceMirror \<times> 'x workspace_world namespace_backend) option \<Rightarrow>
    'x workspace_world \<Rightarrow> ('d, 'x) server_manager \<Rightarrow> ('d, 'x) server_manager" where
  "left_workspace a namespaces w m =
     world_moved (xw_outside w)
       (proxy_moved a (xw_breaker w, namespaces, (xw_conversion w, snd (wp_conversion (ws_proxy (mg_store m a)))))
          (xw_metrics w) m)"

text \<open>The proxy's environment: the mirror's side channel is the workspace's own.\<close>

definition proxy_env_of :: "('c, 'k, 'd, 'x) server_libs \<Rightarrow> serving_libs \<Rightarrow> 'x workspace_proxy workspace \<Rightarrow>
    'x workspace_world proxy_env" where
  "proxy_env_of libs sv ws =
     \<lparr>pe_decode = vl_decode sv, pe_encode = vl_encode sv, pe_parse_gv = sl_ParseGroupVersion libs,
      pe_namespaces =
        (case wp_namespaces (ws_proxy ws) of
           Some (_, backend) \<Rightarrow> backend
         | None \<Rightarrow>
             (let ok = wl_new_request_ok (sl_workspaces libs);
                  rt = workspace_transport (sl_workspaces libs) (wp_transport (ws_proxy ws))
              in \<lparr>nb_fetch = fetch ok rt (ws_backend ws), nb_create = create ok rt (ws_backend ws)\<rparr>)),
      pe_marshal = vl_marshal sv, pe_now = (\<lambda>w. wl_now (sl_workspaces libs) (xw_outside w))\<rparr>"

definition admit_request :: "('c, 'k, 'd, 'x) server_libs \<Rightarrow> serving_libs \<Rightarrow> 'x workspace_proxy workspace \<Rightarrow>
    http_request \<Rightarrow> 'x workspace_world \<Rightarrow> outcome \<times> (namespaceMirror option \<times> 'x workspace_world)" where
  "admit_request libs sv ws req w =
     ServeHTTP (proxy_env_of libs sv ws) (wp_proxy (ws_proxy ws)) req (map_option fst (wp_namespaces (ws_proxy ws)), w)"

text \<open>What is handed over goes over the same transport as the side requests before it.\<close>

definition send_request :: "('c, 'k, 'd, 'x) server_libs \<Rightarrow> serving_libs \<Rightarrow> 'x workspace_proxy \<Rightarrow> proxied \<Rightarrow>
    'x workspace_world \<Rightarrow> (transport_error, http_response) result \<times> 'x workspace_world" where
  "send_request libs sv p px w = workspace_transport (sl_workspaces libs) (wp_transport p) w (vl_outgoing sv px)"

definition mirror_moved :: "(namespaceMirror \<times> 'w namespace_backend) option \<Rightarrow> namespaceMirror option \<Rightarrow>
    (namespaceMirror \<times> 'w namespace_backend) option" where
  "mirror_moved namespaces mirror =
     map_option (\<lambda>nb. (case mirror of None \<Rightarrow> fst nb | Some m \<Rightarrow> m, snd nb)) namespaces"

definition forward_request :: "('c, 'k, 'd, 'x) server_libs \<Rightarrow> serving_libs \<Rightarrow> addr \<Rightarrow> http_request \<Rightarrow>
    ('d, 'x) server_manager \<Rightarrow> reply \<times> ('d, 'x) server_manager" where
  "forward_request libs sv a req m =
     (let ws = mg_store m a; p = ws_proxy ws in
      case admit_request libs sv ws req (at_workspace a m) of
        (outcome, (mirror, w)) \<Rightarrow>
          let namespaces = mirror_moved (wp_namespaces p) mirror in
          (case outcome of
             Refused r \<Rightarrow> (refusal_reply r, left_workspace a namespaces w m)
           | Handed px \<Rightarrow>
               (case send_request libs sv p px w of
                  (answer, w') \<Rightarrow> (transport_reply answer, left_workspace a namespaces w' m))))"

definition handle_request :: "('c, 'k, 'd, 'x) server_libs \<Rightarrow> serving_libs \<Rightarrow> 'k ExtraConfig \<Rightarrow> http_request \<Rightarrow>
    ('d, 'x) server_manager \<Rightarrow> reply \<times> ('d, 'x) server_manager" where
  "handle_request libs sv ex req m =
     (case route_request sv ex m (url_path (rq_url req)) of
        Err (Elsewhere e) \<Rightarrow> (Elsewhere e, m)
      | Err reply \<Rightarrow> (reply, router_read m)
      | Ok a \<Rightarrow> forward_request libs sv a req (router_read m))"

section \<open>Where a request is routed\<close>

lemma address_handler_simps [simp]:
  "dh_view address_handler (st, r) = fst (router_Snapshot st r)"
  "dh_owns address_handler = Some (\<lambda>s g. router_Owns (fst s) (snd s) g)"
  "proxyTo address_handler (st, r) g = fst (servingFor st r g)"
  by (simp_all add: address_handler_def proxyTo_def)

lemma discovery_path: "(p, DiscoveryEndpoint) \<in> set (server_paths ex) \<longleftrightarrow> p = Under apis_prefix"
  by (auto simp: server_paths_def discovery_install_def openapi_install_def health_install_def split: if_splits)

lemma only_discovery_under_apis:
  assumes "(p, e) \<in> set (server_paths ex)" and "covers p (apis_prefix @ x)"
  shows "e = DiscoveryEndpoint"
  using assms
  by (auto simp: server_paths_def discovery_install_def openapi_install_def health_install_def apis_prefix_def
      spec_prefix_def has_prefix_def GroupHealthPath_def split: if_splits)

lemma mux_discovery:
  assumes "mux_laws mux"
  shows "mux (server_paths ex) path = Some DiscoveryEndpoint \<longleftrightarrow> has_prefix path apis_prefix"
proof
  assume "mux (server_paths ex) path = Some DiscoveryEndpoint"
  with assms obtain p where "(p, DiscoveryEndpoint) \<in> set (server_paths ex)" "covers p path"
    unfolding mux_laws_def by blast
  then show "has_prefix path apis_prefix" by (simp add: discovery_path)
next
  assume h: "has_prefix path apis_prefix"
  then obtain x where x: "path = apis_prefix @ x" by (auto simp: has_prefix_iff prefix_def)
  have "(Under apis_prefix, DiscoveryEndpoint) \<in> set (server_paths ex)" by (simp add: discovery_path)
  with assms h have "mux (server_paths ex) path \<noteq> None" unfolding mux_laws_def by (metis covers.simps(2))
  then obtain e where e: "mux (server_paths ex) path = Some e" by blast
  with assms obtain p where "(p, e) \<in> set (server_paths ex)" "covers p path" unfolding mux_laws_def by blast
  with only_discovery_under_apis[of p e ex x] e show "mux (server_paths ex) path = Some DiscoveryEndpoint"
    by (simp add: x)
qed

lemma view_resources:
  assumes "manager_inv T libs ex k m" and "k < 2 ^ 64"
  shows "sn_Resources (fst (router_Snapshot (mg_store m) (mg_router m))) (GV g v) =
    (case first_serving (mg_store m) (routed m) g of
       None \<Rightarrow> None | Some a \<Rightarrow> sn_Resources (rc_snapshot (ws_cache (mg_store m a))) (GV g v))"
proof -
  have "fst (router_Snapshot (mg_store m) (mg_router m)) = fst (merge_all (mg_store m) (routed m))"
    using view_is_merged[OF assms] by (simp add: router_Snapshot_def split_beta) (metis fst_conv)
  then show ?thesis by (simp add: merge_all_resources)
qed

lemma serving_is_owned:
  assumes "manager_inv T libs ex k m" and "first_serving (mg_store m) (routed m) g = Some a"
  shows "router_Owns (mg_store m) (mg_router m) g"
proof -
  from first_serving_serves[OF assms(2)] have a: "g \<in> ServedGroups (ws_cache (mg_store m a))" "a \<in> set (routed m)" by auto
  with assms(1) have "Matches (Some (ws_groups (mg_store m a))) g"
    by (auto simp: manager_inv_def well_built_def well_owned_def)
  with a(2) have "List.find (\<lambda>a. Matches (Some (ws_groups (mg_store m a))) g) (routed m) \<noteq> None"
    by (auto simp: find_None_iff)
  then show ?thesis by (simp add: router_Owns_def configuredFor_def)
qed

lemma routed_exactly:
  assumes inv: "manager_inv T libs ex k m" "k < 2 ^ 64" and mux: "mux_laws (vl_mux sv)"
  shows "route_request sv ex m path = Ok a \<longleftrightarrow>
    (\<exists>g v rest. path = apis_prefix @ g @ slash # v @ slash # rest \<and> g \<noteq> [] \<and> slash \<notin> set g \<and> v \<noteq> [] \<and>
       slash \<notin> set v \<and> rest \<noteq> [] \<and> first_serving (mg_store m) (routed m) g = Some a \<and>
       sn_Resources (rc_snapshot (ws_cache (mg_store m a))) (GV g v) \<noteq> None)"
    (is "?l \<longleftrightarrow> ?r")
proof
  let ?s = "(mg_store m, mg_router m)"
  assume l: ?l
  then have d: "vl_mux sv (server_paths ex) path = Some DiscoveryEndpoint" and
    f: "serve address_handler ?s ?s ?s path = Forwarded a"
    by (auto simp: route_request_def Let_def split: option.splits endpoint.splits discovery_answer.splits)
  from d mux_discovery[OF mux] obtain x where x: "path = apis_prefix @ x" by (auto simp: has_prefix_iff prefix_def)
  from serve_forwarded[OF f[unfolded x]] obtain g v rest where
    p: "x = g @ slash # v @ slash # rest" "g \<noteq> []" "slash \<notin> set g" "v \<noteq> []" "slash \<notin> set v" "rest \<noteq> []"
    and r: "sn_Resources (dh_view address_handler ?s) (GV g v) \<noteq> None" "proxyTo address_handler ?s g = Some a" by metis
  have "first_serving (mg_store m) (routed m) g = Some a" using r(2) serving_is_first(1)[OF inv, of g] by simp
  moreover from this r(1) have "sn_Resources (rc_snapshot (ws_cache (mg_store m a))) (GV g v) \<noteq> None"
    by (simp add: view_resources[OF inv])
  ultimately show ?r using p x by blast
next
  let ?s = "(mg_store m, mg_router m)"
  assume ?r
  then obtain g v rest where p: "path = apis_prefix @ g @ slash # v @ slash # rest" "g \<noteq> []" "slash \<notin> set g"
    "v \<noteq> []" "slash \<notin> set v" "rest \<noteq> []" and f: "first_serving (mg_store m) (routed m) g = Some a"
    and r: "sn_Resources (rc_snapshot (ws_cache (mg_store m a))) (GV g v) \<noteq> None" by blast
  have "serve address_handler ?s ?s ?s path = Forwarded a"
    unfolding p(1)
    by (rule serve_below[OF p(2-6)])
       (use f r serving_is_owned[OF inv(1) f] serving_is_first(1)[OF inv, of g] view_resources[OF inv, of g v] in simp_all)
  moreover have "vl_mux sv (server_paths ex) path = Some DiscoveryEndpoint"
    by (simp add: mux_discovery[OF mux] p(1))
  ultimately show ?l by (simp add: route_request_def)
qed

text \<open>While a server serves, who serves a group also proxies its requests: nothing is refused as not implemented.\<close>

lemma never_not_implemented:
  assumes inv: "manager_inv T libs ex k m" "k < 2 ^ 64" and mux: "mux_laws (vl_mux sv)"
  shows "route_request sv ex m path \<noteq> Err notImplemented"
proof
  let ?s = "(mg_store m, mg_router m)"
  assume "route_request sv ex m path = Err notImplemented"
  then obtain gv res where n: "serve address_handler ?s ?s ?s path = NotProxied gv res"
    by (auto simp: route_request_def Let_def writeGroupNotFound_def notImplemented_def
        split: option.splits endpoint.splits discovery_answer.splits)
  have "\<exists>g v. sn_Resources (dh_view address_handler ?s) (GV g v) \<noteq> None \<and> proxyTo address_handler ?s g = None"
    using n by (auto simp: serve_def serveGroup_def serveUnderGroup_def Let_def split: prod.splits if_splits option.splits)
  with view_resources[OF inv] serving_is_first(1)[OF inv] show False by (auto split: option.splits)
qed

section \<open>A request is a run of the server's steps\<close>

lemma proxied_reach:
  assumes "server_reach libs ex m0 n s"
  shows "server_reach libs ex m0 (Suc (Suc n)) (s\<lparr>sv_manager := world_moved x (proxy_moved a mem mx (sv_manager s))\<rparr>)"
proof -
  let ?t = "s\<lparr>sv_manager := proxy_moved a mem mx (sv_manager s)\<rparr>"
  have "server_reach libs ex m0 (Suc n) ?t" by (rule server_reach.further[OF assms server_step.proxied])
  from server_reach.further[OF this server_step.outside, of x] show ?thesis by simp
qed

lemma forward_reach:
  assumes "server_reach libs ex m0 n s"
  shows "server_reach libs ex m0 (Suc (Suc n)) (s\<lparr>sv_manager := snd (forward_request libs sv a req (sv_manager s))\<rparr>)"
proof -
  let ?p = "ws_proxy (mg_store (sv_manager s) a)"
  obtain outcome mirror w where adm: "admit_request libs sv (mg_store (sv_manager s) a) req (at_workspace a (sv_manager s)) =
      (outcome, (mirror, w))" by (metis surj_pair)
  show ?thesis
  proof (cases outcome)
    case (Refused r)
    with adm show ?thesis using proxied_reach[OF assms] by (simp add: forward_request_def left_workspace_def Let_def)
  next
    case (Handed px)
    obtain answer w' where "send_request libs sv ?p px w = (answer, w')" by (metis surj_pair)
    with adm Handed show ?thesis using proxied_reach[OF assms] by (simp add: forward_request_def left_workspace_def Let_def)
  qed
qed

lemma handle_reach:
  assumes "server_reach libs ex m0 n s"
  shows "\<exists>k. k \<le> 3 \<and> server_reach libs ex m0 (n + k) (s\<lparr>sv_manager := snd (handle_request libs sv ex req (sv_manager s))\<rparr>)"
proof -
  let ?t = "s\<lparr>sv_manager := router_read (sv_manager s)\<rparr>"
  have read: "server_reach libs ex m0 (Suc n) ?t" by (rule server_reach.further[OF assms server_step.requested])
  consider e where "route_request sv ex (sv_manager s) (url_path (rq_url req)) = Err (Elsewhere e)"
    | reply where "route_request sv ex (sv_manager s) (url_path (rq_url req)) = Err reply" "\<And>e. reply \<noteq> Elsewhere e"
    | a where "route_request sv ex (sv_manager s) (url_path (rq_url req)) = Ok a" by (metis obj_sumE)
  then show ?thesis
  proof cases
    case 1
    with assms show ?thesis by (intro exI[of _ 0]) (simp add: handle_request_def)
  next
    case 2
    with read show ?thesis by (intro exI[of _ 1]) (auto simp: handle_request_def split: reply.splits)
  next
    case 3
    with forward_reach[OF read, of sv a req] show ?thesis by (intro exI[of _ 3]) (simp add: handle_request_def eval_nat_numeral)
  qed
qed

section \<open>Where a request ends\<close>

lemma read_same [simp]: "mg_store (router_read m) = mg_store m" "mg_world (router_read m) = mg_world m"
  by (simp_all add: router_read_def)

lemma routed_is_wired:
  assumes "manager_inv T libs ex k m" and "manager_ok m" and "first_serving (mg_store m) (routed m) g = Some a"
  shows "a \<in> mg_live m" "Matches (Some (ws_groups (mg_store m a))) g" "wired (sl_workspaces libs) ex (mg_store m a)"
proof -
  from first_serving_serves[OF assms(3)] have a: "g \<in> ServedGroups (ws_cache (mg_store m a))" "a \<in> set (routed m)" by auto
  with assms(1,2) show "a \<in> mg_live m" "Matches (Some (ws_groups (mg_store m a))) g" "wired (sl_workspaces libs) ex (mg_store m a)"
    by (auto simp: manager_inv_def manager_ok_def well_built_def well_owned_def)
qed

lemma ServeHTTP_sends_there:
  assumes "ServeHTTP env p req st = (Handed px, st')"
  shows "canonicalPath (url_path (rq_url req)) \<and> url_base (px_target px) = url_base (rp_location p) \<and>
    has_prefix (url_path (px_target px)) (url_path (rp_location p)) \<and> rq_url (px_request px) = px_target px \<and>
    rq_authorization (px_request px) = None"
proof -
  obtain mirror w where st: "st = (mirror, w)" by fastforce
  from ServeHTTP_handed[OF assms[unfolded st]] obtain req2 where
    c: "canonicalPath (url_path (rq_url req))" and h: "hand_over p req2 (deadline_for p req) = Handed px" by blast
  from hand_over_handed[OF h] c show ?thesis by (simp add: targetFor_def)
qed

lemma owners_checked:
  assumes "admit_request libs sv ws req w = (Handed px, st')" and "writesObject req"
  shows "\<exists>object body. inspectWrite (vl_decode sv) req = (object, body, None) \<and>
    checkOwnerReferences (sl_ParseGroupVersion libs) object (rp_served (wp_proxy (ws_proxy ws)) w) = None"
  using write_handed[OF assms(1)[unfolded admit_request_def] assms(2)] by (auto simp: proxy_env_of_def)

text \<open>A server that serves, at any moment: what its invariants give.\<close>

lemma reached_invariants:
  assumes "options_Config self_signed read_file unmarshal v fresh0 apply_to clients al auth o1 = Ok (sc, ex)"
    and "new_server ex st0 mx documents x = Ok m0"
    and "server_reach libs ex m0 n s" and "sv_phase s = Serving" and "n < 2 ^ 60"
  shows "manager_inv {} libs ex (3 * n) (sv_manager s)" "manager_ok (sv_manager s)" "Suc (3 * n) < 2 ^ 64" "3 * n < 2 ^ 64"
proof -
  show "manager_inv {} libs ex (3 * n) (sv_manager s)" "manager_ok (sv_manager s)"
    using configured_reach[OF assms(1-3)] assms(4) by (simp_all add: server_inv_def)
  show "Suc (3 * n) < 2 ^ 64" "3 * n < 2 ^ 64" using assms(5) by simp_all
qed

text \<open>
  Where a workspace is: below the address its configuration's kubeconfig names, with credentials loaded
  from that kubeconfig for that address. \<open>configured_at libs c w u\<close> says so of a workspace and the URL \<open>u\<close>.
\<close>

definition configured_at :: "('c, 'x) workspace_libs \<Rightarrow> WorkspaceConfig \<Rightarrow> 'x workspace_proxy workspace \<Rightarrow> parsed_url \<Rightarrow> bool" where
  "configured_at libs c w u \<longleftrightarrow>
     ws_name w = wc_Name c \<and> ws_groups w = wc_APIGroups c \<and> ws_fingerprint w = fingerprint c \<and> pu_Host u \<noteq> [] \<and>
     (\<exists>config. from_kubeconfig (wl_credentials libs) (wc_Kubeconfig c) config \<and>
        wl_ParseURL libs (ce_Host (wl_credentials libs) config) = Ok u \<and>
        cred_home (wl_credentials libs) (wc_Kubeconfig c) (ce_Host (wl_credentials libs) config) (wc_Backend c)
          (wp_credentials (ws_proxy w)))"

lemma wired_configured:
  assumes "wired libs ex w"
  shows "\<exists>c\<in>offered ex. \<exists>u. configured_at libs c w u \<and> rp_location (wp_proxy (ws_proxy w)) = pu_url u"
proof -
  obtain c where c: "c \<in> offered ex" "ws_fingerprint w = fingerprint c" and b: "built_from libs c w"
    using assms by (auto simp: wired_def)
  from b obtain config u where
    "from_kubeconfig (wl_credentials libs) (wc_Kubeconfig c) config"
    "wl_ParseURL libs (ce_Host (wl_credentials libs) config) = Ok u" "pu_Host u \<noteq> []"
    "rp_location (wp_proxy (ws_proxy w)) = pu_url u"
    "cred_home (wl_credentials libs) (wc_Kubeconfig c) (ce_Host (wl_credentials libs) config) (wc_Backend c)
       (wp_credentials (ws_proxy w))"
    unfolding built_from_def by blast
  with c b show ?thesis unfolding configured_at_def built_from_def by blast
qed


section \<open>What a request is answered with\<close>

text \<open>A path below a version says which version.\<close>

lemma cut_unique:
  assumes "a @ (c :: char) # x = b @ c # y" and "c \<notin> set a" and "c \<notin> set b"
  shows "a = b \<and> x = y"
proof -
  have "(a, x, True) = cut c (a @ c # x)" by (rule cut_append[OF assms(2), symmetric])
  also have "\<dots> = (b, y, True)" unfolding assms(1) by (rule cut_append[OF assms(3)])
  finally show ?thesis by simp
qed

lemma version_path_unique:
  assumes "apis_prefix @ g @ slash # v @ slash # rest = apis_prefix @ g' @ slash # v' @ slash # rest'"
    and "slash \<notin> set g" "slash \<notin> set v" "slash \<notin> set g'" "slash \<notin> set v'"
  shows "g' = g \<and> v' = v"
proof -
  from assms(1) have "g @ slash # v @ slash # rest = g' @ slash # v' @ slash # rest'" by simp
  from cut_unique[OF this assms(2,4)] have g: "g = g'" "v @ slash # rest = v' @ slash # rest'" by simp_all
  from cut_unique[OF g(2) assms(3,5)] g(1) show ?thesis by simp
qed

lemma routed_below:
  assumes inv: "manager_inv T libs ex k m" "k < 2 ^ 64" and mux: "mux_laws (vl_mux sv)"
    and p: "g \<noteq> []" "slash \<notin> set g" "v \<noteq> []" "slash \<notin> set v" "rest \<noteq> []"
  shows "(\<exists>a. route_request sv ex m (apis_prefix @ g @ slash # v @ slash # rest) = Ok a) \<longleftrightarrow>
    \<not> (case first_serving (mg_store m) (routed m) g of
        None \<Rightarrow> True | Some a \<Rightarrow> sn_Resources (rc_snapshot (ws_cache (mg_store m a))) (GV g v) = None)"
    (is "?l \<longleftrightarrow> ?r")
proof
  assume ?l
  then obtain a g' v' rest' where "apis_prefix @ g @ slash # v @ slash # rest = apis_prefix @ g' @ slash # v' @ slash # rest'"
    "slash \<notin> set g'" "slash \<notin> set v'" and a: "first_serving (mg_store m) (routed m) g' = Some a"
    "sn_Resources (rc_snapshot (ws_cache (mg_store m a))) (GV g' v') \<noteq> None"
    unfolding routed_exactly[OF inv mux] by blast
  from version_path_unique[OF this(1) p(2,4) this(2,3)] a show ?r by simp
next
  assume ?r
  then obtain a where "first_serving (mg_store m) (routed m) g = Some a"
    "sn_Resources (rc_snapshot (ws_cache (mg_store m a))) (GV g v) \<noteq> None" by (auto split: option.splits)
  with p show ?l
    unfolding routed_exactly[OF inv mux] by (intro exI[of _ a] exI[of _ g] exI[of _ v] exI[of _ rest]) simp
qed

lemma serve_below_answers:
  assumes "g \<noteq> []" "slash \<notin> set g" "v \<noteq> []" "slash \<notin> set v" "rest \<noteq> []"
  shows "(\<exists>f. serve h s1 s2 s3 (apis_prefix @ g @ slash # v @ slash # rest) = Forwarded f) \<or>
    (\<exists>gv r. serve h s1 s2 s3 (apis_prefix @ g @ slash # v @ slash # rest) = NotProxied gv r) \<or>
    serve h s1 s2 s3 (apis_prefix @ g @ slash # v @ slash # rest) = GroupNotFound g"
  using assms by (auto simp: serve_def cut_append serveUnderGroup_def Let_def split: option.splits)

lemma below_not_routed:
  assumes inv: "manager_inv T libs ex k m" "k < 2 ^ 64" and mux: "mux_laws (vl_mux sv)"
    and p: "g \<noteq> []" "slash \<notin> set g" "v \<noteq> []" "slash \<notin> set v" "rest \<noteq> []"
    and none: "\<forall>a. route_request sv ex m (apis_prefix @ g @ slash # v @ slash # rest) \<noteq> Ok a"
  shows "route_request sv ex m (apis_prefix @ g @ slash # v @ slash # rest) = Err writeGroupNotFound"
proof -
  let ?s = "(mg_store m, mg_router m)" and ?path = "apis_prefix @ g @ slash # v @ slash # rest"
  have "vl_mux sv (server_paths ex) ?path = Some DiscoveryEndpoint" by (simp add: mux_discovery[OF mux])
  with serve_below_answers[OF p, of address_handler ?s ?s ?s] none never_not_implemented[OF inv mux, of ?path]
  show ?thesis by (auto simp: route_request_def)
qed

lemma refusal_codes: "refusal_reply r = ErrorReply code \<Longrightarrow> code \<in> {400, 422, 500}"
  by (cases r) (auto simp: refusal_reply_def refusal_status_def split: admission_error.splits)

lemma refusal_shape [simp]: "refusal_reply r \<noteq> Relayed resp" "refusal_reply r \<noteq> Elsewhere e"
  by (cases r; simp add: refusal_reply_def refusal_status_def split: admission_error.splits)+

lemmas refusal_shapes = refusal_shape refusal_shape[symmetric]

text \<open>What forwarding answers with: a refusal, kcp's own answer, or that the workspace is unavailable.\<close>

lemma forward_answers:
  assumes "forward_request libs sv a req m = (reply, m')"
  shows "(\<exists>r. reply = refusal_reply r) \<or> reply = ErrorReply 503 \<or>
    (\<exists>resp px mirror w. reply = Relayed resp \<and>
       admit_request libs sv (mg_store m a) req (at_workspace a m) = (Handed px, (mirror, w)) \<and>
       fst (send_request libs sv (ws_proxy (mg_store m a)) px w) = Ok resp)"
  using assms
  by (auto simp: forward_request_def Let_def transport_reply_def split: prod.splits outcome.splits sum.splits)

lemma handle_Elsewhere:
  assumes mux: "mux_laws (vl_mux sv)" and "handle_request libs sv ex req m = (Elsewhere e, m')"
  shows "\<not> has_prefix (url_path (rq_url req)) apis_prefix \<and> m' = m"
proof -
  let ?path = "url_path (rq_url req)"
  have "route_request sv ex m ?path = Err (Elsewhere e) \<and> m' = m"
  proof (cases "route_request sv ex m ?path")
    case (Inl r)
    with assms(2) show ?thesis by (auto simp: handle_request_def split: reply.splits)
  next
    case (Inr a)
    with assms(2) have "forward_request libs sv a req (router_read m) = (Elsewhere e, m')" by (simp add: handle_request_def)
    from forward_answers[OF this] show ?thesis by (auto simp: refusal_shapes)
  qed
  moreover from this have "vl_mux sv (server_paths ex) ?path \<noteq> Some DiscoveryEndpoint"
    by (auto simp: route_request_def Let_def writeGroupNotFound_def notImplemented_def
        split: option.splits endpoint.splits discovery_answer.splits)
  ultimately show ?thesis using mux_discovery[OF mux] by blast
qed

lemma handle_error_code:
  assumes inv: "manager_inv T libs ex k m" "k < 2 ^ 64" and mux: "mux_laws (vl_mux sv)"
    and h: "handle_request libs sv ex req m = (ErrorReply code, m')"
  shows "code \<in> {400, 404, 422, 500, 503} \<and> (code = 404 \<longleftrightarrow> route_request sv ex m (url_path (rq_url req)) = Err writeGroupNotFound)"
proof (cases "route_request sv ex m (url_path (rq_url req))")
  case (Inl r)
  with h have r: "r = ErrorReply code" by (auto simp: handle_request_def split: reply.splits)
  have "r = writeGroupNotFound \<or> r = notImplemented"
    using Inl r by (auto simp: route_request_def Let_def split: option.splits endpoint.splits discovery_answer.splits)
  moreover have "r \<noteq> notImplemented" using never_not_implemented[OF inv mux, of "url_path (rq_url req)"] Inl by auto
  ultimately show ?thesis using Inl r by (auto simp: writeGroupNotFound_def)
next
  case (Inr a)
  with h have "forward_request libs sv a req (router_read m) = (ErrorReply code, m')" by (simp add: handle_request_def)
  from forward_answers[OF this] have "(\<exists>r. ErrorReply code = refusal_reply r) \<or> code = 503" by auto
  then have "code \<in> {400, 422, 500, 503}" using refusal_codes[OF sym] by blast
  with Inr show ?thesis by auto
qed

lemma handle_relayed:
  assumes "handle_request libs sv ex req m = (Relayed resp, m')"
  shows "\<exists>a px mirror w. route_request sv ex m (url_path (rq_url req)) = Ok a \<and>
     admit_request libs sv (mg_store m a) req (at_workspace a m) = (Handed px, (mirror, w)) \<and>
     fst (send_request libs sv (ws_proxy (mg_store m a)) px w) = Ok resp"
proof (cases "route_request sv ex m (url_path (rq_url req))")
  case (Inl r)
  with assms show ?thesis
    by (auto simp: handle_request_def route_request_def Let_def writeGroupNotFound_def notImplemented_def
        split: reply.splits option.splits endpoint.splits discovery_answer.splits)
next
  case (Inr a)
  with assms have "forward_request libs sv a req (router_read m) = (Relayed resp, m')" by (simp add: handle_request_def)
  moreover have "at_workspace a (router_read m) = at_workspace a m" by (simp add: at_workspace_def router_read_def)
  ultimately show ?thesis using forward_answers[of libs sv a req "router_read m"] Inr by (fastforce simp: refusal_shapes)
qed

lemma answered_missing:
  assumes "manager_inv {} libs ex n m" and "n < 2 ^ 64" and "mux_laws (vl_mux sv)"
    and "handle_request libs sv ex req m = (reply, m')"
    and "url_path (rq_url req) = apis_prefix @ g @ slash # w @ slash # rest"
    and "g \<noteq> []" "slash \<notin> set g" "w \<noteq> []" "slash \<notin> set w" "rest \<noteq> []"
  shows "reply = ErrorReply 404 \<longleftrightarrow> (case first_serving (mg_store m) (routed m) g of
      None \<Rightarrow> True | Some a \<Rightarrow> sn_Resources (rc_snapshot (ws_cache (mg_store m a))) (GV g w) = None)"
proof -
  have "reply = ErrorReply 404 \<longleftrightarrow> route_request sv ex m (url_path (rq_url req)) = Err writeGroupNotFound"
  proof
    assume "reply = ErrorReply 404"
    with handle_error_code[OF assms(1-3), of req 404 m'] assms(4)
    show "route_request sv ex m (url_path (rq_url req)) = Err writeGroupNotFound" by simp
  next
    assume "route_request sv ex m (url_path (rq_url req)) = Err writeGroupNotFound"
    with assms(4) show "reply = ErrorReply 404" by (simp add: handle_request_def writeGroupNotFound_def)
  qed
  also have "\<dots> \<longleftrightarrow> \<not> (\<exists>a. route_request sv ex m (url_path (rq_url req)) = Ok a)"
    using below_not_routed[OF assms(1-3,6-10)] assms(5) by auto
  finally show ?thesis unfolding assms(5) routed_below[OF assms(1-3,6-10)] by simp
qed

text \<open>A path below \<open>/apis/\<close> whose first segment is \<open>g\<close>.\<close>

definition asks_about :: "string \<Rightarrow> string \<Rightarrow> bool" where
  "asks_about path g \<longleftrightarrow>
     has_prefix path apis_prefix \<and> g \<noteq> [] \<and> slash \<notin> set g \<and> fst (cut slash (trim_prefix path apis_prefix)) = g"

text \<open>What a reply comes from.\<close>

lemma handle_cases:
  assumes "handle_request libs sv ex req m = (reply, m')"
  obtains (unrouted) "route_request sv ex m (url_path (rq_url req)) = Err reply"
  | (refused) a r st where "route_request sv ex m (url_path (rq_url req)) = Ok a"
      and "admit_request libs sv (mg_store m a) req (at_workspace a m) = (Refused r, st)" and "reply = refusal_reply r"
  | (sent) a px mirror w answer where "route_request sv ex m (url_path (rq_url req)) = Ok a"
      and "admit_request libs sv (mg_store m a) req (at_workspace a m) = (Handed px, (mirror, w))"
      and "fst (send_request libs sv (ws_proxy (mg_store m a)) px w) = answer" and "reply = transport_reply answer"
proof (cases "route_request sv ex m (url_path (rq_url req))")
  case (Inl r)
  with assms that(1) show thesis by (auto simp: handle_request_def split: reply.splits)
next
  case (Inr a)
  have at: "at_workspace a (router_read m) = at_workspace a m" by (simp add: at_workspace_def router_read_def)
  from Inr assms have f: "forward_request libs sv a req (router_read m) = (reply, m')" by (simp add: handle_request_def)
  obtain outcome mirror w where adm: "admit_request libs sv (mg_store m a) req (at_workspace a m) = (outcome, (mirror, w))"
    by (metis prod_cases3)
  show thesis
  proof (cases outcome)
    case (Refused r)
    with f adm at that(2)[OF Inr] show thesis by (simp add: forward_request_def Let_def)
  next
    case (Handed px)
    with f adm at that(3)[OF Inr, of px mirror w] show thesis
      by (auto simp: forward_request_def Let_def split: prod.splits)
  qed
qed

lemma refusal_denied: "refusal_reply r = DeniedReply e \<Longrightarrow> r = NotAdmitted e"
  by (cases r) (auto simp: refusal_reply_def refusal_status_def split: admission_error.splits)

lemma refusal_kind [simp]: "refusal_reply r \<noteq> GroupReply ag" "refusal_reply r \<noteq> ResourcesReply gv rs"
  by (cases r; simp add: refusal_reply_def refusal_status_def split: admission_error.splits)+

lemma transport_kind [simp]:
  "transport_reply x = GroupReply ag \<longleftrightarrow> False" "transport_reply x = ResourcesReply gv rs \<longleftrightarrow> False"
  "transport_reply x = DeniedReply e \<longleftrightarrow> False" "transport_reply x = Elsewhere f \<longleftrightarrow> False"
  "transport_reply x = Relayed resp \<longleftrightarrow> x = Ok resp" "transport_reply x = ErrorReply code \<longleftrightarrow> code = 503 \<and> (\<exists>e. x = Err e)"
  by (auto simp: transport_reply_def split: sum.splits)

lemma view_groups:
  assumes "manager_inv T libs ex k m" and "k < 2 ^ 64"
  shows "sn_Groups (fst (router_Snapshot (mg_store m) (mg_router m))) g =
    (case first_serving (mg_store m) (routed m) g of
       None \<Rightarrow> None | Some a \<Rightarrow> sn_Groups (rc_snapshot (ws_cache (mg_store m a))) g)"
proof -
  have "fst (router_Snapshot (mg_store m) (mg_router m)) = fst (merge_all (mg_store m) (routed m))"
    using view_is_merged[OF assms] by (simp add: router_Snapshot_def split_beta) (metis fst_conv)
  then show ?thesis by (simp add: merge_all_groups)
qed

text \<open>Discovery below \<open>/apis/\<close> answers with what the view holds, under the path that names it.\<close>

lemma serve_answers:
  shows "serve address_handler (st, r) (st, r) (st, r) path = AnswerGroup ag \<Longrightarrow>
      \<exists>g. g \<noteq> [] \<and> slash \<notin> set g \<and> fst (cut slash (trim_prefix path apis_prefix)) = g \<and>
        sn_Groups (fst (router_Snapshot st r)) g = Some ag"
    and "serve address_handler (st, r) (st, r) (st, r) path = AnswerResources gv rs \<Longrightarrow>
      gv_Group gv \<noteq> [] \<and> slash \<notin> set (gv_Group gv) \<and> fst (cut slash (trim_prefix path apis_prefix)) = gv_Group gv \<and>
        sn_Resources (fst (router_Snapshot st r)) gv = Some rs"
  using cut_word_before[of slash "trim_prefix path apis_prefix"]
  by (auto simp: serve_def serveGroup_def serveUnderGroup_def Let_def split: prod.splits if_splits option.splits)

lemma unrouted_reply:
  assumes inv: "manager_inv T libs ex k m" "k < 2 ^ 64" and mux: "mux_laws (vl_mux sv)"
    and r: "route_request sv ex m path = Err reply"
  shows "case reply of
      GroupReply ag \<Rightarrow> \<exists>g a. asks_about path g \<and> first_serving (mg_store m) (routed m) g = Some a \<and>
        sn_Groups (rc_snapshot (ws_cache (mg_store m a))) g = Some ag
    | ResourcesReply gv rs \<Rightarrow> \<exists>a. asks_about path (gv_Group gv) \<and>
        first_serving (mg_store m) (routed m) (gv_Group gv) = Some a \<and>
        sn_Resources (rc_snapshot (ws_cache (mg_store m a))) gv = Some rs
    | ErrorReply code \<Rightarrow> code = 404
    | Elsewhere _ \<Rightarrow> \<not> has_prefix path apis_prefix
    | _ \<Rightarrow> False"
proof (cases "vl_mux sv (server_paths ex) path = Some DiscoveryEndpoint")
  case True
  with mux_discovery[OF mux, of ex path] have p: "has_prefix path apis_prefix" by simp
  let ?s = "(mg_store m, mg_router m)"
  have "reply \<noteq> notImplemented" using never_not_implemented[OF inv mux] r by blast
  with True r consider ag where "reply = GroupReply ag" "serve address_handler ?s ?s ?s path = AnswerGroup ag"
    | gv rs where "reply = ResourcesReply gv rs" "serve address_handler ?s ?s ?s path = AnswerResources gv rs"
    | "reply = ErrorReply 404"
    by (auto simp: route_request_def writeGroupNotFound_def Let_def split: discovery_answer.splits)
  then show ?thesis
  proof cases
    case 1
    from serve_answers(1)[OF 1(2)] p view_groups[OF inv] show ?thesis
      by (fastforce simp: 1(1) asks_about_def split: option.splits)
  next
    case 2
    obtain g v where gv: "gv = GV g v" by (cases gv)
    from serve_answers(2)[OF 2(2)] p view_resources[OF inv, of g v] show ?thesis
      by (fastforce simp: 2(1) asks_about_def gv split: option.splits)
  qed simp
next
  case False
  with r obtain e where "reply = Elsewhere e"
    by (cases "vl_mux sv (server_paths ex) path") (auto simp: route_request_def Let_def split: endpoint.splits)
  with False mux_discovery[OF mux, of ex path] show ?thesis by simp
qed


end
