(* ===== verification/Server_OpenAPI.thy ===== *)
theory Server_OpenAPI
  imports Requests
begin

text \<open>
  The OpenAPI documents of a running server: the handler of \<open>openapi.go\<close> as \<open>New\<close> puts it together,
  its side requests going over the transports of the workspaces with their breakers and credentials, and
  its two cached documents kept from one request to the next while everything else a server does goes
  on. The codecs are fields of \<open>document_codecs\<close>. The merged view is read here without being remembered,
  which nothing can tell.
\<close>

section \<open>The handler of a server\<close>

definition server_side :: "('c, 'k, 'd, 'x) server_libs \<Rightarrow> addr \<Rightarrow>
    ('d, 'x) server_manager transport" where
  "server_side libs a m req =
     (let p = ws_proxy (mg_store m a) in
      case workspace_transport (sl_workspaces libs) (wp_transport p) (at_workspace a m) req of
        (answer, w) \<Rightarrow> (answer, left_workspace a (wp_namespaces p) w m))"

definition server_openapi :: "('c, 'k, 'd, 'x) server_libs \<Rightarrow>
    ('x server_store \<times> router, ('d, 'x) server_manager) openAPIHandler" where
  "server_openapi libs = router_openapi (wl_new_request_ok (sl_workspaces libs)) (server_side libs)"

record ('piece, 'doc) document_codecs =
  dx_unmarshal :: "string \<Rightarrow> (string, string \<rightharpoonup> string) result"
  dx_marshal :: "(string \<rightharpoonup> string) \<Rightarrow> (string, string) result"
  dx_unmarshal_list :: "string \<Rightarrow> (string, crd list) result"
  dx_builder :: "('piece, 'doc) v2_builder"

definition handle_openapi :: "('c, 'k, 'd, 'x) server_libs \<Rightarrow> ('piece, 'doc) document_codecs \<Rightarrow>
    endpoint \<Rightarrow> string \<Rightarrow> openapi_documents \<times> ('d, 'x) server_manager \<Rightarrow>
    openapi_reply option \<times> (openapi_documents \<times> ('d, 'x) server_manager)" where
  "handle_openapi libs dx e path st =
     (case st of (docs, m) \<Rightarrow>
        let h = server_openapi libs; s = (mg_store m, mg_router m) in
        (case e of
           OpenAPIV2 \<Rightarrow>
             (case serveV2 (decodeCRDList (dx_unmarshal_list dx)) (dx_builder dx) h s (od_v2 docs, m) of
                (answer, (c, m')) \<Rightarrow> (Some (spec_reply answer), (docs\<lparr>od_v2 := c\<rparr>, m')))
         | OpenAPIV3Index \<Rightarrow>
             (case serveDiscovery (dx_unmarshal dx) (dx_marshal dx) h s (od_index docs, m) of
                (answer, (c, m')) \<Rightarrow> (Some (spec_reply answer), (docs\<lparr>od_index := c\<rparr>, m')))
         | OpenAPIV3Document \<Rightarrow>
             (case serveSpec h s path m of (answer, m') \<Rightarrow> (Some (spec_reply answer), (docs, m')))
         | _ \<Rightarrow> (None, (docs, m))))"

text \<open>The document a build would make now.\<close>

definition fresh_document :: "('c, 'k, 'd, 'x) server_libs \<Rightarrow> ('piece, 'doc) document_codecs \<Rightarrow>
    endpoint \<Rightarrow> ('d, 'x) server_manager \<Rightarrow> string option" where
  "fresh_document libs dx e m =
     (let h = server_openapi libs; s = (mg_store m, mg_router m) in
      case e of
        OpenAPIV2 \<Rightarrow>
          (case fst (handler_buildV2 (decodeCRDList (dx_unmarshal_list dx)) (dx_builder dx) h s m) of Err _ \<Rightarrow> None | Ok d \<Rightarrow> Some d)
      | OpenAPIV3Index \<Rightarrow>
          (case fst (buildIndex (dx_unmarshal dx) (dx_marshal dx) h s m) of Err _ \<Rightarrow> None | Ok d \<Rightarrow> Some d)
      | _ \<Rightarrow> None)"

definition kept_document :: "endpoint \<Rightarrow> openapi_documents \<Rightarrow> (64 word \<times> string) option" where
  "kept_document e docs =
     (case e of
        OpenAPIV2 \<Rightarrow> held_document (od_v2 docs) | OpenAPIV3Index \<Rightarrow> held_document (od_index docs) | _ \<Rightarrow> None)"

section \<open>Everything a server does, with its documents\<close>

inductive documents_run :: "('c, 'k, 'd, 'x) server_libs \<Rightarrow> ('piece, 'doc) document_codecs \<Rightarrow>
    'k ExtraConfig \<Rightarrow> ('d, 'x) server_manager \<Rightarrow> nat \<Rightarrow> openapi_documents \<Rightarrow> ('d, 'x) server \<Rightarrow> bool"
  for libs dx ex m0 where
  begins: "documents_run libs dx ex m0 0 prepare \<lparr>sv_phase = Created, sv_manager = m0\<rparr>"
| moves: "documents_run libs dx ex m0 n docs s \<Longrightarrow> server_step libs ex s t \<Longrightarrow>
     documents_run libs dx ex m0 (Suc n) docs t"
| asked: "documents_run libs dx ex m0 n docs s \<Longrightarrow>
     handle_openapi libs dx e path (docs, sv_manager s) = (reply, (docs', m')) \<Longrightarrow>
     documents_run libs dx ex m0 (n + 2 * Suc (length (routed (sv_manager s)))) docs' (s\<lparr>sv_manager := m'\<rparr>)"

section \<open>A side request is two steps of the server\<close>

definition within :: "('c, 'k, 'd, 'x) server_libs \<Rightarrow> 'k ExtraConfig \<Rightarrow> ('d, 'x) server \<Rightarrow> nat \<Rightarrow>
    ('d, 'x) server_manager \<Rightarrow> bool" where
  "within libs ex s k m \<longleftrightarrow> (\<exists>j\<le>k. server_run libs ex s j (s\<lparr>sv_manager := m\<rparr>))"

lemma within_mono: "within libs ex s k m \<Longrightarrow> k \<le> k' \<Longrightarrow> within libs ex s k' m"
  unfolding within_def by (meson order_trans)

lemma within_start: "within libs ex s 0 (sv_manager s)"
  unfolding within_def by (auto intro: server_run.here)

lemma within_side:
  assumes "within libs ex s k m" and "server_side libs a m req = (answer, m')"
  shows "within libs ex s (k + 2) m'"
proof -
  from assms(1) obtain j where j: "j \<le> k" "server_run libs ex s j (s\<lparr>sv_manager := m\<rparr>)" by (auto simp: within_def)
  let ?p = "ws_proxy (mg_store m a)"
  obtain w where "workspace_transport (sl_workspaces libs) (wp_transport ?p) (at_workspace a m) req = (answer, w)"
    and m': "m' = left_workspace a (wp_namespaces ?p) w m"
    using assms(2) by (auto simp: server_side_def Let_def split: prod.splits)
  let ?mem = "(xw_breaker w, wp_namespaces ?p, (xw_conversion w, snd (wp_conversion ?p)))"
  from server_run.onward[OF j(2) server_step.proxied, of a ?mem "xw_metrics w"]
  have "server_run libs ex s (Suc j) (s\<lparr>sv_manager := proxy_moved a ?mem (xw_metrics w) m\<rparr>)" by simp
  from server_run.onward[OF this server_step.outside, of "xw_outside w"] j(1) show ?thesis
    unfolding within_def m' left_workspace_def by (intro exI[of _ "Suc (Suc j)"]) simp
qed

lemma within_fetch:
  assumes "within libs ex s k m" and "fetchSpec ok (server_side libs a) b path m = (r, m')"
  shows "within libs ex s (k + 2) m'"
  using assms within_side[OF assms(1)] within_mono[OF assms(1)]
  by (fastforce simp: fetchSpec_def client_do_def Let_def split: if_splits prod.splits sum.splits)

text \<open>The sources of the handler are such fetches, one for each workspace that is routed.\<close>

definition stepping :: "('c, 'k, 'd, 'x) server_libs \<Rightarrow> 'k ExtraConfig \<Rightarrow> ('d, 'x) server \<Rightarrow>
    ('d, 'x) server_manager specFetcher \<Rightarrow> bool" where
  "stepping libs ex s f \<longleftrightarrow> (\<forall>k m path r m'. within libs ex s k m \<longrightarrow> f path m = (r, m') \<longrightarrow> within libs ex s (k + 2) m')"

lemma server_sources:
  "length (spec_sources (server_openapi libs) (mg_store m, mg_router m)) = length (routed m)"
  "\<forall>nf\<in>set (spec_sources (server_openapi libs) (mg_store m, mg_router m)). stepping libs ex s (snd nf)"
  by (auto simp: spec_sources_def server_openapi_def router_openapi_def fetchers_def stepping_def dest: within_fetch)

lemma within_index:
  assumes "\<forall>nf\<in>set sources. stepping libs ex s (snd nf)" and "within libs ex s k m"
    and "build_index unmarshal owned sources paths m = (r, m')"
  shows "within libs ex s (k + 2 * length sources) m'"
  using assms
proof (induction unmarshal owned sources paths m arbitrary: k r rule: build_index.induct)
  case (1 unmarshal owned paths m)
  then show ?case by simp
next
  case (2 unmarshal owned name fetcher sources paths m)
  obtain r1 m1 where f: "fetcher ''/openapi/v3'' m = (r1, m1)" by (metis surj_pair)
  with 2(2,3) have m1: "within libs ex s (k + 2) m1" by (auto simp: stepping_def)
  show ?case
  proof (cases "\<exists>raw index. r1 = Ok raw \<and> unmarshal raw = Ok index")
    case True
    then obtain raw index where r1: "r1 = Ok raw" "unmarshal raw = Ok index" by blast
    from 2(1)[OF f[symmetric] r1 _ m1] 2(2,4) f r1 show ?thesis by simp
  next
    case False
    with 2(4) f have "m' = m1" by (auto split: sum.splits)
    with within_mono[OF m1] show ?thesis by simp
  qed
qed

lemma within_definitions:
  assumes "\<forall>nf\<in>set sources. stepping libs ex s (snd nf)" and "within libs ex s k m"
    and "collect_definitions decode sources acc m = (r, m')"
  shows "within libs ex s (k + 2 * length sources) m'"
  using assms
proof (induction sources arbitrary: acc k m)
  case Nil
  then show ?case by (cases acc) simp
next
  case (Cons source sources)
  obtain name fetcher where src: "source = (name, fetcher)" by (cases source)
  obtain definitions failed where acc: "acc = (definitions, failed)" by (cases acc)
  obtain r1 m1 where f: "fetcher crdPath m = (r1, m1)" by (metis surj_pair)
  with Cons.prems(1,2) src have m1: "within libs ex s (k + 2) m1" by (auto simp: stepping_def)
  from Cons.prems(3) f obtain acc' where "collect_definitions decode sources acc' m1 = (r, m')"
    by (auto simp: src acc split: sum.splits)
  with Cons.IH[OF _ m1] Cons.prems(1) show ?case by simp
qed

text \<open>What a request for a document leaves of the server and of the documents, and what it is answered.\<close>

lemma get_cases:
  assumes "doc_get build g (c, w) = (r, (c', w'))"
  shows "(c' = c \<and> w' = w) \<or> (w' = snd (build w) \<and> (c' = c \<or> (\<exists>d. fst (build w) = Ok d \<and> c' = put_document g d c)))"
  using assms by (auto simp: doc_get_cases split: option.splits prod.splits sum.splits)

lemma get_answers:
  assumes "doc_get build g (c, w) = (r, (c', w'))"
  shows "r = (case held_document c of
     None \<Rightarrow> fst (build w)
   | Some (g', d) \<Rightarrow> if g' = g then Ok d else (case fst (build w) of Ok d' \<Rightarrow> Ok d' | Err _ \<Rightarrow> Ok d))"
  using assms by (auto simp: doc_get_cases documents.hit_def split: option.splits prod.splits sum.splits if_splits)

lemma within_handled:
  assumes "handle_openapi libs dx e path (docs, sv_manager s) = (reply, (docs', m'))"
  shows "within libs ex s (2 * Suc (length (routed (sv_manager s)))) m'"
proof -
  let ?m = "sv_manager s" and ?h = "server_openapi libs" and ?k = "2 * length (routed (sv_manager s))"
  let ?s = "(mg_store ?m, mg_router ?m)"
  note sources = server_sources(2)[of libs ?m ex s] and n = server_sources(1)[of libs ?m]
  have small: "within libs ex s (2 * Suc (length (routed ?m))) m" if "within libs ex s ?k m" for m
    by (rule within_mono[OF that]) simp
  have here: "within libs ex s ?k ?m" by (rule within_mono[OF within_start]) simp
  have index: "within libs ex s ?k (snd (buildIndex (dx_unmarshal dx) (dx_marshal dx) ?h ?s ?m))"
    using within_index[OF sources within_start]
    by (auto simp: buildIndex_def n split: prod.splits sum.splits)
  have v2: "within libs ex s ?k (snd (handler_buildV2 (decodeCRDList (dx_unmarshal_list dx)) (dx_builder dx) ?h ?s ?m))"
    using within_definitions[OF sources within_start]
    by (auto simp: handler_buildV2_def n split: prod.splits sum.splits)
  have spec: "within libs ex s 2 (snd (serveSpec ?h ?s path ?m))"
    using within_fetch[OF within_start, unfolded add_0] within_mono[OF within_start[of libs ex s], of 2]
    by (auto simp: serveSpec_def sourceFor_def server_openapi_def router_openapi_def split: option.splits prod.splits sum.splits if_splits)
  show ?thesis
  proof (cases e)
    case OpenAPIV2
    with assms obtain r c where "doc_get (handler_buildV2 (decodeCRDList (dx_unmarshal_list dx)) (dx_builder dx) ?h ?s)
        (currentGeneration ?h ?s) (od_v2 docs, ?m) = (r, (c, m'))"
      by (auto simp: handle_openapi_def serveV2_def Let_def split: prod.splits sum.splits)
    from get_cases[OF this] v2 here have "within libs ex s ?k m'" by auto
    then show ?thesis by (rule small)
  next
    case OpenAPIV3Index
    with assms obtain r c where "doc_get (buildIndex (dx_unmarshal dx) (dx_marshal dx) ?h ?s)
        (currentGeneration ?h ?s) (od_index docs, ?m) = (r, (c, m'))"
      by (auto simp: handle_openapi_def serveDiscovery_def Let_def split: prod.splits sum.splits)
    from get_cases[OF this] index here have "within libs ex s ?k m'" by auto
    then show ?thesis by (rule small)
  next
    case OpenAPIV3Document
    with assms have "m' = snd (serveSpec ?h ?s path ?m)"
      by (auto simp: handle_openapi_def Let_def split: prod.splits)
    with within_mono[OF spec] show ?thesis by simp
  qed (use assms small[OF here] in \<open>simp_all add: handle_openapi_def\<close>)
qed

lemma kept_afterwards:
  assumes "handle_openapi libs dx e path (docs, m) = (reply, (docs', m'))" and "kept_document e' docs' = Some (g, d)"
  shows "kept_document e' docs = Some (g, d) \<or> (g = Generation (mg_store m) (mg_router m) \<and> fresh_document libs dx e' m = Some d)"
proof -
  let ?h = "server_openapi libs" and ?s = "(mg_store m, mg_router m)"
  have gen: "currentGeneration ?h ?s = Generation (mg_store m) (mg_router m)"
    by (simp add: currentGeneration_def server_openapi_def router_openapi_def)
  show ?thesis
  proof (cases e)
    case OpenAPIV2
    with assms obtain r c where "doc_get (handler_buildV2 (decodeCRDList (dx_unmarshal_list dx)) (dx_builder dx) ?h ?s)
        (currentGeneration ?h ?s) (od_v2 docs, m) = (r, (c, m'))" and "docs' = docs\<lparr>od_v2 := c\<rparr>"
      by (auto simp: handle_openapi_def serveV2_def Let_def split: prod.splits sum.splits)
    from get_cases[OF this(1)] this(2) assms(2) gen show ?thesis
      by (cases e') (auto simp: kept_document_def fresh_document_def Let_def documents.held_put)
  next
    case OpenAPIV3Index
    with assms obtain r c where "doc_get (buildIndex (dx_unmarshal dx) (dx_marshal dx) ?h ?s)
        (currentGeneration ?h ?s) (od_index docs, m) = (r, (c, m'))" and "docs' = docs\<lparr>od_index := c\<rparr>"
      by (auto simp: handle_openapi_def serveDiscovery_def Let_def split: prod.splits sum.splits)
    from get_cases[OF this(1)] this(2) assms(2) gen show ?thesis
      by (cases e') (auto simp: kept_document_def fresh_document_def Let_def documents.held_put)
  qed (use assms in \<open>auto simp: handle_openapi_def split: prod.splits\<close>)
qed

lemma handled_answers:
  assumes "e = OpenAPIV2 \<or> e = OpenAPIV3Index"
    and "handle_openapi libs dx e path (docs, m) = (Some reply, (docs', m'))"
  shows "reply = (case kept_document e docs of
     None \<Rightarrow> (case fresh_document libs dx e m of None \<Rightarrow> writeUnavailable | Some d \<Rightarrow> OpenAPIDocument d)
   | Some (g, d) \<Rightarrow>
       if g = Generation (mg_store m) (mg_router m) then OpenAPIDocument d
       else (case fresh_document libs dx e m of None \<Rightarrow> OpenAPIDocument d | Some d' \<Rightarrow> OpenAPIDocument d'))"
proof -
  let ?h = "server_openapi libs" and ?s = "(mg_store m, mg_router m)"
  have gen: "currentGeneration ?h ?s = Generation (mg_store m) (mg_router m)"
    by (simp add: currentGeneration_def server_openapi_def router_openapi_def)
  from assms(1) show ?thesis
  proof
    assume e: "e = OpenAPIV2"
    obtain r c m1 where g: "doc_get (handler_buildV2 (decodeCRDList (dx_unmarshal_list dx)) (dx_builder dx) ?h ?s)
        (currentGeneration ?h ?s) (od_v2 docs, m) = (r, (c, m1))" by (metis surj_pair)
    with assms(2) e have "reply = (case r of Err _ \<Rightarrow> writeUnavailable | Ok d \<Rightarrow> OpenAPIDocument d)"
      by (auto simp: handle_openapi_def serveV2_def spec_reply_def Let_def split: sum.splits)
    with get_answers[OF g] gen e show ?thesis
      by (auto simp: kept_document_def fresh_document_def Let_def split: option.splits sum.splits)
  next
    assume e: "e = OpenAPIV3Index"
    obtain r c m1 where g: "doc_get (buildIndex (dx_unmarshal dx) (dx_marshal dx) ?h ?s)
        (currentGeneration ?h ?s) (od_index docs, m) = (r, (c, m1))" by (metis surj_pair)
    with assms(2) e have "reply = (case r of Err _ \<Rightarrow> writeUnavailable | Ok d \<Rightarrow> OpenAPIDocument d)"
      by (auto simp: handle_openapi_def serveDiscovery_def spec_reply_def Let_def split: sum.splits)
    with get_answers[OF g] gen e show ?thesis
      by (auto simp: kept_document_def fresh_document_def Let_def split: option.splits sum.splits)
  qed
qed

section \<open>Where a document comes from\<close>

definition built_at :: "('c, 'k, 'd, 'x) server_libs \<Rightarrow> ('piece, 'doc) document_codecs \<Rightarrow>
    'k ExtraConfig \<Rightarrow> ('d, 'x) server_manager \<Rightarrow> nat \<Rightarrow> endpoint \<Rightarrow> 64 word \<Rightarrow> string \<Rightarrow> ('d, 'x) server \<Rightarrow> bool" where
  "built_at libs dx ex m0 n e g d t \<longleftrightarrow>
     (\<exists>s k j. k + j \<le> n \<and> server_reach libs ex m0 k s \<and> server_run libs ex s j t \<and>
        Generation (mg_store (sv_manager s)) (mg_router (sv_manager s)) = g \<and>
        fresh_document libs dx e (sv_manager s) = Some d)"

lemma run_trans: "server_run libs ex t j u \<Longrightarrow> server_run libs ex s i t \<Longrightarrow> server_run libs ex s (i + j) u"
  by (induction rule: server_run.induct) (auto intro: server_run.onward)

lemma built_before:
  assumes "built_at libs dx ex m0 n e g d t" and "server_run libs ex t j u" and "n + j \<le> n'"
  shows "built_at libs dx ex m0 n' e g d u"
proof -
  from assms(1) obtain s k i where s: "k + i \<le> n" "server_reach libs ex m0 k s" "server_run libs ex s i t"
    "Generation (mg_store (sv_manager s)) (mg_router (sv_manager s)) = g"
    "fresh_document libs dx e (sv_manager s) = Some d" by (auto simp: built_at_def)
  from run_trans[OF assms(2) s(3)] s assms(3) show ?thesis
    unfolding built_at_def by (intro exI[of _ s] exI[of _ k] exI[of _ "i + j"]) simp
qed

lemma documents_run_built:
  assumes "documents_run libs dx ex m0 n docs t"
  shows "(\<exists>k\<le>n. server_reach libs ex m0 k t) \<and>
    (\<forall>e g d. kept_document e docs = Some (g, d) \<longrightarrow> built_at libs dx ex m0 n e g d t)"
  using assms
proof induction
  case begins
  have "kept_document e prepare = None" for e
    by (cases e) (simp_all add: kept_document_def prepare_def newDocumentCache_def held_document_def)
  then show ?case by (auto intro: server_reach.created)
next
  case (moves n docs s t)
  have run: "server_run libs ex s 1 t" using server_run.onward[OF server_run.here moves(2)] by simp
  from moves(3) obtain k where k: "k \<le> n" "server_reach libs ex m0 k s" by blast
  from server_reach.further[OF k(2) moves(2)] k(1) have "\<exists>k\<le>Suc n. server_reach libs ex m0 k t"
    by (intro exI[of _ "Suc k"]) simp
  moreover have "built_at libs dx ex m0 (Suc n) e g d t" if "kept_document e docs = Some (g, d)" for e g d
    using built_before[OF _ run, of dx m0 n e g d "Suc n"] moves(3) that by simp
  ultimately show ?case by blast
next
  case (asked n docs s e path reply docs' m')
  let ?n = "n + 2 * Suc (length (routed (sv_manager s)))" and ?t = "s\<lparr>sv_manager := m'\<rparr>"
  from within_handled[OF asked(2), of ex] obtain j where
    j: "j \<le> 2 * Suc (length (routed (sv_manager s)))" "server_run libs ex s j ?t" by (auto simp: within_def)
  from asked(3) obtain k where k: "k \<le> n" "server_reach libs ex m0 k s" by blast
  have "built_at libs dx ex m0 ?n e' g d ?t" if kept: "kept_document e' docs' = Some (g, d)" for e' g d
    using kept_afterwards[OF asked(2) kept]
  proof
    assume "kept_document e' docs = Some (g, d)"
    with asked(3) have "built_at libs dx ex m0 n e' g d s" by blast
    from built_before[OF this j(2)] j(1) show ?thesis by simp
  next
    assume "g = Generation (mg_store (sv_manager s)) (mg_router (sv_manager s)) \<and>
      fresh_document libs dx e' (sv_manager s) = Some d"
    with k j show ?thesis
      unfolding built_at_def by (intro exI[of _ s] exI[of _ k] exI[of _ j]) auto
  qed
  moreover have "\<exists>k\<le>?n. server_reach libs ex m0 k ?t"
    using server_run_reach[OF j(2) k(2)] k(1) j(1) by (intro exI[of _ "k + j"]) simp
  ultimately show ?case by blast
qed

text \<open>
  C5. An OpenAPI document tells what is served. Through everything a server does, with requests for
  its documents anywhere in between, the v2 document or the v3 index that is answered was built by asking
  the workspaces at some moment of this run, and the surface it was built for, every group and every
  resource, is the one served now -- unless building it anew failed just now, or the set of workspaces
  has been replaced since. An error is answered only when none was ever built and building it fails, and
  asking leaves the server in a state it could have reached anyway.
\<close>

theorem openapi_documents_are_current:
  assumes "options_Config self_signed read_file unmarshal v fresh0 apply_to clients al auth o1 = Ok (sc, ex)"
    and "new_server ex st0 mx documents x = Ok m0"
    and "documents_run libs dx ex m0 n docs t" and "n < 2 ^ 60"
    and "e = OpenAPIV2 \<or> e = OpenAPIV3Index"
    and "handle_openapi libs dx e path (docs, sv_manager t) = (Some reply, (docs', m'))"
  shows "(case reply of
       OpenAPIDocument d \<Rightarrow>
         (\<exists>s k j. k + j \<le> n \<and> server_reach libs ex m0 k s \<and> server_run libs ex s j t \<and>
            fresh_document libs dx e (sv_manager s) = Some d \<and>
            (fst (router_Snapshot (mg_store (sv_manager t)) (mg_router (sv_manager t))) =
               fst (router_Snapshot (mg_store (sv_manager s)) (mg_router (sv_manager s))) \<or>
             rt_revision (mg_router (sv_manager t)) \<noteq> rt_revision (mg_router (sv_manager s)) \<or>
             fresh_document libs dx e (sv_manager t) = None))
     | OpenAPIError code \<Rightarrow>
         code = 503 \<and> kept_document e docs = None \<and> fresh_document libs dx e (sv_manager t) = None) \<and>
    (\<exists>j. server_run libs ex t j (t\<lparr>sv_manager := m'\<rparr>))"
proof -
  note by_name = configured_by_name(1)[OF assms(1)] and names = configured_by_name(2)[OF assms(1)]
  from documents_run_built[OF assms(3)] obtain k0 where here: "k0 \<le> n" "server_reach libs ex m0 k0 t"
    and built: "\<And>g d. kept_document e docs = Some (g, d) \<Longrightarrow> built_at libs dx ex m0 n e g d t" by blast
  let ?view = "\<lambda>s. fst (router_Snapshot (mg_store (sv_manager s)) (mg_router (sv_manager s)))"
  let ?rev = "\<lambda>s. rt_revision (mg_router (sv_manager s))" and ?new = "fresh_document libs dx e (sv_manager t)"
  let ?told = "\<lambda>d. \<exists>s k j. k + j \<le> n \<and> server_reach libs ex m0 k s \<and> server_run libs ex s j t \<and>
     fresh_document libs dx e (sv_manager s) = Some d \<and> (?view t = ?view s \<or> ?rev t \<noteq> ?rev s \<or> ?new = None)"
  have new: "?told d" if "?new = Some d" for d
    using here that server_run.here by (intro exI[of _ t] exI[of _ k0] exI[of _ 0]) simp
  have old: "?told d" if kept: "kept_document e docs = Some (g, d)"
    and current: "g = Generation (mg_store (sv_manager t)) (mg_router (sv_manager t)) \<or> ?new = None" for g d
  proof -
    from built[OF kept] obtain s k j where s: "k + j \<le> n" "server_reach libs ex m0 k s" "server_run libs ex s j t"
      "Generation (mg_store (sv_manager s)) (mg_router (sv_manager s)) = g"
      "fresh_document libs dx e (sv_manager s) = Some d" by (auto simp: built_at_def)
    note inv = configured_reach[OF assms(1,2) s(2)]
    have inv': "server_inv {} libs ex (3 * k + 3 * j) t" by (rule server_run_inv[OF s(3) inv by_name names])
    have small: "3 * k + 3 * j < 2 ^ 64" "3 * k < 2 ^ 64" using s(1) assms(4) by simp_all
    have merged: "merge_all (mg_store (sv_manager t)) (routed (sv_manager t)) = merge_all (mg_store (sv_manager s)) (routed (sv_manager s))"
      if "g = Generation (mg_store (sv_manager t)) (mg_router (sv_manager t))" "?rev t = ?rev s"
      using that same_key_same_view[OF inv s(3) small(1) by_name names] s(4) by simp
    have "?view t = ?view s" if "g = Generation (mg_store (sv_manager t)) (mg_router (sv_manager t))" "?rev t = ?rev s"
      using merged[OF that] view_is_merged[of "{}" libs ex "3 * k + 3 * j" "sv_manager t"]
        view_is_merged[of "{}" libs ex "3 * k" "sv_manager s"] inv inv' small
      by (simp add: server_inv_def router_Snapshot_def case_prod_beta) (metis prod.inject)
    with s current show ?thesis by blast
  qed
  have "case reply of OpenAPIDocument d \<Rightarrow> ?told d
     | OpenAPIError code \<Rightarrow> code = 503 \<and> kept_document e docs = None \<and> ?new = None"
    using handled_answers[OF assms(5,6)] new old
    by (auto simp: writeUnavailable_def split: option.splits if_splits)
  moreover from within_handled[OF assms(6), of ex] have "\<exists>j. server_run libs ex t j (t\<lparr>sv_manager := m'\<rparr>)"
    by (auto simp: within_def)
  ultimately show ?thesis by blast
qed

text \<open>
  The replacement is a real exception. The documents are kept by the generations alone, a sum that a
  replacement need not move (a workspace is at its first generation when it is launched), so the
  document of a workspace that was removed is still answered in place of that of its successor.
\<close>

lemma replaced_set_keeps_old_documents:
  assumes "rt_workspaces r = Some [a]" and "rc_generation (ws_cache (st b)) = rc_generation (ws_cache (st a))"
    and "held_document c = Some (Generation st r, d)"
  shows "serveDiscovery unmarshal marshal (router_openapi ok side) (st, router_replace [b] r) (c, w) = (SpecDocument d, (c, w))"
    and "fst (merge_all st (router_snapshot (router_replace [b] r))) = fst (merge_all st [b])"
proof -
  have g: "currentGeneration (router_openapi ok side) (st, router_replace [b] r) = Generation st r"
    using assms(1,2) by (simp add: currentGeneration_def router_openapi_def Generation_def router_replace_eq router_snapshot_def)
  with assms(3) have "documents.hit c (Generation st r) = Some d" by (simp add: documents.hit_iff)
  then show "serveDiscovery unmarshal marshal (router_openapi ok side) (st, router_replace [b] r) (c, w) = (SpecDocument d, (c, w))"
    by (simp add: serveDiscovery_def doc_get_cases g)
  show "fst (merge_all st (router_snapshot (router_replace [b] r))) = fst (merge_all st [b])"
    by (simp add: router_replace_eq router_snapshot_def)
qed

lemma launched_at_the_first_generation:
  assumes "Refresh parse_gv client now (NewResourceCache name owned) mx w = (None, cache, mx', w')"
  shows "rc_generation cache = 1"
proof -
  from Refresh_ok[OF assms] obtain c1 where c1: "refresh parse_gv client (NewResourceCache name owned) w = (Ok c1, w')"
    "cache = c1\<lparr>rc_matched := Some (groupNames (rc_snapshot c1))\<rparr>" by auto
  from refresh_ok[OF c1(1)] c1(2) show ?thesis by (auto simp: NewResourceCache_def)
qed

end
