(* ===== verification/Server_Documents.thy ===== *)
theory Server_Documents
  imports Server_Life
begin

text \<open>
  The discovery documents of a whole server. What the server believes it has published is what the
  documents list, in every state it can reach, and whenever something has run on a change they list
  exactly the groups whose requests are routed, as the workspaces serving them reported them.
\<close>

section \<open>The documents and what was published\<close>

definition docs_ok :: "('d \<Rightarrow> string \<rightharpoonup> api_group) \<Rightarrow> ('d \<Rightarrow> string \<times> string \<rightharpoonup> version_discovery) \<Rightarrow>
    ('d, 'x) server_world \<Rightarrow> bool" where
  "docs_ok listed versions w \<longleftrightarrow>
     finite (sw_published w) \<and> sw_published w = dom (listed (sw_documents w)) \<and>
     (\<forall>k. versions (sw_documents w) k \<noteq> None \<longrightarrow> fst k \<in> sw_published w)"

lemma docs_ok_cong: "docs_of w' = docs_of w \<Longrightarrow> docs_ok listed versions w' = docs_ok listed versions w"
  by (simp add: docs_of_def docs_ok_def)

text \<open>The order of a range over a finite map is an enumeration of its keys.\<close>

definition enumerates :: "('c, 'k, 'd, 'x) server_libs \<Rightarrow> bool" where
  "enumerates libs \<longleftrightarrow> (\<forall>S. finite S \<longrightarrow> set (sl_group_order libs S) = S)"

section \<open>The merged view\<close>

lemma view_is_merge_all:
  assumes "manager_inv T libs ex k m" and "k < 2 ^ 64"
  shows "fst (router_Snapshot (mg_store m) (mg_router m)) = fst (merge_all (mg_store m) (routed m))"
  using arg_cong[OF view_is_merged[OF assms], of fst] by (simp add: router_Snapshot_def split_beta)

lemma routed_kept:
  assumes "manager_inv T libs ex k m" and "first_serving (mg_store m) (routed m) g = Some a"
  shows "well_kept libs (mg_store m a)"
  using assms first_serving_serves[OF assms(2)] by (auto simp: manager_inv_def well_built_def)

lemma view_finite:
  assumes "manager_inv T libs ex k m" and "k < 2 ^ 64"
  shows "finite (groupNames (fst (router_Snapshot (mg_store m) (mg_router m))))"
proof -
  have "groupNames (fst (router_Snapshot (mg_store m) (mg_router m))) \<subseteq>
      (\<Union>a\<in>set (routed m). groupNames (rc_snapshot (ws_cache (mg_store m a))))"
    unfolding view_is_merge_all[OF assms]
    by (fastforce simp: groupNames_def merge_all_groups split: option.splits dest!: first_serving_serves)
  moreover have "finite (groupNames (rc_snapshot (ws_cache (mg_store m a))))" if "a \<in> set (routed m)" for a
    using assms(1) that by (auto simp: manager_inv_def well_built_def well_kept_def)
  ultimately show ?thesis by (meson finite_UN_I finite_set finite_subset)
qed

lemma view_keyed:
  assumes "manager_inv T libs ex k m" and "k < 2 ^ 64" and "keyed_answers libs"
  shows "well_keyed (sl_ParseGroupVersion libs) (fst (router_Snapshot (mg_store m) (mg_router m)))"
proof -
  have "ag_Name ag = g \<and> (\<forall>v\<in>set (ag_Versions ag). \<forall>gv. sl_ParseGroupVersion libs (av_GroupVersion v) = Ok gv \<longrightarrow> gv_Group gv = g)"
    if "sn_Groups (fst (merge_all (mg_store m) (routed m))) g = Some ag" for g ag
  proof -
    from that obtain a where a: "first_serving (mg_store m) (routed m) g = Some a"
      "sn_Groups (rc_snapshot (ws_cache (mg_store m a))) g = Some ag"
      by (auto simp: merge_all_groups split: option.splits)
    from routed_kept[OF assms(1) a(1)] assms(3) a(2) show ?thesis
      unfolding well_kept_def well_keyed_def by blast
  qed
  then show ?thesis unfolding well_keyed_def view_is_merge_all[OF assms(1,2)] by blast
qed

section \<open>What runs on a change\<close>

lemma sync_view_docs: "docs_of (snd (snd (sync_view libs st (r, mx, w)))) = docs_of w"
  by (auto simp: sync_view_def Let_def split: option.splits prod.splits)

lemma publish_view_docs:
  "docs_of (snd (snd (publish_view libs st (r, mx, w)))) =
     publish (sl_ParseGroupVersion libs) (sl_documents libs) (fst (router_Snapshot st r))
       (sl_group_order libs (sw_published w - groupNames (fst (router_Snapshot st r))))
       (sl_group_order libs (groupNames (fst (router_Snapshot st r)))) (sw_published w, sw_documents w)"
  by (simp add: publish_view_def docs_of_def split: prod.splits)

lemma changed_docs:
  "docs_of (mg_world (manager_changed (server_env libs ex) m)) =
     publish (sl_ParseGroupVersion libs) (sl_documents libs) (fst (router_Snapshot (mg_store m) (mg_router m)))
       (sl_group_order libs (sw_published (mg_world m) - groupNames (fst (router_Snapshot (mg_store m) (mg_router m)))))
       (sl_group_order libs (groupNames (fst (router_Snapshot (mg_store m) (mg_router m)))))
       (sw_published (mg_world m), sw_documents (mg_world m))"
proof -
  let ?p = "publish_view libs (mg_store m) (mg_router m, mg_metrics m, mg_world m)"
  obtain r mx w where p: "?p = (r, mx, w)" by (metis prod_cases3)
  obtain r' mx' w' where s: "sync_view libs (mg_store m) (r, mx, w) = (r', mx', w')" by (metis prod_cases3)
  have "mg_world (manager_changed (server_env libs ex) m) = w'"
    by (simp add: manager_changed_def server_env_def onChange_def p s)
  moreover have "docs_of w' = docs_of w" using sync_view_docs[of libs "mg_store m" r mx w] s by simp
  ultimately show ?thesis using publish_view_docs[of libs "mg_store m" "mg_router m" "mg_metrics m" "mg_world m"] p by simp
qed

lemma changed_publishes:
  assumes inv: "manager_inv T libs ex k m" "k < 2 ^ 64"
    and laws: "document_laws (sl_documents libs) listed versions" "gm_aggregated (sl_documents libs)"
    and kcp: "keyed_answers libs" and order: "enumerates libs"
    and ok: "docs_ok listed versions (mg_world m)"
  shows "docs_ok listed versions (mg_world (manager_changed (server_env libs ex) m)) \<and>
    listed (sw_documents (mg_world (manager_changed (server_env libs ex) m))) =
      sn_Groups (fst (merge_all (mg_store m) (routed m)))"
proof -
  let ?snap = "fst (router_Snapshot (mg_store m) (mg_router m))" and ?w = "mg_world m"
  let ?w' = "mg_world (manager_changed (server_env libs ex) m)"
  note fin = view_finite[OF inv]
  have pub: "finite (sw_published ?w)" "sw_published ?w = dom (listed (sw_documents ?w))"
    "\<forall>k. versions (sw_documents ?w) k \<noteq> None \<longrightarrow> fst k \<in> sw_published ?w"
    using ok unfolding docs_ok_def by blast+
  have o1: "set (sl_group_order libs (sw_published ?w - groupNames ?snap)) = sw_published ?w - groupNames ?snap"
    and o2: "set (sl_group_order libs (groupNames ?snap)) = groupNames ?snap"
    using order pub(1) fin unfolding enumerates_def by simp_all
  have d: "publish (sl_ParseGroupVersion libs) (sl_documents libs) ?snap
      (sl_group_order libs (sw_published ?w - groupNames ?snap)) (sl_group_order libs (groupNames ?snap))
      (sw_published ?w, sw_documents ?w) = (sw_published ?w', sw_documents ?w')"
    using changed_docs[of libs ex m] by (simp add: docs_of_def)
  note p = publish_keeps_documents_current[OF laws(1) view_keyed[OF inv kcp] laws(2) pub(2,3) o1 o2 d]
  from p have "listed (sw_documents ?w') = sn_Groups ?snap" "sw_published ?w' = dom (listed (sw_documents ?w'))"
    "\<forall>k. versions (sw_documents ?w') k \<noteq> None \<longrightarrow> fst k \<in> sw_published ?w'" by blast+
  with fin show ?thesis by (simp add: docs_ok_def groupNames_def view_is_merge_all[OF inv])
qed

section \<open>In every state\<close>

lemma docs_start:
  assumes inv: "manager_inv T libs ex k m" "k + 2 < 2 ^ 64" and "mg_live m = {}" and "distinct (map wc_Name (ex_Workspaces ex))"
    and laws: "document_laws (sl_documents libs) listed versions" "gm_aggregated (sl_documents libs)"
    and kcp: "keyed_answers libs" and order: "enumerates libs"
    and ok: "docs_ok listed versions (mg_world m)" and start: "hook_start libs ex m = Ok m'"
  shows "docs_ok listed versions (mg_world m')"
proof -
  obtain m1 where ms: "manager_start (server_env libs ex) (ex_Workspaces ex) m = (None, m1)"
    and m': "m' = manager_changed (server_env libs ex) m1"
    using start by (auto simp: hook_start_def split: prod.splits option.splits)
  note m1 = manager_start_inv[OF inv(1) assms(3,4) ms]
  then have "docs_ok listed versions (mg_world m1)" using ok docs_ok_cong by blast
  with changed_publishes[OF _ inv(2) laws kcp order] m1 show ?thesis unfolding m' by blast
qed

lemma docs_tick:
  assumes inv: "manager_inv T libs ex k m" "k + 2 < 2 ^ 64" and ok': "manager_ok (manager_tick (server_env libs ex) reload m)"
    and laws: "document_laws (sl_documents libs) listed versions" "gm_aggregated (sl_documents libs)"
    and kcp: "keyed_answers libs" and order: "enumerates libs"
    and ok: "docs_ok listed versions (mg_world m)" and reload: "me_reload (server_env libs ex) = Some reload"
  shows "docs_ok listed versions (mg_world (manager_tick (server_env libs ex) reload m))"
proof -
  let ?env = "server_env libs ex"
  obtain failed m' where rec: "manager_reconcile ?env reload m = (failed, m')" by (metis surj_pair)
  have ok1: "manager_ok m'" using ok' rec by (cases failed) (simp_all add: manager_tick_def manager_ok_def)
  have "docs_ok listed versions (mg_world m')"
  proof (rule reconcile_router[OF rec server_builds_by_name server_launches server_keeps_docs reload
        reload_offers[OF reload]], assumption)
    fix m3 assume "grows (well_built libs ex) docs_of m m3" and "m' = m3"
    with ok docs_ok_cong show ?thesis unfolding grows_def by blast
  next
    fix m3 nxt mx
    assume g: "grows (well_built libs ex) docs_of m m3"
      and m': "m' = manager_changed ?env (m3\<lparr>mg_router := router_replace nxt (mg_router m3), mg_metrics := mx\<rparr>)"
    let ?m4 = "m3\<lparr>mg_router := router_replace nxt (mg_router m3), mg_metrics := mx\<rparr>"
    have "routed m' = nxt" by (simp add: m' frame_simps)
    with ok_routed[OF ok1] have d: "distinct nxt" "\<forall>a\<in>set nxt. a < mg_next m3" by (simp_all add: m' frame_simps)
    have "manager_inv T libs ex (Suc (Suc k)) ?m4" by (rule inv_replaced_set[OF inv_grows[OF inv(1) g] d]) simp_all
    moreover have "docs_of (mg_world ?m4) = docs_of (mg_world m)" using g by (simp add: grows_def)
    then have "docs_ok listed versions (mg_world ?m4)" using ok docs_ok_cong by blast
    moreover have "Suc (Suc k) < 2 ^ 64" using inv(2) by simp
    ultimately show ?thesis using changed_publishes[OF _ _ laws kcp order] unfolding m' by blast
  qed
  with rec show ?thesis by (cases failed) (simp_all add: manager_tick_def)
qed

lemma set_leading_docs [simp]: "docs_of (mg_world (set_leading l m)) = docs_of (mg_world m)"
  by (simp add: set_leading_def)

lemma cache_refresh_docs: "docs_of (mg_world (cache_refresh libs ex a m)) = docs_of (mg_world m)"
proof -
  let ?env = "server_env libs ex" and ?ws = "mg_store m a"
  obtain r cache mx w where ref: "Refresh (me_ParseGroupVersion ?env) (me_discovery ?env ?ws) (me_now ?env)
      (ws_cache ?ws) (mg_metrics m) (mg_world m) = (r, cache, mx, w)" by (metis prod_cases4)
  have "client_keeps docs_of (me_discovery ?env ?ws)" by (simp add: server_env_def outside_client_keeps)
  from Refresh_keeps[OF this ref] show ?thesis by (simp add: cache_refresh_def Let_def ref)
qed

lemma docs_step:
  assumes "server_step libs ex s t" and inv: "server_inv T libs ex k s" and k: "k + 2 < 2 ^ 64"
    and by_name: "reloads_by_name libs ex" and names: "distinct (map wc_Name (ex_Workspaces ex))"
    and laws: "document_laws (sl_documents libs) listed versions" "gm_aggregated (sl_documents libs)"
    and kcp: "keyed_answers libs" and order: "enumerates libs"
    and ok: "docs_ok listed versions (mg_world (sv_manager s))"
  shows "docs_ok listed versions (mg_world (sv_manager t))"
proof -
  let ?m = "sv_manager s"
  have m: "manager_inv T libs ex k ?m" using inv by (simp add: server_inv_def)
  have k1: "k < 2 ^ 64" using k by simp
  have same: "docs_ok listed versions w" if "docs_of w = docs_of (mg_world ?m)" for w
    using ok docs_ok_cong[OF that] by blast
  have change: "docs_ok listed versions (mg_world (manager_changed (server_env libs ex) m'))"
    if "manager_inv T libs ex k m'" "docs_of (mg_world m') = docs_of (mg_world ?m)" for m'
    using changed_publishes[OF that(1) k1 laws kcp order same[OF that(2)]] by blast
  show ?thesis
    using assms(1)
  proof cases
    case (prepared rg)
    show ?thesis by (rule same) (simp add: prepared(1) registrar_ready_def)
  next
    case (started m')
    have "mg_live ?m = {}" using inv started(2) by (simp add: server_inv_def)
    from docs_start[OF m k this names laws kcp order ok started(3)] show ?thesis by (simp add: started(1))
  next
    case reloaded
    have mok: "manager_ok ?m" using inv reloaded(2) by (simp add: server_inv_def)
    show ?thesis
    proof (cases "me_reload (server_env libs ex)")
      case None
      with ok show ?thesis by (simp add: reloaded(1) manager_run_def)
    next
      case (Some reload)
      note t = tick_inv[OF m mok by_name Some]
      from docs_tick[OF m k conjunct2[OF t] laws kcp order ok Some] ok Some show ?thesis
        by (simp add: reloaded(1) manager_run_def)
    qed
  next
    case (election e l)
    let ?m1 = "set_leading \<lparr>ld_leading = True\<rparr> ?m"
    have "manager_inv T libs ex k ?m1" by (rule inv_same[OF m]) (simp_all add: frame_simps)
    from change[OF this] have "docs_ok listed versions (mg_world (manager_changed (server_env libs ex) ?m1))" by simp
    then have "docs_ok listed versions (mg_world (set_leading l' (manager_changed (server_env libs ex) ?m1)))" for l'
      using docs_ok_cong set_leading_docs by blast
    moreover have "docs_ok listed versions (mg_world (set_leading l' ?m))" for l' by (rule same) simp
    ultimately show ?thesis using elected_cases[of libs ex e l ?m] by (auto simp: election(1))
  next
    case changed
    from change[OF m] show ?thesis by (simp add: changed(1))
  next
    case (refreshed a)
    show ?thesis by (rule same) (simp add: refreshed(1) cache_refresh_docs)
  next
    case requested
    show ?thesis by (rule same) (simp add: requested(1) router_read_def)
  next
    case (rotated a)
    show ?thesis by (rule same) (simp add: rotated(1) cred_rotate_def Let_def split: prod.splits)
  next
    case (proxied a mem mx)
    show ?thesis by (rule same) (simp add: proxied(1) proxy_moved_def Let_def split: prod.splits)
  next
    case (outside x)
    show ?thesis by (rule same) (simp add: outside(1) world_moved_def)
  qed
qed

lemma docs_reach:
  assumes "server_reach libs ex m0 n s" and "n < 2 ^ 60" and new: "new_server ex st0 mx documents x = Ok m0"
    and by_name: "reloads_by_name libs ex" and names: "distinct (map wc_Name (ex_Workspaces ex))"
    and laws: "document_laws (sl_documents libs) listed versions" "gm_aggregated (sl_documents libs)"
    and kcp: "keyed_answers libs" and order: "enumerates libs"
    and empty: "listed documents = Map.empty" "versions documents = Map.empty"
  shows "docs_ok listed versions (mg_world (sv_manager s))"
  using assms(1,2)
proof induction
  case created
  show ?case using new empty by (auto simp: new_server_def docs_ok_def split: if_splits)
next
  case (further n s t)
  then have n: "n < 2 ^ 60" "3 * n + 2 < 2 ^ 64" by simp_all
  from further.IH[OF n(1)] have "docs_ok listed versions (mg_world (sv_manager s))" .
  from docs_step[OF further(2) server_reach_inv[OF further(1) new by_name names] n(2) by_name names laws kcp order this]
  show ?case .
qed

text \<open>
  C3. What is advertised is what is routed. In every state a server can reach, whatever it is doing,
  the groups it believes it has published are exactly those its discovery document lists, and the
  aggregated document has versions of no other; and as soon as what runs on a change has run there, the
  document lists a group exactly when requests for it are routed, as the first workspace in order serving
  it reported it. This needs what the document managers, and kcp about the versions of a group, document.
\<close>

theorem documents_follow_the_workspaces:
  assumes "options_Config self_signed read_file unmarshal v fresh0 apply_to clients al auth o1 = Ok (sc, ex)"
    and "new_server ex st0 mx documents x = Ok m0"
    and "server_reach libs ex m0 n s" and "n < 2 ^ 60"
    and "document_laws (sl_documents libs) listed versions" and "gm_aggregated (sl_documents libs)"
    and "keyed_answers libs" and "enumerates libs"
    and "listed documents = Map.empty" and "versions documents = Map.empty"
  shows "let m = sv_manager s; m' = manager_changed (server_env libs ex) m; d' = sw_documents (mg_world m') in
    sw_published (mg_world m) = dom (listed (sw_documents (mg_world m))) \<and>
    (\<forall>k. versions (sw_documents (mg_world m)) k \<noteq> None \<longrightarrow> fst k \<in> sw_published (mg_world m)) \<and>
    (\<forall>g. listed d' g =
       (case fst (servingFor (mg_store m) (mg_router m) g) of
          None \<Rightarrow> None | Some a \<Rightarrow> sn_Groups (rc_snapshot (ws_cache (mg_store m a))) g)) \<and>
    (\<forall>g. g \<in> dom (listed d') \<longleftrightarrow> fst (servingFor (mg_store m) (mg_router m) g) \<noteq> None)"
proof -
  let ?m = "sv_manager s"
  note ok = docs_reach[OF assms(3,4,2) configured_by_name[OF assms(1)] assms(5-10)]
  have inv: "manager_inv {} libs ex (3 * n) ?m" "3 * n < 2 ^ 64"
    using configured_reach[OF assms(1-3)] assms(4) by (simp_all add: server_inv_def)
  note serving = serving_is_first(1)[OF inv]
  from changed_publishes[OF inv assms(5-8) ok] have
    l: "listed (sw_documents (mg_world (manager_changed (server_env libs ex) ?m))) = sn_Groups (fst (merge_all (mg_store ?m) (routed ?m)))"
    by blast
  have there: "first_serving (mg_store ?m) (routed ?m) g \<noteq> None \<longleftrightarrow>
      (case first_serving (mg_store ?m) (routed ?m) g of
         None \<Rightarrow> None | Some a \<Rightarrow> sn_Groups (rc_snapshot (ws_cache (mg_store ?m a))) g) \<noteq> None" for g
    using first_serving_serves[of "mg_store ?m" "routed ?m" g]
    by (auto simp: ServedGroups_def groupNames_def split: option.splits)
  show ?thesis
    unfolding Let_def l serving
  proof (intro conjI)
    show "sw_published (mg_world ?m) = dom (listed (sw_documents (mg_world ?m)))"
      "\<forall>k. versions (sw_documents (mg_world ?m)) k \<noteq> None \<longrightarrow> fst k \<in> sw_published (mg_world ?m)"
      using ok unfolding docs_ok_def by blast+
    show "\<forall>g. g \<in> dom (sn_Groups (fst (merge_all (mg_store ?m) (routed ?m)))) \<longleftrightarrow>
        first_serving (mg_store ?m) (routed ?m) g \<noteq> None"
      unfolding domIff merge_all_groups using there by blast
  qed (simp add: merge_all_groups)
qed

section \<open>The shape of a server's state\<close>

text \<open>
  What a running workspace is: a cache of its own groups only, a finite map keyed by the groups' names;
  a proxy and a side channel at one address that parsed, with a scheme and a host; credentials made for
  the server at that address; requests counted under its name; and an admission gate.
\<close>

definition workspace_type :: "('c, 'k, 'd, 'x) server_libs \<Rightarrow> 'x workspace_proxy workspace \<Rightarrow> bool" where
  "workspace_type libs w \<longleftrightarrow>
     rc_owned (ws_cache w) = ws_groups w \<and> finite (groupNames (rc_snapshot (ws_cache w))) \<and>
     (\<forall>g\<in>groupNames (rc_snapshot (ws_cache w)). Matches (Some (ws_groups w)) g) \<and>
     well_keyed (sl_ParseGroupVersion libs) (rc_snapshot (ws_cache w)) \<and>
     rp_location (wp_proxy (ws_proxy w)) = bc_location (ws_backend w) \<and>
     (\<exists>server u options.
        wl_ParseURL (sl_workspaces libs) server = Ok u \<and> pu_Scheme u \<noteq> [] \<and> pu_Host u \<noteq> [] \<and>
        bc_location (ws_backend w) = pu_url u \<and> cs_server (wp_credentials (ws_proxy w)) = server \<and>
        belongs (wl_credentials (sl_workspaces libs)) server options (cs_current (wp_credentials (ws_proxy w)))) \<and>
     bt_workspace (wp_transport (ws_proxy w)) = ws_name w \<and> rp_admission (wp_proxy (ws_proxy w)) \<noteq> None"

lemma built_type:
  assumes "well_built libs ex w" and "keyed_answers libs"
  shows "workspace_type libs w"
proof -
  obtain c config u where b: "built_from (sl_workspaces libs) c w"
    and u: "wl_ParseURL (sl_workspaces libs) (ce_Host (wl_credentials (sl_workspaces libs)) config) = Ok u"
      "pu_Scheme u \<noteq> []" "pu_Host u \<noteq> []" "rp_location (wp_proxy (ws_proxy w)) = pu_url u" "bc_location (ws_backend w) = pu_url u"
      "cred_home (wl_credentials (sl_workspaces libs)) (wc_Kubeconfig c) (ce_Host (wl_credentials (sl_workspaces libs)) config)
         (wc_Backend c) (wp_credentials (ws_proxy w))"
    using assms(1) unfolding well_built_def wired_def built_from_def by blast
  have "bt_workspace (wp_transport (ws_proxy w)) = ws_name w" "rp_admission (wp_proxy (ws_proxy w)) \<noteq> None"
    using b by (simp_all add: built_from_def newBackendTransport_def)
  moreover have "cs_server (wp_credentials (ws_proxy w)) = ce_Host (wl_credentials (sl_workspaces libs)) config"
    "belongs (wl_credentials (sl_workspaces libs)) (ce_Host (wl_credentials (sl_workspaces libs)) config) (wc_Backend c)
       (cs_current (wp_credentials (ws_proxy w)))"
    using u(6) by (auto simp: cred_home_def belongs_def)
  moreover have "well_owned w" "well_kept libs w" using assms(1) by (simp_all add: well_built_def)
  ultimately show ?thesis
    using u(1-5) assms(2) unfolding workspace_type_def well_owned_def well_kept_def ServedGroups_def by auto
qed

text \<open>
  C6. The state keeps its shape. In every state a server can reach, in whatever phase, every running
  or routed workspace is one that was built and has the parts described above, they are named apart,
  and the merged view is finite, keyed by the names of the groups, with resources only of versions of
  groups it has, each of which a routed workspace is configured for.
\<close>

theorem server_state_keeps_its_shape:
  assumes "options_Config self_signed read_file unmarshal v fresh0 apply_to clients al auth o1 = Ok (sc, ex)"
    and "new_server ex st0 mx documents x = Ok m0"
    and "server_reach libs ex m0 n s" and "n < 2 ^ 60" and "keyed_answers libs"
  shows "let m = sv_manager s; view = fst (router_Snapshot (mg_store m) (mg_router m)) in
    (\<forall>a. a \<in> mg_live m \<or> a \<in> set (routed m) \<longrightarrow> a < mg_next m \<and> workspace_type libs (mg_store m a)) \<and>
    distinct (map (name_of m) (routed m)) \<and>
    finite (groupNames view) \<and> well_keyed (sl_ParseGroupVersion libs) view \<and> coherent view \<and>
    (\<forall>g\<in>groupNames view. \<exists>a\<in>set (routed m). Matches (Some (ws_groups (mg_store m a))) g)"
proof -
  let ?m = "sv_manager s" and ?view = "fst (router_Snapshot (mg_store (sv_manager s)) (mg_router (sv_manager s)))"
  note server = configured_reach[OF assms(1-3)]
  then have inv: "manager_inv {} libs ex (3 * n) ?m" by (simp add: server_inv_def)
  have n: "3 * n < 2 ^ 64" using assms(4) by simp
  have live: "mg_live ?m = set (routed ?m)" "distinct (map (name_of ?m) (routed ?m))"
    using server by (auto simp: server_inv_def manager_ok_def split: if_splits)
  have typed: "a < mg_next ?m \<and> workspace_type libs (mg_store ?m a)" if "a \<in> set (routed ?m)" for a
    using inv that built_type[OF _ assms(5)] by (auto simp: manager_inv_def)
  have owned: "\<exists>a\<in>set (routed ?m). Matches (Some (ws_groups (mg_store ?m a))) g" if "g \<in> groupNames ?view" for g
  proof -
    from that obtain a where a: "first_serving (mg_store ?m) (routed ?m) g = Some a"
      using serving_is_first(2)[OF inv n, of g] by (auto simp: groupNames_def)
    from first_serving_serves[OF a] typed[of a] show ?thesis by (auto simp: workspace_type_def ServedGroups_def)
  qed
  show ?thesis
    unfolding Let_def
    using live typed owned view_finite[OF inv n] view_keyed[OF inv n assms(5)] merge_all_coherent
    by (simp add: view_is_merge_all[OF inv n])
qed

end
