(* ===== verification/Flags.thy ===== *)
theory Flags
  imports Options
begin

text \<open>
  \<open>AddFlags\<close> of \<open>pkg/cmd/server/options.go\<close>: the command line flags, each a name and a pointer to an
  option. A pointer is how the option is read and how it is changed, of the type of the pflag call that
  registers it; the value it has at that moment is the flag's default. How pflag reads a value is a
  parameter, one function per type, and so is how it finds the settings in the arguments: the options
  are what the settings found, applied in order, leave. Help texts are left out.
\<close>

section \<open>Flags\<close>

datatype flag_var =
    StringVar "SpillwayServerOptions \<Rightarrow> string" "(string \<Rightarrow> string) \<Rightarrow> SpillwayServerOptions \<Rightarrow> SpillwayServerOptions"
  | StringSliceVar "SpillwayServerOptions \<Rightarrow> string list"
      "(string list \<Rightarrow> string list) \<Rightarrow> SpillwayServerOptions \<Rightarrow> SpillwayServerOptions"
  | DurationVar "SpillwayServerOptions \<Rightarrow> duration"
      "(duration \<Rightarrow> duration) \<Rightarrow> SpillwayServerOptions \<Rightarrow> SpillwayServerOptions"
  | IntVar "SpillwayServerOptions \<Rightarrow> int" "(int \<Rightarrow> int) \<Rightarrow> SpillwayServerOptions \<Rightarrow> SpillwayServerOptions"
  | Int32Var "SpillwayServerOptions \<Rightarrow> int" "(int \<Rightarrow> int) \<Rightarrow> SpillwayServerOptions \<Rightarrow> SpillwayServerOptions"
  | BoolVar "SpillwayServerOptions \<Rightarrow> bool" "(bool \<Rightarrow> bool) \<Rightarrow> SpillwayServerOptions \<Rightarrow> SpillwayServerOptions"

definition AddFlags :: "(string \<times> flag_var) list" where
  "AddFlags =
     [(''workspaces-file'', StringVar op_WorkspacesFile op_WorkspacesFile_update),
      (''kcp-kubeconfig'', StringVar op_KCPKubeconfig op_KCPKubeconfig_update),
      (''api-group'', StringSliceVar op_APIGroups op_APIGroups_update),
      (''kcp-resync-period'', DurationVar op_ResyncPeriod op_ResyncPeriod_update),
      (''kcp-credential-reload-period'', DurationVar op_CredentialReloadPeriod op_CredentialReloadPeriod_update),
      (''kcp-request-timeout'', DurationVar (bo_RequestTimeout \<circ> op_Backend) (op_Backend_update \<circ> bo_RequestTimeout_update)),
      (''kcp-retries'', IntVar (bo_Retries \<circ> op_Backend) (op_Backend_update \<circ> bo_Retries_update)),
      (''kcp-failure-threshold'', IntVar (bo_FailureThreshold \<circ> op_Backend) (op_Backend_update \<circ> bo_FailureThreshold_update)),
      (''kcp-circuit-cooldown'', DurationVar (bo_CircuitCooldown \<circ> op_Backend) (op_Backend_update \<circ> bo_CircuitCooldown_update)),
      (''leader-elect'', BoolVar (le_Enabled \<circ> op_LeaderElection) (op_LeaderElection_update \<circ> le_Enabled_update)),
      (''leader-elect-resource-name'', StringVar (le_Name \<circ> op_LeaderElection) (op_LeaderElection_update \<circ> le_Name_update)),
      (''leader-elect-resource-namespace'', StringVar (le_Namespace \<circ> op_LeaderElection) (op_LeaderElection_update \<circ> le_Namespace_update)),
      (''leader-elect-lease-duration'', DurationVar (le_LeaseDuration \<circ> op_LeaderElection) (op_LeaderElection_update \<circ> le_LeaseDuration_update)),
      (''leader-elect-renew-deadline'', DurationVar (le_RenewDeadline \<circ> op_LeaderElection) (op_LeaderElection_update \<circ> le_RenewDeadline_update)),
      (''leader-elect-retry-period'', DurationVar (le_RetryPeriod \<circ> op_LeaderElection) (op_LeaderElection_update \<circ> le_RetryPeriod_update)),
      (''max-requests-inflight'', IntVar op_MaxRequestsInFlight op_MaxRequestsInFlight_update),
      (''max-mutating-requests-inflight'', IntVar op_MaxMutatingRequestsInFlight op_MaxMutatingRequestsInFlight_update),
      (''register-apiservices'', BoolVar (so_Register \<circ> op_APIServices) (op_APIServices_update \<circ> so_Register_update)),
      (''apiservice-service-name'', StringVar (so_ServiceName \<circ> op_APIServices) (op_APIServices_update \<circ> so_ServiceName_update)),
      (''apiservice-service-namespace'', StringVar (so_ServiceNamespace \<circ> op_APIServices) (op_APIServices_update \<circ> so_ServiceNamespace_update)),
      (''apiservice-service-port'', Int32Var (so_ServicePort \<circ> op_APIServices) (op_APIServices_update \<circ> so_ServicePort_update)),
      (''apiservice-ca-bundle-file'', StringVar (so_CABundleFile \<circ> op_APIServices) (op_APIServices_update \<circ> so_CABundleFile_update)),
      (''apiservice-insecure-skip-tls-verify'', BoolVar (so_InsecureSkipTLSVerify \<circ> op_APIServices) (op_APIServices_update \<circ> so_InsecureSkipTLSVerify_update)),
      (''apiservice-group-priority-minimum'', Int32Var (so_GroupPriorityMinimum \<circ> op_APIServices) (op_APIServices_update \<circ> so_GroupPriorityMinimum_update)),
      (''apiservice-version-priority'', Int32Var (so_VersionPriority \<circ> op_APIServices) (op_APIServices_update \<circ> so_VersionPriority_update)),
      (''authorization-qps'', IntVar op_AuthorizationQPS op_AuthorizationQPS_update),
      (''authorization-burst'', IntVar op_AuthorizationBurst op_AuthorizationBurst_update),
      (''mirror-namespaces'', BoolVar op_MirrorNamespaces op_MirrorNamespaces_update),
      (''kcp-impersonate-users'', BoolVar op_ImpersonateUsers op_ImpersonateUsers_update)]"

text \<open>The value behind a pointer.\<close>

datatype flag_value =
    StringValue string
  | SliceValue "string list"
  | DurationValue duration
  | IntValue int
  | Int32Value int
  | BoolValue bool

fun var_value :: "flag_var \<Rightarrow> SpillwayServerOptions \<Rightarrow> flag_value" where
  "var_value (StringVar get _) o1 = StringValue (get o1)"
| "var_value (StringSliceVar get _) o1 = SliceValue (get o1)"
| "var_value (DurationVar get _) o1 = DurationValue (get o1)"
| "var_value (IntVar get _) o1 = IntValue (get o1)"
| "var_value (Int32Var get _) o1 = Int32Value (get o1)"
| "var_value (BoolVar get _) o1 = BoolValue (get o1)"

section \<open>Settings\<close>

text \<open>
  pflag's readers of a value, one per type. The reader of a slice is told whether the flag was set
  before and what the slice holds.
\<close>

record value_readers =
  vr_string :: "string \<Rightarrow> (string, string) result"
  vr_slice :: "bool \<Rightarrow> string list \<Rightarrow> string \<Rightarrow> (string, string list) result"
  vr_duration :: "string \<Rightarrow> (string, duration) result"
  vr_int :: "string \<Rightarrow> (string, int) result"
  vr_int32 :: "string \<Rightarrow> (string, int) result"
  vr_bool :: "string \<Rightarrow> (string, bool) result"

definition store :: "(('a \<Rightarrow> 'a) \<Rightarrow> SpillwayServerOptions \<Rightarrow> SpillwayServerOptions) \<Rightarrow> (string, 'a) result \<Rightarrow>
    SpillwayServerOptions \<Rightarrow> (string, SpillwayServerOptions) result" where
  "store upd r o1 = (case r of Err e \<Rightarrow> Err e | Ok v \<Rightarrow> Ok (upd (\<lambda>_. v) o1))"

fun set_var :: "value_readers \<Rightarrow> flag_var \<Rightarrow> bool \<Rightarrow> string \<Rightarrow> SpillwayServerOptions \<Rightarrow>
    (string, SpillwayServerOptions) result" where
  "set_var vr (StringVar _ upd) changed raw o1 = store upd (vr_string vr raw) o1"
| "set_var vr (StringSliceVar get upd) changed raw o1 = store upd (vr_slice vr changed (get o1) raw) o1"
| "set_var vr (DurationVar _ upd) changed raw o1 = store upd (vr_duration vr raw) o1"
| "set_var vr (IntVar _ upd) changed raw o1 = store upd (vr_int vr raw) o1"
| "set_var vr (Int32Var _ upd) changed raw o1 = store upd (vr_int32 vr raw) o1"
| "set_var vr (BoolVar _ upd) changed raw o1 = store upd (vr_bool vr raw) o1"

text \<open>
  The settings of a command line, applied in order. The flags the recommended options register are
  theirs: \<open>set_recommended\<close>, over a state \<open>'r\<close>, refuses a name that is none.
\<close>

fun apply_settings :: "value_readers \<Rightarrow> (string \<Rightarrow> string \<Rightarrow> 'r \<Rightarrow> (string, 'r) result) \<Rightarrow> (string \<times> string) list \<Rightarrow>
    string set \<Rightarrow> SpillwayServerOptions \<times> 'r \<Rightarrow> (string, SpillwayServerOptions \<times> 'r) result" where
  "apply_settings vr set_recommended [] changed st = Ok st"
| "apply_settings vr set_recommended ((name, raw) # settings) changed st =
     (case map_of AddFlags name of
        Some var \<Rightarrow>
          (case set_var vr var (name \<in> changed) raw (fst st) of
             Err e \<Rightarrow> Err e
           | Ok o1 \<Rightarrow> apply_settings vr set_recommended settings (insert name changed) (o1, snd st))
      | None \<Rightarrow>
          (case set_recommended name raw (snd st) of
             Err e \<Rightarrow> Err e
           | Ok r \<Rightarrow> apply_settings vr set_recommended settings (insert name changed) (fst st, r)))"

section \<open>Each flag has an option of its own\<close>

lemma store_ok: "store upd r o1 = Ok o2 \<longleftrightarrow> (\<exists>v. r = Ok v \<and> o2 = upd (\<lambda>_. v) o1)"
  by (auto simp: store_def split: sum.splits)

text \<open>What a setting makes of the value of its flag, and what all settings of one name do.\<close>

fun next_value :: "value_readers \<Rightarrow> bool \<Rightarrow> string \<Rightarrow> flag_value \<Rightarrow> (string, flag_value) result" where
  "next_value vr changed raw (StringValue _) = map_sum id StringValue (vr_string vr raw)"
| "next_value vr changed raw (SliceValue vs) = map_sum id SliceValue (vr_slice vr changed vs raw)"
| "next_value vr changed raw (DurationValue _) = map_sum id DurationValue (vr_duration vr raw)"
| "next_value vr changed raw (IntValue _) = map_sum id IntValue (vr_int vr raw)"
| "next_value vr changed raw (Int32Value _) = map_sum id Int32Value (vr_int32 vr raw)"
| "next_value vr changed raw (BoolValue _) = map_sum id BoolValue (vr_bool vr raw)"

fun flag_reading :: "value_readers \<Rightarrow> bool \<Rightarrow> string list \<Rightarrow> flag_value \<Rightarrow> (string, flag_value) result" where
  "flag_reading vr changed [] value = Ok value"
| "flag_reading vr changed (raw # raws) value =
     (case next_value vr changed raw value of Err e \<Rightarrow> Err e | Ok v \<Rightarrow> flag_reading vr True raws v)"

definition settings_of :: "string \<Rightarrow> (string \<times> string) list \<Rightarrow> string list" where
  "settings_of name settings = map snd (filter (\<lambda>s. fst s = name) settings)"

lemma flag_names_distinct: "distinct (map fst AddFlags)"
  by code_simp

definition sound_pointer :: "flag_var \<Rightarrow> bool" where
  "sound_pointer var \<longleftrightarrow> (\<forall>vr changed raw o1 o2. set_var vr var changed raw o1 = Ok o2 \<longrightarrow>
     next_value vr changed raw (var_value var o1) = Ok (var_value var o2))"

definition leaves :: "flag_var \<Rightarrow> flag_var \<Rightarrow> bool" where
  "leaves var var' \<longleftrightarrow> (\<forall>vr changed raw o1 o2. set_var vr var changed raw o1 = Ok o2 \<longrightarrow>
     var_value var' o2 = var_value var' o1)"

lemma pointers_sound: "list_all (\<lambda>f. sound_pointer (snd f)) AddFlags"
  by (auto simp: AddFlags_def sound_pointer_def store_ok)

fun apart :: "flag_var \<Rightarrow> flag_var \<Rightarrow> bool" where
  "apart (StringVar _ upd) var' = (\<forall>f o1. var_value var' (upd f o1) = var_value var' o1)"
| "apart (StringSliceVar _ upd) var' = (\<forall>f o1. var_value var' (upd f o1) = var_value var' o1)"
| "apart (DurationVar _ upd) var' = (\<forall>f o1. var_value var' (upd f o1) = var_value var' o1)"
| "apart (IntVar _ upd) var' = (\<forall>f o1. var_value var' (upd f o1) = var_value var' o1)"
| "apart (Int32Var _ upd) var' = (\<forall>f o1. var_value var' (upd f o1) = var_value var' o1)"
| "apart (BoolVar _ upd) var' = (\<forall>f o1. var_value var' (upd f o1) = var_value var' o1)"

lemma apart_leaves: "apart var var' \<Longrightarrow> leaves var var'"
  by (cases var) (auto simp: leaves_def store_ok)

lemma pointers_apart: "sorted_wrt (\<lambda>f f'. apart (snd f) (snd f') \<and> apart (snd f') (snd f)) AddFlags"
  by (simp add: AddFlags_def)

lemma sorted_wrt_pair:
  assumes "sorted_wrt (\<lambda>x y. P x y \<and> P y x) xs" and "x \<in> set xs" and "y \<in> set xs" and "x \<noteq> y"
  shows "P x y"
  using assms by (induction xs) auto

lemma flags_leave:
  assumes "(name, var) \<in> set AddFlags" and "(name', var') \<in> set AddFlags" and "name \<noteq> name'"
    and "set_var vr var changed raw o1 = Ok o2"
  shows "var_value var' o2 = var_value var' o1"
proof -
  from sorted_wrt_pair[OF pointers_apart assms(1,2)] assms(3) have "apart var var'" by simp
  from apart_leaves[OF this] assms(4) show ?thesis unfolding leaves_def by blast
qed

lemma flag_moves:
  assumes "(name, var) \<in> set AddFlags" and "set_var vr var changed raw o1 = Ok o2"
  shows "next_value vr changed raw (var_value var o1) = Ok (var_value var o2)"
  using pointers_sound assms by (auto simp: list_all_iff sound_pointer_def)

lemma flag_found: "map_of AddFlags name = Some var \<longleftrightarrow> (name, var) \<in> set AddFlags"
  by (rule map_of_eq_Some_iff[OF flag_names_distinct])

lemma settings_of_simps [simp]:
  "settings_of name [] = []"
  "settings_of name ((n, raw) # settings) = (if n = name then raw # settings_of name settings else settings_of name settings)"
  by (simp_all add: settings_of_def)

lemma settings_set_flags:
  assumes "apply_settings vr set_recommended settings changed (o1, r1) = Ok (o2, r2)" and "(name, var) \<in> set AddFlags"
  shows "flag_reading vr (name \<in> changed) (settings_of name settings) (var_value var o1) = Ok (var_value var o2)"
  using assms(1)
proof (induction settings arbitrary: changed o1 r1)
  case Nil
  then show ?case by simp
next
  case (Cons s settings)
  obtain n raw where s: "s = (n, raw)" by fastforce
  show ?case
  proof (cases "map_of AddFlags n")
    case None
    then have "n \<noteq> name" using assms(2) flag_found[of n] by auto
    from None Cons.prems obtain r3 where "apply_settings vr set_recommended settings (insert n changed) (o1, r3) = Ok (o2, r2)"
      unfolding s by (auto split: sum.splits)
    from Cons.IH[OF this] \<open>n \<noteq> name\<close> show ?thesis unfolding s by simp
  next
    case (Some var1)
    then have v1: "(n, var1) \<in> set AddFlags" by (simp add: flag_found)
    from Some Cons.prems obtain o3 where o3: "set_var vr var1 (n \<in> changed) raw o1 = Ok o3"
      "apply_settings vr set_recommended settings (insert n changed) (o3, r1) = Ok (o2, r2)"
      unfolding s by (auto split: sum.splits)
    note IH = Cons.IH[OF o3(2)]
    show ?thesis
    proof (cases "n = name")
      case True
      then have "var1 = var" using v1 assms(2) flag_found by (metis option.inject)
      with flag_moves[OF v1 o3(1)] IH True show ?thesis unfolding s by simp
    next
      case False
      with flags_leave[OF v1 assms(2) _ o3(1)] IH show ?thesis unfolding s by auto
    qed
  qed
qed

lemma options_by_value:
  "map (\<lambda>f. var_value (snd f) o1) AddFlags = map (\<lambda>f. var_value (snd f) o2) AddFlags \<longleftrightarrow> o1 = o2"
  by (auto simp: AddFlags_def intro!: SpillwayServerOptions.equality BackendOptions.equality
      LeaderElectionOptions.equality APIServiceOptions.equality)

text \<open>
  C8. Every flag has an option of its own, every option a flag: after the settings of a command line
  were applied, the value of each flag is what its own settings, in order, make of its default, whatever
  the other flags were set to, pflag's reader of a slice being told rightly whether the flag was set
  before; and options that agree on the values of all flags are the same.
\<close>

theorem flags_set_their_own_option:
  assumes "apply_settings vr set_recommended settings {} (defaults, r1) = Ok (o1, r2)"
    and "(name, var) \<in> set AddFlags"
  shows "flag_reading vr False (settings_of name settings) (var_value var defaults) = Ok (var_value var o1) \<and>
    (\<forall>o2. map (\<lambda>f. var_value (snd f) o1) AddFlags = map (\<lambda>f. var_value (snd f) o2) AddFlags \<longleftrightarrow> o1 = o2)"
  using settings_set_flags[OF assms] options_by_value[of o1] by simp

text \<open>
  Readers that take a string as it is, add to a slice what comes after its first setting, as pflag
  documents, and read a number as its length.
\<close>

definition sample_readers :: value_readers where
  "sample_readers =
     \<lparr>vr_string = Ok, vr_slice = (\<lambda>changed vs raw. Ok (if changed then vs @ [raw] else [raw])),
      vr_duration = (\<lambda>raw. Ok (int (length raw) * second)), vr_int = (\<lambda>raw. Ok (int (length raw))),
      vr_int32 = (\<lambda>raw. Ok (int (length raw))), vr_bool = (\<lambda>raw. Ok (raw = ''true''))\<rparr>"

definition sample_settings :: "(string \<times> string) list" where
  "sample_settings = [(''api-group'', ''a.b.c''), (''kcp-retries'', ''xxx''), (''api-group'', ''d.e.f'')]"

lemma sample_flags:
  "map_of AddFlags ''api-group'' = Some (StringSliceVar op_APIGroups op_APIGroups_update)"
  "map_of AddFlags ''kcp-retries'' = Some (IntVar (bo_Retries \<circ> op_Backend) (op_Backend_update \<circ> bo_Retries_update))"
  by (simp_all add: AddFlags_def)

lemma sample_settings_apply:
  "is_ok (apply_settings sample_readers (\<lambda>_ _ _. Err []) sample_settings {} (NewSpillwayServerOptions [], ()))"
  by (simp add: sample_settings_def sample_flags sample_readers_def store_def)

theorem flags_set_their_own_option_witness:
  "\<exists>o1. apply_settings sample_readers (\<lambda>_ _ _. Err []) sample_settings {} (NewSpillwayServerOptions [], ()) = Ok (o1, ()) \<and>
     op_APIGroups o1 = [''a.b.c'', ''d.e.f''] \<and> bo_Retries (op_Backend o1) = 3"
proof -
  obtain o1 where o1: "apply_settings sample_readers (\<lambda>_ _ _. Err []) sample_settings {} (NewSpillwayServerOptions [], ()) = Ok (o1, ())"
    using sample_settings_apply by (auto simp: is_ok_iff)
  note each = flags_set_their_own_option[OF o1, THEN conjunct1, OF sample_flags(1)[unfolded flag_found]]
    flags_set_their_own_option[OF o1, THEN conjunct1, OF sample_flags(2)[unfolded flag_found]]
  have "op_APIGroups o1 = [''a.b.c'', ''d.e.f'']" "bo_Retries (op_Backend o1) = 3"
    using each by (simp_all add: sample_settings_def sample_readers_def NewSpillwayServerOptions_def)
  with o1 show ?thesis by blast
qed

end
