(* ===== verification/Command.thy ===== *)
theory Command
  imports Flags Server
begin

text \<open>
  \<open>NewCommandStartSpillway\<close> and \<open>Run\<close> of \<open>pkg/cmd/server/options.go\<close>, \<open>New\<close> of
  \<open>pkg/apiserver/apiserver.go\<close> and \<open>cmd/spillway/main.go\<close>: from the arguments of the process to a server
  whose hooks are about to run. What cobra, pflag, the recommended options (a state \<open>'r\<close>) and the generic
  server do is in \<open>command_libs\<close>. The workspaces file is read twice, to validate and to configure, and may
  have changed in between.
\<close>

section \<open>Starting\<close>

datatype command_error =
    FlagRedefined string
  | BadFlags string
  | InvalidOptions "option_error list"
  | ConfigFailed config_error
  | GenericServerFailed string
  | MetricsPanicked string
  | ServerFailed new_error
  | ReadinessCheckFailed string

record ('r, 'k, 'w, 'c, 'f, 'l, 'b) command_libs =
  co_readers :: value_readers
  co_settings :: "string list \<Rightarrow> (string, (string \<times> string) list) result"
  co_recommended :: 'r
  co_recommended_flags :: "string list"
  co_set_recommended :: "string \<Rightarrow> string \<Rightarrow> 'r \<Rightarrow> (string, 'r) result"
  co_Validate :: "'r \<Rightarrow> string list"
  co_self_signed :: "'r \<Rightarrow> (string, unit) result"
  co_ApplyTo :: "'r \<Rightarrow> ('k, 'w) server_config \<Rightarrow> (string, ('k, 'w) server_config) result"
  co_authorization :: "'r \<Rightarrow> ('b, 'f) authorization_options option"
  co_fresh_config :: "('k, 'w) server_config"
  co_clients :: "('c, 'f, 'l) client_libs"
  co_authorizers :: "('l, 'b, 'w) authorizer_libs"
  co_read_validating :: "string \<Rightarrow> (string, string) result"
  co_read_configuring :: "string \<Rightarrow> (string, string) result"
  co_unmarshal :: "string \<Rightarrow> (string, WorkspaceEntry list) result"
  co_parse_semantic :: "string \<Rightarrow> (string, string) result"
  co_version :: string
  co_Complete :: "('k, 'w) server_config \<Rightarrow> ('k, 'w) server_config"
  co_must_register :: "metric_vector \<Rightarrow> string set \<Rightarrow> (string, string set) result"
  co_generic_New :: "('k, 'w) server_config \<Rightarrow> (string, unit) result"
  co_AddReadyzChecks :: "(string, unit) result"

text \<open>
  What a server starts from: the manager of \<open>New\<close>, under an empty router and an untouched world, and
  the process: whether its metrics have been registered, and the series of its registry.
\<close>

record ('x, 'd) beginnings =
  be_store :: "'x server_store"
  be_metrics :: metrics
  be_documents :: 'd
  be_outside :: 'x
  be_registry :: "bool \<times> string set"

text \<open>What there is once \<open>New\<close> has returned.\<close>

type_synonym ('d, 'x) started = "('d, 'x) server_manager \<times> bool \<times> string set"

text \<open>\<open>Complete\<close>: the recommended config completes itself, the extra config is kept as it is.\<close>

definition config_Complete :: "('r, 'k, 'w, 'c, 'f, 'l, 'b) command_libs \<Rightarrow>
    ('k, 'w) server_config \<times> 'k ExtraConfig \<Rightarrow> ('k, 'w) server_config \<times> 'k ExtraConfig" where
  "config_Complete libs config = (co_Complete libs (fst config), snd config)"

definition completed_New :: "('r, 'k, 'w, 'c, 'f, 'l, 'b) command_libs \<Rightarrow> ('x, 'd) beginnings \<Rightarrow>
    ('k, 'w) server_config \<times> 'k ExtraConfig \<Rightarrow> (command_error, ('d, 'x) started) result" where
  "completed_New libs be config =
     (case co_generic_New libs (fst config) of
        Err e \<Rightarrow> Err (GenericServerFailed e)
      | Ok _ \<Rightarrow>
     (case RegisterMetrics (co_must_register libs) (be_registry be) of
        Err panic \<Rightarrow> Err (MetricsPanicked panic)
      | Ok registry \<Rightarrow>
     (case new_server (snd config) (be_store be) (be_metrics be) (be_documents be) (be_outside be) of
        Err e \<Rightarrow> Err (ServerFailed e)
      | Ok m \<Rightarrow>
     (case co_AddReadyzChecks libs of
        Err e \<Rightarrow> Err (ReadinessCheckFailed e)
      | Ok _ \<Rightarrow> Ok (m, registry)))))"

definition run_Config :: "('r, 'k, 'w, 'c, 'f, 'l, 'b) command_libs \<Rightarrow> SpillwayServerOptions \<times> 'r \<Rightarrow>
    (config_error, ('k, 'w) server_config \<times> 'k ExtraConfig) result" where
  "run_Config libs o1 =
     options_Config (co_self_signed libs (snd o1)) (co_read_configuring libs) (co_unmarshal libs)
       (APIVersion (co_parse_semantic libs) (co_version libs)) (co_fresh_config libs) (co_ApplyTo libs (snd o1))
       (co_clients libs) (co_authorizers libs) (co_authorization libs (snd o1)) (fst o1)"

text \<open>\<open>Run\<close>, up to where the generic server takes over: its hooks are steps of \<open>Server_Life\<close>.\<close>

definition options_Run :: "('r, 'k, 'w, 'c, 'f, 'l, 'b) command_libs \<Rightarrow> ('x, 'd) beginnings \<Rightarrow>
    SpillwayServerOptions \<times> 'r \<Rightarrow> (command_error, 'k ExtraConfig \<times> ('d, 'x) started) result" where
  "options_Run libs be o1 =
     (case run_Config libs o1 of
        Err e \<Rightarrow> Err (ConfigFailed e)
      | Ok config \<Rightarrow>
          (case completed_New libs be (config_Complete libs config) of
             Err e \<Rightarrow> Err e
           | Ok made \<Rightarrow> Ok (snd config, made)))"

definition RunE :: "('r, 'k, 'w, 'c, 'f, 'l, 'b) command_libs \<Rightarrow> ('x, 'd) beginnings \<Rightarrow>
    SpillwayServerOptions \<times> 'r \<Rightarrow> (command_error, 'k ExtraConfig \<times> ('d, 'x) started) result" where
  "RunE libs be o1 =
     (let completed = options_Complete (fst o1) in
      case options_Validate (co_read_validating libs) (co_unmarshal libs) (co_Validate libs (snd o1)) completed of
        [] \<Rightarrow> options_Run libs be (completed, snd o1)
      | errs \<Rightarrow> Err (InvalidOptions errs))"

text \<open>
  The command: registering a flag under a name that is taken panics; the settings found in the
  arguments are applied to a copy of the defaults; and what is left runs.
\<close>

definition NewCommandStartSpillway :: "('r, 'k, 'w, 'c, 'f, 'l, 'b) command_libs \<Rightarrow> ('x, 'd) beginnings \<Rightarrow>
    SpillwayServerOptions \<Rightarrow> string list \<Rightarrow> (command_error, 'k ExtraConfig \<times> ('d, 'x) started) result" where
  "NewCommandStartSpillway libs be defaults args =
     (case find (\<lambda>name. name \<in> set (co_recommended_flags libs)) (map fst AddFlags) of
        Some name \<Rightarrow> Err (FlagRedefined name)
      | None \<Rightarrow>
          (case co_settings libs args of
             Err e \<Rightarrow> Err (BadFlags e)
           | Ok settings \<Rightarrow>
               (case apply_settings (co_readers libs) (co_set_recommended libs) settings {}
                       (defaults, co_recommended libs) of
                  Err e \<Rightarrow> Err (BadFlags e)
                | Ok o1 \<Rightarrow> RunE libs be o1)))"

text \<open>\<open>main\<close>: the default options of a pod in the namespace it finds itself in.\<close>

definition spillway_main :: "('r, 'k, 'w, 'c, 'f, 'l, 'b) command_libs \<Rightarrow> (string \<Rightarrow> string) \<Rightarrow> ('x, 'd) beginnings \<Rightarrow>
    string list \<Rightarrow> (command_error, 'k ExtraConfig \<times> ('d, 'x) started) result" where
  "spillway_main libs trim_space be args =
     NewCommandStartSpillway libs be
       (NewSpillwayServerOptions (DefaultServiceNamespace (co_read_validating libs) trim_space)) args"

section \<open>What has been checked by then\<close>

lemma Validate_recommended:
  "options_Validate read_file unmarshal recommended o1 = [] \<Longrightarrow> recommended = []"
  by (simp add: options_Validate_def)

lemma RunE_ok:
  "RunE libs be (o1, r) = Ok started \<longleftrightarrow>
     options_Validate (co_read_validating libs) (co_unmarshal libs) (co_Validate libs r) (options_Complete o1) = [] \<and>
     options_Run libs be (options_Complete o1, r) = Ok started"
  by (auto simp: RunE_def Let_def split: list.splits)

lemma command_ok:
  "NewCommandStartSpillway libs be defaults args = Ok started \<longleftrightarrow>
     (\<forall>name\<in>set (map fst AddFlags). name \<notin> set (co_recommended_flags libs)) \<and>
     (\<exists>settings o1 r. co_settings libs args = Ok settings \<and>
        apply_settings (co_readers libs) (co_set_recommended libs) settings {} (defaults, co_recommended libs) = Ok (o1, r) \<and>
        RunE libs be (o1, r) = Ok started)"
proof (cases "find (\<lambda>name. name \<in> set (co_recommended_flags libs)) (map fst AddFlags)")
  case None
  then have free: "\<forall>name\<in>set (map fst AddFlags). name \<notin> set (co_recommended_flags libs)"
    by (simp add: find_None_iff)
  from None free show ?thesis by (auto simp: NewCommandStartSpillway_def split: sum.splits)
next
  case (Some name)
  then obtain i where "i < length (map fst AddFlags)" "map fst AddFlags ! i \<in> set (co_recommended_flags libs)"
      "name = map fst AddFlags ! i" unfolding find_Some_iff by blast
  then have "name \<in> set (map fst AddFlags)" "name \<in> set (co_recommended_flags libs)" by (simp_all only: nth_mem)
  with Some show ?thesis by (auto simp: NewCommandStartSpillway_def)
qed

lemma options_Run_ok:
  "options_Run libs be o1 = Ok (ex, m, registry) \<longleftrightarrow>
     (\<exists>sc. run_Config libs o1 = Ok (sc, ex) \<and> co_generic_New libs (co_Complete libs sc) = Ok () \<and>
        co_AddReadyzChecks libs = Ok () \<and> RegisterMetrics (co_must_register libs) (be_registry be) = Ok registry \<and>
        new_server ex (be_store be) (be_metrics be) (be_documents be) (be_outside be) = Ok m)"
  by (auto simp: options_Run_def completed_New_def config_Complete_def split: sum.splits)

lemma RunE_fails:
  assumes "RunE libs be (o1, r) = Err e" and "co_read_configuring libs = co_read_validating libs"
  shows "case e of InvalidOptions errs \<Rightarrow> errs \<noteq> [] | ConfigFailed (ResolvingWorkspaces _) \<Rightarrow> False | ServerFailed _ \<Rightarrow> False
    | _ \<Rightarrow> True"
proof (cases "options_Validate (co_read_validating libs) (co_unmarshal libs) (co_Validate libs r) (options_Complete o1)")
  case (Cons err errs)
  with assms(1) show ?thesis by (auto simp: RunE_def)
next
  case Nil
  let ?c = "(options_Complete o1, r)"
  from valid_options_resolve[OF Nil] obtain configs where
    w: "options_workspaces (co_read_configuring libs) (co_unmarshal libs) (options_Complete o1) = Ok configs" "configs \<noteq> []"
    unfolding assms(2) by blast
  from Nil assms(1) have run: "options_Run libs be ?c = Err e" by (simp add: RunE_def)
  show ?thesis
  proof (cases "run_Config libs ?c")
    case (Inl err)
    with run have "e = ConfigFailed err" by (simp add: options_Run_def)
    moreover have "\<forall>x. err \<noteq> ResolvingWorkspaces x"
      using config_unresolved Inl w(1) unfolding run_Config_def by fastforce
    ultimately show ?thesis by (cases err) simp_all
  next
    case (Inr config)
    obtain sc ex where config: "config = (sc, ex)" by fastforce
    from config_carries(1)[OF Inr[unfolded run_Config_def config]] w have "ex_Workspaces ex \<noteq> []"
      by (auto simp: extraConfig_def)
    with run Inr config show ?thesis
      by (auto simp: options_Run_def completed_New_def config_Complete_def new_server_def split: sum.splits)
  qed
qed

text \<open>
  The configuration a server runs under, field by field as the options have it: nothing an option says
  is lost on the way, and reading the file again inherits from the same flags.
\<close>

definition says_the_options :: "(string \<Rightarrow> (string, WorkspaceEntry list) result) \<Rightarrow> SpillwayServerOptions \<Rightarrow>
    'k ExtraConfig \<Rightarrow> bool" where
  "says_the_options unmarshal o1 ex \<longleftrightarrow>
     ex_MirrorNamespaces ex = op_MirrorNamespaces o1 \<and>
     ex_CredentialReloadPeriod ex = op_CredentialReloadPeriod o1 \<and>
     ex_ResyncPeriod ex = op_ResyncPeriod o1 \<and>
     ex_ImpersonateUsers ex = op_ImpersonateUsers o1 \<and>
     ex_Backend ex = op_Backend o1 \<and>
     ex_APIServices ex = op_APIServices o1 \<and>
     ex_LeaderElection ex = op_LeaderElection o1 \<and>
     (case ex_ReloadWorkspaces ex of
        None \<Rightarrow> op_WorkspacesFile o1 = []
      | Some reload \<Rightarrow> op_WorkspacesFile o1 \<noteq> [] \<and>
          (\<forall>read_file. reload read_file = loadWorkspaces read_file unmarshal (op_WorkspacesFile o1)
             \<lparr>wc_Name = [], wc_Kubeconfig = [], wc_APIGroups = new_matcher, wc_Backend = op_Backend o1,
              wc_ImpersonateUsers = op_ImpersonateUsers o1\<rparr>))"

text \<open>
  Where its workspaces come from: the file, read again to configure, entry by entry; or, without one, a
  single workspace of the groups and the kubeconfig on the command line.
\<close>

definition come_from :: "(string \<Rightarrow> (string, string) result) \<Rightarrow> (string \<Rightarrow> (string, WorkspaceEntry list) result) \<Rightarrow>
    SpillwayServerOptions \<Rightarrow> WorkspaceConfig list \<Rightarrow> bool" where
  "come_from read_file unmarshal o1 workspaces \<longleftrightarrow>
     (if op_WorkspacesFile o1 = [] then
        (\<exists>c. workspaces = [c] \<and> wc_Name c = ''default'' \<and> wc_Kubeconfig c = op_KCPKubeconfig o1 \<and>
           ParseGroupMatcher (sorted_list_of_set (set (op_APIGroups o1))) = Ok (wc_APIGroups c) \<and>
           wc_Backend c = op_Backend o1 \<and> wc_ImpersonateUsers c = op_ImpersonateUsers o1)
      else
        (\<exists>raw entries flags. read_file (op_WorkspacesFile o1) = Ok raw \<and> unmarshal raw = Ok entries \<and>
           wc_Backend flags = op_Backend o1 \<and> wc_ImpersonateUsers flags = op_ImpersonateUsers o1 \<and>
           list_all2 (inherits flags) entries workspaces))"

lemma completed_options:
  "op_WorkspacesFile (options_Complete o1) = op_WorkspacesFile o1" "op_KCPKubeconfig (options_Complete o1) = op_KCPKubeconfig o1"
  "op_MirrorNamespaces (options_Complete o1) = op_MirrorNamespaces o1"
  "op_CredentialReloadPeriod (options_Complete o1) = op_CredentialReloadPeriod o1"
  "op_ResyncPeriod (options_Complete o1) = op_ResyncPeriod o1" "op_ImpersonateUsers (options_Complete o1) = op_ImpersonateUsers o1"
  "op_Backend (options_Complete o1) = op_Backend o1" "op_APIServices (options_Complete o1) = op_APIServices o1"
  "op_LeaderElection (options_Complete o1) = op_LeaderElection o1"
  "op_MaxRequestsInFlight (options_Complete o1) = op_MaxRequestsInFlight o1"
  "op_MaxMutatingRequestsInFlight (options_Complete o1) = op_MaxMutatingRequestsInFlight o1"
  "op_AuthorizationQPS (options_Complete o1) = op_AuthorizationQPS o1"
  "op_AuthorizationBurst (options_Complete o1) = op_AuthorizationBurst o1"
  "op_APIGroups (options_Complete o1) = sorted_list_of_set (set (op_APIGroups o1))"
  by (simp_all add: options_Complete_def)

lemma extraConfig_says:
  "says_the_options unmarshal o1 (extraConfig unmarshal (options_Complete o1) workspaces cluster)"
  by (simp add: says_the_options_def extraConfig_def reloadWorkspaces_def workspaceDefaults_def completed_options)

lemma resolved_come_from:
  assumes "options_workspaces read_file unmarshal (options_Complete o1) = Ok workspaces"
  shows "come_from read_file unmarshal o1 workspaces"
proof (cases "op_WorkspacesFile o1 = []")
  case True
  with assms show ?thesis
    by (auto simp: come_from_def options_workspaces_def workspaceDefaults_def completed_options split: sum.splits)
next
  case False
  with assms have "loadWorkspaces read_file unmarshal (op_WorkspacesFile o1) (workspaceDefaults (options_Complete o1)) = Ok workspaces"
    by (auto simp: options_workspaces_def completed_options split: sum.splits)
  from this[unfolded loaded_iff] obtain raw entries where
    f: "read_file (op_WorkspacesFile o1) = Ok raw" "unmarshal raw = Ok entries" and
    v: "valid_entries (workspaceDefaults (options_Complete o1)) entries \<and>
      workspaces = map (configure (workspaceDefaults (options_Complete o1))) entries" by blast
  from v[unfolded valid_entries_iff]
  have "list_all2 (inherits (workspaceDefaults (options_Complete o1))) entries workspaces" by blast
  moreover have "wc_Backend (workspaceDefaults (options_Complete o1)) = op_Backend o1"
    "wc_ImpersonateUsers (workspaceDefaults (options_Complete o1)) = op_ImpersonateUsers o1"
    by (simp_all add: workspaceDefaults_def completed_options)
  ultimately show ?thesis using False f unfolding come_from_def by auto
qed


section \<open>A command line\<close>

definition sample_server_config :: "(unit, nat) server_config" where
  "sample_server_config =
     \<lparr>vc_EffectiveVersion = [], vc_MaxRequestsInFlight = 0, vc_MaxMutatingRequestsInFlight = 0,
      vc_Authorizer = (\<lambda>_ w. (DecisionDeny, w)), vc_ClientConfig = None\<rparr>"

text \<open>Every argument is an API group; nothing outside fails.\<close>

definition sample_command :: "(unit, unit, nat, unit, unit, unit, unit) command_libs" where
  "sample_command =
     \<lparr>co_readers = sample_readers, co_settings = (\<lambda>args. Ok (map (\<lambda>a. (''api-group'', a)) args)),
      co_recommended = (), co_recommended_flags = [''secure-port''], co_set_recommended = (\<lambda>_ _ _. Err []),
      co_Validate = (\<lambda>_. []), co_self_signed = (\<lambda>_. Ok ()), co_ApplyTo = (\<lambda>_. Ok), co_authorization = (\<lambda>_. None),
      co_fresh_config = sample_server_config, co_clients = sample_clients, co_authorizers = counting_authorizers,
      co_read_validating = (\<lambda>_. Err []), co_read_configuring = (\<lambda>_. Err []), co_unmarshal = (\<lambda>_. Err []),
      co_parse_semantic = Err, co_version = [], co_Complete = id, co_must_register = refuse_taken,
      co_generic_New = (\<lambda>_. Ok ()), co_AddReadyzChecks = Ok ()\<rparr>"

abbreviation in_process :: "('x, 'd) beginnings \<Rightarrow> ('x, 'd) beginnings" where
  "in_process be \<equiv> be\<lparr>be_registry := (False, {})\<rparr>"

lemma sample_registers: "RegisterMetrics refuse_taken (False, {}) = Ok (True, series_name ` set metric_vectors)"
  by (simp add: RegisterMetrics_first)

lemma sample_command_starts:
  "is_ok (NewCommandStartSpillway sample_command (in_process be) (NewSpillwayServerOptions [])
     [''d.e.f'', ''a.b.c'', ''d.e.f''])"
proof -
  let ?o = "(NewSpillwayServerOptions [])\<lparr>op_APIGroups := [''d.e.f'', ''a.b.c'', ''d.e.f'']\<rparr>"
  have groups: "sorted_list_of_set (set (op_APIGroups ?o)) = [''a.b.c'', ''d.e.f'']" by code_simp
  then have c: "options_Complete ?o = (NewSpillwayServerOptions [])\<lparr>op_APIGroups := [''a.b.c'', ''d.e.f'']\<rparr>"
    by (simp add: options_Complete_def)
  have "is_ok (ParseGroupMatcher [''a.b.c'', ''d.e.f''])" by code_simp
  then have v: "options_Validate (\<lambda>_. Err []) (\<lambda>_. Err []) [] (options_Complete ?o) = []"
    unfolding c by (auto simp: options_Validate_def source_errors_def NewSpillwayServerOptions_def services_Validate_def
        is_ok_iff second_def minute_def millisecond_def)
  from valid_options_resolve[OF v] obtain configs where
    w: "options_workspaces (\<lambda>_. Err []) (\<lambda>_. Err []) (options_Complete ?o) = Ok configs" "configs \<noteq> []" by blast
  have "is_ok (RunE sample_command (in_process be) (?o, ()))"
    using v w by (simp add: RunE_def sample_command_def options_Run_def run_Config_def options_Config_def
        applyAuthorization_def completed_New_def config_Complete_def sample_registers new_server_def extraConfig_def Let_def)
  moreover have "apply_settings sample_readers (\<lambda>_ _ _. Err []) (map (\<lambda>a. (''api-group'', a)) [''d.e.f'', ''a.b.c'', ''d.e.f'']) {}
      (NewSpillwayServerOptions [], ()) = Ok (?o, ())"
    by (simp add: sample_flags sample_readers_def store_def NewSpillwayServerOptions_def)
  moreover have "find (\<lambda>name. name \<in> {''secure-port''}) (map fst AddFlags) = None"
    by code_simp
  ultimately show ?thesis
    by (simp add: NewCommandStartSpillway_def sample_command_def)
qed


end
