(* ===== verification/Sample_Server.thy ===== *)
theory Sample_Server
  imports Server_OpenAPI Server_Documents Command
begin

text \<open>
  One workspace serving one version of one group, configured by flags, started, and a mux: a concrete
  server, for the witnesses of the properties about whole servers.
\<close>

section \<open>One workspace, started\<close>

definition kcp_answers :: "unit transport" where
  "kcp_answers w req = (Ok \<lparr>rs_status = 200, rs_body = [], rs_body_error = False\<rparr>, w)"

definition sample_credentials :: "(unit, unit client_config, unit, unit transport, string) credential_env" where
  "sample_credentials =
     \<lparr>ce_ReadFile = (\<lambda>_ w. (Err [], w)),
      ce_clientcmd = \<lparr>cm_DefaultLoadingRules = (\<lambda>_. \<lparr>lr_ExplicitPath = [], lr_Precedence = []\<rparr>),
        cm_ClientConfig = (\<lambda>_ w. (Ok \<lparr>cc_QPS = 5, cc_Burst = 10, cc_Timeout = 0, cc_rest = ()\<rparr>, w))\<rparr>,
      ce_Host = (\<lambda>_. ''https://kcp/clusters/team''), ce_TLSConfigFor = (\<lambda>_. Ok ()), ce_SetTransportDefaults = id,
      ce_HTTPWrappersForConfig = (\<lambda>_ _. Ok kcp_answers), ce_Sum256 = id, ce_zero = []\<rparr>"

definition sample_workspace_libs :: "(unit, unit) workspace_libs" where
  "sample_workspace_libs =
     \<lparr>wl_credentials = sample_credentials, wl_NewDiscoveryClient = (\<lambda>_. Ok ()),
      wl_ParseURL = (\<lambda>_. Ok \<lparr>pu_Scheme = ''https'', pu_Host = ''kcp'',
        pu_url = \<lparr>url_base = ''https://kcp'', url_path = ''/clusters/team'', url_query = Map.empty\<rparr>\<rparr>),
      wl_new_request_ok = (\<lambda>_. True),
      wl_ctx_err = (\<lambda>_. None), wl_wait = (\<lambda>w _. (False, w)), wl_now = (\<lambda>_. 0),
      wl_admit = None, wl_unmarshal_list = (\<lambda>_. Err []), wl_informers = sample_informers\<rparr>"

definition sample_server_libs :: "(unit, unit, sample_documents, unit) server_libs" where
  "sample_server_libs =
     \<lparr>sl_workspaces = sample_workspace_libs, sl_ParseGroupVersion = sample_parse,
      sl_documents = sample_managers,
      sl_discovery = (\<lambda>_. \<lparr>dc_ServerGroups = (\<lambda>w. (Ok [sample_group], w)),
                           dc_ServerResources = (\<lambda>_ w. (Ok [], w))\<rparr>),
      sl_watch = (\<lambda>_ w. (Ok (), w)),
      sl_aggregator = \<lparr>ag_List = (\<lambda>w. (Ok [], w)), ag_Write = (\<lambda>_ w. (None, w)), ag_ServerGroups = (\<lambda>w. (Ok [], w))\<rparr>,
      sl_read_file = (\<lambda>_ _. Err []), sl_services_client = (\<lambda>_. Ok ()),
      sl_discovery_client = (\<lambda>_. Ok ()), sl_lease_client = (\<lambda>_. Ok ()), sl_hostname = Ok ''spillway-0'',
      sl_elector = Ok (), sl_group_order = sorted_list_of_set, sl_version_order = (\<lambda>_. []), sl_name_order = (\<lambda>_. []),
      sl_show_build = (\<lambda>_. []), sl_show_file = (\<lambda>_. [])\<rparr>"

abbreviation no_documents :: sample_documents where
  "no_documents \<equiv> (Map.empty, Map.empty)"

definition sample_options :: SpillwayServerOptions where
  "sample_options = (NewSpillwayServerOptions [])\<lparr>op_APIGroups := [''a.b.c'']\<rparr>"

definition sample_named :: group_matcher where
  "sample_named = \<lparr>gm_exact = {''a.b.c''}, gm_suffixes = [], gm_excludedExact = {}, gm_excludedSuffixes = []\<rparr>"

lemma sample_named_parsed: "ParseGroupMatcher [''a.b.c''] = Ok sample_named"
  by code_simp

abbreviation sample_extra :: "unit ExtraConfig" where
  "sample_extra \<equiv> extraConfig (\<lambda>_. Err []) sample_options
     [(workspaceDefaults sample_options)\<lparr>wc_Name := ''default'', wc_APIGroups := sample_named\<rparr>] None"

lemma sample_config_resolves:
  "options_Config (Ok ()) (\<lambda>_. Err []) (\<lambda>_. Err []) [] sample_server_config Ok sample_clients counting_authorizers
     None sample_options = Ok (sample_server_config
       \<lparr>vc_MaxRequestsInFlight := 400, vc_MaxMutatingRequestsInFlight := 200\<rparr>, sample_extra)"
  by (simp add: options_Config_def options_workspaces_def sample_options_def NewSpillwayServerOptions_def
      sample_named_parsed sample_server_config_def applyAuthorization_def workspaceDefaults_def)

abbreviation sample_snapshot :: Snapshot where
  "sample_snapshot \<equiv> \<lparr>sn_Groups = [''a.b.c'' \<mapsto> sample_group], sn_Resources = [GV ''a.b.c'' ''v1'' \<mapsto> []]\<rparr>"

lemma sample_refresh_groups:
  assumes "dc_ServerResources c ''a.b.c/v1'' w = (Ok [], w)"
  shows "refresh_groups sample_parse c sample_named [sample_group] empty_snapshot w = (Ok sample_snapshot, w)"
proof -
  have "Matches (Some sample_named) ''a.b.c''" by code_simp
  moreover have "sample_parse ''a.b.c/v1'' = Ok (GV ''a.b.c'' ''v1'')" by (simp add: sample_parse_def)
  ultimately show ?thesis using assms by (simp add: sample_group_def empty_snapshot_def)
qed

lemma sample_launch:
  assumes "mg_next m = 0"
  shows "\<exists>m'. launch (server_env sample_server_libs sample_extra)
      ((workspaceDefaults sample_options)\<lparr>wc_Name := ''default'', wc_APIGroups := sample_named\<rparr>) m = (Ok 0, m') \<and>
    rc_snapshot (ws_cache (mg_store m' 0)) = sample_snapshot \<and>
    bk_state (wp_breaker (ws_proxy (mg_store m' 0))) = CircuitClosed \<and>
    cs_current (wp_credentials (ws_proxy (mg_store m' 0))) = kcp_answers"
  using assms
  by (simp add: launch_def server_env_def newWorkspace_def sample_server_libs_def sample_workspace_libs_def
      sample_credentials_def RestConfig_def backendRoundTripper_def newCredentialSource_def fileDigest_def
      credentialedRoundTripper_def newResourceProxy_def newBackendTransport_def newBreaker_def NewResourceCache_def Refresh_def
      refresh_def outside_client_def sample_refresh_groups Let_def del: refresh_groups.simps)

lemma sample_start:
  assumes "new_server sample_extra st0 mx no_documents () = Ok m0"
  obtains s where "server_reach sample_server_libs sample_extra m0 2 s" "sv_phase s = Serving"
    "first_serving (mg_store (sv_manager s)) (routed (sv_manager s)) ''a.b.c'' = Some 0"
    "rc_snapshot (ws_cache (mg_store (sv_manager s) 0)) = sample_snapshot" "routed (sv_manager s) = [0]"
    "bk_state (wp_breaker (ws_proxy (mg_store (sv_manager s) 0))) = CircuitClosed"
    "cs_current (wp_credentials (ws_proxy (mg_store (sv_manager s) 0))) = kcp_answers"
proof -
  let ?env = "server_env sample_server_libs sample_extra"
  let ?m1 = "registrar_ready None m0"
  have prep: "hook_prepare sample_server_libs sample_extra = Ok None"
    by (simp add: hook_prepare_def extraConfig_def sample_options_def NewSpillwayServerOptions_def)
  have "mg_next ?m1 = 0" using assms by (auto simp: new_server_def registrar_ready_def split: if_splits)
  from sample_launch[OF this] obtain m2 where l: "launch ?env
      ((workspaceDefaults sample_options)\<lparr>wc_Name := ''default'', wc_APIGroups := sample_named\<rparr>) ?m1 = (Ok 0, m2)"
    and snap: "rc_snapshot (ws_cache (mg_store m2 0)) = sample_snapshot"
    and proxy: "bk_state (wp_breaker (ws_proxy (mg_store m2 0))) = CircuitClosed"
      "cs_current (wp_credentials (ws_proxy (mg_store m2 0))) = kcp_answers" by blast
  then have served: "''a.b.c'' \<in> ServedGroups (ws_cache (mg_store m2 0))" by (simp add: ServedGroups_def groupNames_def)
  let ?m3 = "m2\<lparr>mg_router := router_replace [0] (mg_router m2)\<rparr>"
  let ?m4 = "manager_changed ?env ?m3"
  have "ex_Workspaces sample_extra = [(workspaceDefaults sample_options)\<lparr>wc_Name := ''default'', wc_APIGroups := sample_named\<rparr>]"
    by (simp add: extraConfig_def)
  then have st: "hook_start sample_server_libs sample_extra ?m1 = Ok ?m4"
    using l by (simp add: hook_start_def manager_start_def)
  have "server_reach sample_server_libs sample_extra m0 (Suc 0) \<lparr>sv_phase = Prepared, sv_manager = ?m1\<rparr>"
    using server_step.prepared[OF _ prep, of "\<lparr>sv_phase = Created, sv_manager = m0\<rparr>"]
    by (intro server_reach.further[OF server_reach.created]) simp
  then have "server_reach sample_server_libs sample_extra m0 (Suc (Suc 0)) \<lparr>sv_phase = Serving, sv_manager = ?m4\<rparr>"
    by (rule server_reach.further) (rule server_step.started; simp add: st)
  moreover have "first_serving (mg_store ?m4) (routed ?m4) ''a.b.c'' = Some 0"
    using served by (simp add: frame_simps) (simp add: router_replace_eq router_snapshot_def first_serving_def)
  moreover have "routed ?m4 = [0]" by (simp add: frame_simps)
  moreover have "rc_snapshot (ws_cache (mg_store ?m4 0)) = sample_snapshot"
    "bk_state (wp_breaker (ws_proxy (mg_store ?m4 0))) = CircuitClosed"
    "cs_current (wp_credentials (ws_proxy (mg_store ?m4 0))) = kcp_answers"
    using snap proxy by (simp_all add: frame_simps)
  ultimately show thesis by (intro that[of "\<lparr>sv_phase = Serving, sv_manager = ?m4\<rparr>"]) (simp_all add: numeral_2_eq_2)
qed

section \<open>A request to it\<close>

text \<open>A mux that looks for an exact entry first, and then for the first prefix.\<close>

definition sample_mux :: path_mux where
  "sample_mux table path =
     (case find (\<lambda>pe. fst pe = Exactly path) table of
        Some pe \<Rightarrow> Some (snd pe)
      | None \<Rightarrow> map_option snd (find (\<lambda>pe. covers (fst pe) path) table))"

lemma find_some: "find P xs = Some x \<Longrightarrow> x \<in> set xs \<and> P x"
  by (induction xs) (auto split: if_splits)

lemma find_there: "x \<in> set xs \<Longrightarrow> P x \<Longrightarrow> \<exists>y. find P xs = Some y"
  by (induction xs) auto

lemma sample_mux_laws: "mux_laws sample_mux"
  unfolding mux_laws_def
proof (intro allI conjI impI)
  fix table path e
  assume "sample_mux table path = Some e"
  then consider pe where "find (\<lambda>pe. fst pe = Exactly path) table = Some pe" "e = snd pe"
    | pe where "find (\<lambda>pe. covers (fst pe) path) table = Some pe" "e = snd pe"
    by (auto simp: sample_mux_def split: option.splits)
  then show "\<exists>p. (p, e) \<in> set table \<and> covers p path" by cases (auto dest!: find_some)
next
  fix table :: "(pattern \<times> endpoint) list" and path p e
  assume "(p, e) \<in> set table" "covers p path"
  with find_there[of "(p, e)" table "\<lambda>pe. covers (fst pe) path"] show "sample_mux table path \<noteq> None"
    by (auto simp: sample_mux_def split: option.splits)
next
  fix table :: "(pattern \<times> endpoint) list" and path e
  assume "(Exactly path, e) \<in> set table"
  with find_there[of "(Exactly path, e)" table "\<lambda>pe. fst pe = Exactly path"] obtain pe where
    "find (\<lambda>pe. fst pe = Exactly path) table = Some pe" by auto
  with find_some[of "\<lambda>pe. fst pe = Exactly path" table pe] show "\<exists>e'. sample_mux table path = Some e' \<and> (Exactly path, e') \<in> set table"
    by (cases pe) (auto simp: sample_mux_def)
qed

definition sample_serving :: "serving_libs" where
  "sample_serving =
     \<lparr>vl_mux = sample_mux, vl_decode = (\<lambda>_. None), vl_encode = (\<lambda>_. Ok []), vl_marshal = (\<lambda>_. Ok []),
      vl_outgoing = px_request\<rparr>"

abbreviation sample_get :: "string \<Rightarrow> http_request" where
  "sample_get path \<equiv> (sample_request GET None)\<lparr>rq_url := \<lparr>url_base = [], url_path = path, url_query = Map.empty\<rparr>\<rparr>"

abbreviation sample_asked :: "string \<Rightarrow> http_request" where
  "sample_asked path \<equiv> (sample_get path)\<lparr>rq_authorization := Some ''Bearer t'', rq_user := Some sample_user\<rparr>"

text \<open>What a path below \<open>/apis/\<close> names is read off it by cutting at its first two slashes.\<close>

lemma below_apis:
  assumes "apis_prefix @ x = apis_prefix @ g @ slash # v @ slash # rest" and "slash \<notin> set g" and "slash \<notin> set v"
  shows "cut slash x = (g, v @ slash # rest, True)" and "cut slash (v @ slash # rest) = (v, rest, True)"
  using assms by (simp_all add: cut_append)



section \<open>Its OpenAPI index\<close>

definition sample_codecs :: "(crd \<times> string, (crd \<times> string) list) document_codecs" where
  "sample_codecs =
     \<lparr>dx_unmarshal = (\<lambda>_. Ok [''apis/a.b.c/v1'' \<mapsto> ''here'', ''apis/other/v1'' \<mapsto> ''there'']),
      dx_marshal = (\<lambda>paths. Ok (concat (List.map_filter paths [''apis/a.b.c/v1'', ''apis/other/v1'']))),
      dx_unmarshal_list = (\<lambda>_. Err []), dx_builder = sample_v2\<rparr>"

lemma sample_side:
  assumes "bk_state (wp_breaker (ws_proxy (mg_store m a))) = CircuitClosed"
    and "cs_current (wp_credentials (ws_proxy (mg_store m a))) = kcp_answers"
  shows "\<exists>m'. fetchSpec ok (server_side sample_server_libs a) b path m =
    ((if ok (side_target b path None) then Ok [] else Err (BuildError GET path)), m')"
proof -
  let ?p = "ws_proxy (mg_store m a)"
  let ?env = "workspace_env sample_workspace_libs (wp_credentials ?p)"
  have "env_base ?env w req = (Ok \<lparr>rs_status = 200, rs_body = [], rs_body_error = False\<rparr>, w)" for w req
    by (simp add: workspace_env_def cred_RoundTrip_def assms(2) kcp_answers_def)
  then have "\<exists>st. RoundTrip ?env (wp_transport ?p) req ((wp_breaker ?p, mg_metrics m), sw_outside (mg_world m)) =
      (Ok \<lparr>rs_status = 200, rs_body = [], rs_body_error = False\<rparr>, st)" for req
    by (simp add: RoundTrip_def allow_def assms(1) roundTripWithRetries_def Let_def split: prod.splits)
  then have "\<exists>w. workspace_transport sample_workspace_libs (wp_transport ?p) (at_workspace a m) req =
      (Ok \<lparr>rs_status = 200, rs_body = [], rs_body_error = False\<rparr>, w)" for req
    by (auto simp: workspace_transport_def at_workspace_def Let_def split: prod.splits) (metis prod.inject)
  then have "\<exists>m'. server_side sample_server_libs a m req =
      (Ok \<lparr>rs_status = 200, rs_body = [], rs_body_error = False\<rparr>, m')" for req
    by (auto simp: server_side_def sample_server_libs_def Let_def split: prod.splits) (metis prod.inject)
  then obtain m' where "server_side sample_server_libs a m
      (side_request b GET path None [] None ''openapi'' ''get'') =
      (Ok \<lparr>rs_status = 200, rs_body = [], rs_body_error = False\<rparr>, m')" by blast
  then show ?thesis by (cases "ok (side_target b path None)") (simp_all add: fetchSpec_def client_do_def)
qed

lemma sample_view:
  assumes "manager_inv T sample_server_libs ex k m" and "k < 2 ^ 64"
    and "rc_snapshot (ws_cache (mg_store m 0)) = sample_snapshot" and "routed m = [0]"
  shows "fst (router_Snapshot (mg_store m) (mg_router m)) = sample_snapshot"
proof -
  have "fst (router_Snapshot (mg_store m) (mg_router m)) = fst (merge_all (mg_store m) [0])"
    using view_is_merged[OF assms(1,2)] assms(4) by (simp add: router_Snapshot_def split_beta) (metis fst_conv)
  also have "\<dots> = sample_snapshot"
    by (auto simp: merge_all_def merge_workspace_def Let_def assms(3) empty_snapshot_def fun_eq_iff)
  finally show ?thesis .
qed

lemma sample_index:
  assumes "manager_inv T sample_server_libs ex k m" and "k < 2 ^ 64"
    and "rc_snapshot (ws_cache (mg_store m 0)) = sample_snapshot" and "routed m = [0]"
    and "bk_state (wp_breaker (ws_proxy (mg_store m 0))) = CircuitClosed"
    and "cs_current (wp_credentials (ws_proxy (mg_store m 0))) = kcp_answers"
  shows "\<exists>docs m'. handle_openapi sample_server_libs sample_codecs OpenAPIV3Index [] (prepare, m) =
       (Some (OpenAPIDocument ''here''), (docs, m'))"
proof -
  let ?h = "server_openapi sample_server_libs" and ?s = "(mg_store m, mg_router m)"
  have view: "oa_view ?h ?s = sample_snapshot" "oa_groups ?h ?s = {''a.b.c''}"
    using sample_view[OF assms(1-4)]
    by (simp_all add: server_openapi_def router_openapi_def router_ServedGroups_def router_Snapshot_def split_beta groupNames_def)
  have split: "split_on slash (trim_char slash ''apis/a.b.c/v1'') = [''apis'', ''a.b.c'', ''v1'']"
    "split_on slash (trim_char slash ''apis/other/v1'') = [''apis'', ''other'', ''v1'']" by code_simp+
  have owned: "openapi_owns ?h ?s ''apis/a.b.c/v1''" "\<not> openapi_owns ?h ?s ''apis/other/v1''"
    by (simp_all add: openapi_owns_def split view)
  obtain m1 where f: "fetchSpec (\<lambda>_. True) (server_side sample_server_libs 0) (ws_backend (mg_store m 0)) ''/openapi/v3'' m =
      (Ok [], m1)"
    using sample_side[OF assms(5,6), of "\<lambda>_. True" "ws_backend (mg_store m 0)" "''/openapi/v3''"] by auto
  have "spec_sources ?h ?s = [(ws_name (mg_store m 0), fetchSpec (\<lambda>_. True) (server_side sample_server_libs 0) (ws_backend (mg_store m 0)))]"
    by (simp add: spec_sources_def server_openapi_def router_openapi_def fetchers_def assms(4) sample_server_libs_def
        sample_workspace_libs_def)
  then have "buildIndex (dx_unmarshal sample_codecs) (dx_marshal sample_codecs) ?h ?s m = (Ok ''here'', m1)"
    using f owned by (simp add: buildIndex_def sample_codecs_def List.map_filter_def)
  then show ?thesis
    by (simp add: handle_openapi_def serveDiscovery_def doc_get_def prepare_def newDocumentCache_def Let_def spec_reply_def)
qed

lemma unasked: "server_reach libs ex m0 n s \<Longrightarrow> documents_run libs dx ex m0 n prepare s"
  by (induction rule: server_reach.induct) (auto intro: documents_run.intros)

theorem openapi_documents_are_current_witness:
  "\<forall>st0. \<exists>m0 s docs m' j. new_server sample_extra st0 no_metrics no_documents () = Ok m0 \<and>
     documents_run sample_server_libs sample_codecs sample_extra m0 2 prepare s \<and>
     handle_openapi sample_server_libs sample_codecs OpenAPIV3Index [] (prepare, sv_manager s) =
       (Some (OpenAPIDocument ''here''), (docs, m')) \<and>
     server_run sample_server_libs sample_extra s j (s\<lparr>sv_manager := m'\<rparr>)"
proof
  fix st0 :: "unit server_store"
  obtain m0 where new: "new_server sample_extra st0 no_metrics no_documents () = Ok m0"
    by (simp add: new_server_def extraConfig_def)
  from sample_start[OF new] obtain s where s: "server_reach sample_server_libs sample_extra m0 2 s"
    "sv_phase s = Serving" "first_serving (mg_store (sv_manager s)) (routed (sv_manager s)) ''a.b.c'' = Some 0"
    "rc_snapshot (ws_cache (mg_store (sv_manager s) 0)) = sample_snapshot" "routed (sv_manager s) = [0]"
    "bk_state (wp_breaker (ws_proxy (mg_store (sv_manager s) 0))) = CircuitClosed"
    "cs_current (wp_credentials (ws_proxy (mg_store (sv_manager s) 0))) = kcp_answers" .
  let ?m = "sv_manager s" and ?h = "server_openapi sample_server_libs"
  let ?s = "(mg_store ?m, mg_router ?m)"
  have n: "(2::nat) < 2 ^ 60" by simp
  note inv = reached_invariants[OF sample_config_resolves new s(1,2) n]
  from sample_index[OF inv(1,4) s(4-7)] obtain docs m' where h: "handle_openapi sample_server_libs sample_codecs OpenAPIV3Index [] (prepare, ?m) =
       (Some (OpenAPIDocument ''here''), (docs, m'))" by blast
  from openapi_documents_are_current[OF sample_config_resolves new unasked[OF s(1)] n disjI2[OF refl] h]
  obtain j where "server_run sample_server_libs sample_extra s j (s\<lparr>sv_manager := m'\<rparr>)" by blast
  with new unasked[OF s(1)] h show "\<exists>m0 s docs m' j. new_server sample_extra st0 no_metrics no_documents () = Ok m0 \<and>
     documents_run sample_server_libs sample_codecs sample_extra m0 2 prepare s \<and>
     handle_openapi sample_server_libs sample_codecs OpenAPIV3Index [] (prepare, sv_manager s) =
       (Some (OpenAPIDocument ''here''), (docs, m')) \<and>
     server_run sample_server_libs sample_extra s j (s\<lparr>sv_manager := m'\<rparr>)" by blast
qed

section \<open>Its documents\<close>

lemma sample_keyed: "keyed_answers sample_server_libs"
  by (auto simp: keyed_answers_def sample_server_libs_def sample_group_def sample_parse_def)

lemma sample_enumerates: "enumerates sample_server_libs"
  by (simp add: enumerates_def sample_server_libs_def)

theorem documents_follow_the_workspaces_witness:
  "\<forall>st0. \<exists>m0 s. new_server sample_extra st0 no_metrics no_documents () = Ok m0 \<and>
     server_reach sample_server_libs sample_extra m0 2 s \<and>
     fst (sw_documents (mg_world (manager_changed (server_env sample_server_libs sample_extra) (sv_manager s)))) ''a.b.c'' =
       Some sample_group"
proof
  fix st0 :: "unit server_store"
  obtain m0 where new: "new_server sample_extra st0 no_metrics no_documents () = Ok m0"
    by (simp add: new_server_def extraConfig_def)
  from sample_start[OF new] obtain s where s: "server_reach sample_server_libs sample_extra m0 2 s"
    "sv_phase s = Serving" "first_serving (mg_store (sv_manager s)) (routed (sv_manager s)) ''a.b.c'' = Some 0"
    "rc_snapshot (ws_cache (mg_store (sv_manager s) 0)) = sample_snapshot" .
  have n: "(2::nat) < 2 ^ 60" by simp
  have laws: "document_laws (sl_documents sample_server_libs) fst snd" "gm_aggregated (sl_documents sample_server_libs)"
    using sample_document_laws by (simp_all add: sample_server_libs_def sample_managers_def)
  have empty: "fst no_documents = Map.empty" "snd no_documents = Map.empty" by simp_all
  note inv = reached_invariants[OF sample_config_resolves new s(1,2) n]
  have "fst (servingFor (mg_store (sv_manager s)) (mg_router (sv_manager s)) ''a.b.c'') = Some 0"
    using serving_is_first(1)[OF inv(1,4), of "''a.b.c''"] s(3) by simp
  with documents_follow_the_workspaces[OF sample_config_resolves new s(1) n laws sample_keyed sample_enumerates empty,
      unfolded Let_def, THEN conjunct2, THEN conjunct2, THEN conjunct1, THEN spec, of "''a.b.c''"]
  have "fst (sw_documents (mg_world (manager_changed (server_env sample_server_libs sample_extra) (sv_manager s)))) ''a.b.c'' =
      Some sample_group" by (simp add: s(4))
  with new s(1) show "\<exists>m0 s. new_server sample_extra st0 no_metrics no_documents () = Ok m0 \<and>
     server_reach sample_server_libs sample_extra m0 2 s \<and>
     fst (sw_documents (mg_world (manager_changed (server_env sample_server_libs sample_extra) (sv_manager s)))) ''a.b.c'' =
       Some sample_group" by blast
qed

theorem server_state_keeps_its_shape_witness:
  "\<forall>st0. \<exists>m0 s. new_server sample_extra st0 no_metrics no_documents () = Ok m0 \<and>
     server_reach sample_server_libs sample_extra m0 2 s \<and> 0 \<in> set (routed (sv_manager s)) \<and>
     workspace_type sample_server_libs (mg_store (sv_manager s) 0)"
proof
  fix st0 :: "unit server_store"
  obtain m0 where new: "new_server sample_extra st0 no_metrics no_documents () = Ok m0"
    by (simp add: new_server_def extraConfig_def)
  from sample_start[OF new] obtain s where s: "server_reach sample_server_libs sample_extra m0 2 s"
    "routed (sv_manager s) = [0]" by metis
  have n: "(2::nat) < 2 ^ 60" by simp
  from server_state_keeps_its_shape[OF sample_config_resolves new s(1) n sample_keyed, unfolded Let_def, THEN conjunct1,
      THEN spec, of 0] s(2)
  have "workspace_type sample_server_libs (mg_store (sv_manager s) 0)" by simp
  with new s show "\<exists>m0 s. new_server sample_extra st0 no_metrics no_documents () = Ok m0 \<and>
     server_reach sample_server_libs sample_extra m0 2 s \<and> 0 \<in> set (routed (sv_manager s)) \<and>
     workspace_type sample_server_libs (mg_store (sv_manager s) 0)" by auto
qed

end
