(* ===== verification/Bystander.thy ===== *)
theory Bystander
  imports Go_Strings Loops
begin

text \<open>
  \<open>test/bench/bystander.go\<close>: the load the benchmarks put beside the workload, a small ConfigMap created and
  deleted on a timer until it is told to stop. Creating and deleting are the cluster's: two functions over
  a world, as is the clock.
\<close>

section \<open>The program\<close>

record 'w bystander =
  by_Create :: "string \<Rightarrow> 'w \<Rightarrow> string option \<times> 'w"
  by_Delete :: "string \<Rightarrow> 'w \<Rightarrow> string option \<times> 'w"
  by_now :: "'w \<Rightarrow> time"
  by_every :: duration

text \<open>What the benchmarks keep of the calls they make: how long each took, and how many failed.\<close>

record bench_sample =
  sm_durations :: "duration list"
  sm_failures :: nat

definition no_samples :: bench_sample where
  "no_samples = \<lparr>sm_durations = [], sm_failures = 0\<rparr>"

definition sample_record :: "duration \<Rightarrow> string option \<Rightarrow> bench_sample \<Rightarrow> bench_sample" where
  "sample_record d err s =
     (case err of
        Some _ \<Rightarrow> s\<lparr>sm_failures := sm_failures s + 1\<rparr>
      | None \<Rightarrow> s\<lparr>sm_durations := sm_durations s @ [d]\<rparr>)"

definition bystander_write :: "'w bystander \<Rightarrow> string \<Rightarrow> 'w \<Rightarrow> string option \<times> 'w" where
  "bystander_write b name w =
     (case by_Create b name w of
        (Some e, w') \<Rightarrow> (Some e, w')
      | (None, w') \<Rightarrow> by_Delete b name w')"

definition bystander_name :: "string \<Rightarrow> nat \<Rightarrow> string" where
  "bystander_name label i = ''bystander-'' @ label @ ''-'' @ show_nat i"

definition bystander_tick :: "'w bystander \<Rightarrow> string \<Rightarrow> nat \<times> bench_sample \<times> 'w \<Rightarrow> nat \<times> bench_sample \<times> 'w" where
  "bystander_tick b label st =
     (case st of (i, s, w) \<Rightarrow>
        let started = by_now b w in
        (case bystander_write b (bystander_name label i) w of
           (err, w') \<Rightarrow> (i + 1, sample_record (by_now b w' - started) err s, w')))"

text \<open>
  The goroutine of \<open>watch\<close>. What \<open>watch\<close> returns ends its context, waits for it and hands out the sample.
\<close>

definition bystander_watch :: "'w bystander \<Rightarrow> string \<Rightarrow> (nat \<Rightarrow> tick_case) \<Rightarrow> 'w \<Rightarrow>
    (string, bench_sample \<times> 'w) result option" where
  "bystander_watch b label chosen w =
     map_option (\<lambda>r. case r of Err panic \<Rightarrow> Err panic | Ok (_, s, w') \<Rightarrow> Ok (s, w'))
       (ticking (by_every b) (tick_turn (bystander_tick b label)) chosen (0, no_samples, w))"

section \<open>What it measures, and what it leaves\<close>

text \<open>Every turn is one sample, under a name of its own.\<close>

lemma bystander_tick_counts:
  assumes "bystander_tick b label (i, s, w) = (i', s', w')"
  shows "i' = Suc i" "length (sm_durations s') + sm_failures s' = Suc (length (sm_durations s) + sm_failures s)"
  using assms by (auto simp: bystander_tick_def sample_record_def Let_def split: prod.splits option.splits)

lemma one_sample_per_tick:
  assumes "(bystander_tick b label ^^ n) (0, no_samples, w) = (i, s, w')"
  shows "i = n \<and> length (sm_durations s) + sm_failures s = n"
  using assms
proof (induction n arbitrary: i s w')
  case (Suc n)
  obtain i1 s1 w1 where one: "(bystander_tick b label ^^ n) (0, no_samples, w) = (i1, s1, w1)" by (metis prod_cases3)
  with Suc.prems have "bystander_tick b label (i1, s1, w1) = (i, s, w')" by simp
  with Suc.IH[OF one] bystander_tick_counts[OF this] show ?case by simp
qed (simp add: no_samples_def)

lemma bystander_names_differ: "bystander_name label i = bystander_name label j \<longleftrightarrow> i = j"
  by (auto simp: bystander_name_def dest: arg_cong[of _ _ read_nat])

text \<open>
  Over an API that keeps a set of names, creates only what is not there and deletes what is, whatever
  else happens to the other names: every write leaves the set as it was.
\<close>

definition keeps_names :: "('w \<Rightarrow> string set) \<Rightarrow> 'w bystander \<Rightarrow> bool" where
  "keeps_names names b \<longleftrightarrow>
     (\<forall>name w w'. by_Create b name w = (None, w') \<longrightarrow> name \<notin> names w \<and> names w' = insert name (names w)) \<and>
     (\<forall>name w w' e. by_Create b name w = (Some e, w') \<longrightarrow> names w' = names w) \<and>
     (\<forall>name w w'. by_Delete b name w = (None, w') \<longrightarrow> names w' = names w - {name})"

lemma write_leaves_nothing:
  "keeps_names names b \<Longrightarrow> bystander_write b name w = (None, w') \<Longrightarrow> names w' = names w"
  unfolding keeps_names_def bystander_write_def by (auto split: prod.splits option.splits)

text \<open>A run that is stopped hands out a sample of as many writes as there were ticks.\<close>

lemma bystander_measures:
  assumes "heeds (\<lambda>e. e = Ended) over chosen" and "0 < by_every b" and "over k"
  obtains n s w' where "over n" "bystander_watch b label chosen w = Some (Ok (s, w'))"
    "length (sm_durations s) + sm_failures s = n"
proof -
  have "returns_when over (ticking (by_every b) (tick_turn (bystander_tick b label)) chosen (0, no_samples, w))
      (\<lambda>n. (bystander_tick b label ^^ n) (0, no_samples, w))" (is "returns_when _ ?out _")
    by (rule ticker_returns[OF assms(1,2)])
  with assms(3) obtain n st where n: "over n" "?out = Some (Ok st)" "st = (bystander_tick b label ^^ n) (0, no_samples, w)"
    by (auto simp: returns_when_def split: option.splits sum.splits)
  obtain i s w' where st: "st = (i, s, w')" by (metis prod_cases3)
  show ?thesis
    by (rule that[OF n(1), of s w']) (use n(2) st one_sample_per_tick[of n b label w i s w'] n(3)[symmetric] in \<open>simp_all add: bystander_watch_def\<close>)
qed

end
