(* ===== verification/Spec2Isabelle.thy ===== *)
theory Spec2Isabelle
  imports Watch Sample_Server Bystander
begin

text \<open>
  Spillway: a Kubernetes extension API server that serves API groups out of kcp workspaces. This is a
  verification development of its own logic, translated from the Go sources under \<open>src/\<close>.

  \<^bold>\<open>The program.\<close> The aggregation layer of a workload cluster sends spillway the requests of the
  groups it registered. A request that passed authentication and authorization
  (\<open>pkg/cmd/server/authorization.go\<close>) reaches the discovery handler, which answers discovery itself and
  hands anything deeper to the proxy of the workspace backing the group. The proxy inspects, admits and
  forwards the request over a transport with retries and a circuit breaker. What each workspace serves
  is kept in a cache, refreshed by a watch; a router merges the caches; a manager keeps the set of
  workspaces matching a file; a registrar keeps the cluster's APIServices matching the merged view.

  \<^bold>\<open>The theories, by the part of the program they model.\<close>
  \<^item> \<open>Prelude\<close>, \<open>Go_Strings\<close>, \<open>Go_Path\<close>, \<open>Go_Time\<close>: shared lemmas and what is used of Go's \<open>strings\<close>,
    \<open>path\<close> and \<open>time\<close>; \<open>Loops\<close>: tickers and the loops over a \<open>select\<close> that run in the background;
    \<open>K8s\<close>, \<open>Http\<close>: the data of Kubernetes and HTTP the program looks into.
  \<^item> \<open>Group_Matcher\<close> (\<open>pkg/kcp/groups.go\<close>): parsing, matching and printing which groups are served.
  \<^item> \<open>Resource_Cache\<close> (\<open>pkg/kcp/discovery.go\<close>), \<open>Watch\<close> (\<open>pkg/kcp/watch.go\<close>), \<open>Metrics\<close>
    (\<open>pkg/kcp/metrics.go\<close>): one workspace's API surface, the signal that it changed, the series.
  \<^item> \<open>Breaker\<close>, \<open>Backend\<close> (\<open>pkg/apiserver/backend.go\<close>), \<open>Backend_Client\<close> (\<open>backendclient.go\<close>),
    \<open>Kcp_Client\<close> (\<open>pkg/kcp/client.go\<close>), \<open>Credentials\<close> (\<open>credentials.go\<close>, \<open>credentialedRoundTripper\<close>): the
    transport to kcp, side requests, rotating credentials.
  \<^item> \<open>Keyed_Cache\<close>, \<open>Document_Cache\<close> (\<open>openapicache.go\<close>), \<open>Conversion\<close> (\<open>conversion.go\<close>).
  \<^item> \<open>Admission_Match\<close> (\<open>admissionmatch.go\<close>), \<open>Admission\<close> (\<open>admission.go\<close>), \<open>Owner_Refs\<close>
    (\<open>ownerrefs.go\<close>), \<open>Namespace_Mirror\<close> (\<open>namespaces.go\<close>), \<open>Proxy\<close> (\<open>proxy.go\<close>): a request on its way.
  \<^item> \<open>Api_Surface\<close>, \<open>Router\<close> (\<open>router.go\<close>), \<open>Discovery_Handler\<close> (\<open>discovery.go\<close>), \<open>OpenAPI\<close>
    (\<open>openapi.go\<close>): the merged view and the documents made of it.
  \<^item> \<open>Leader\<close> (\<open>leader.go\<close>), \<open>API_Services\<close> (\<open>apiservices.go\<close>, \<open>clusterapis.go\<close>): the registrar.
  \<^item> \<open>Workspace_Manager\<close>, \<open>Manager_Runs\<close> (\<open>workspacemanager.go\<close>): applying the configuration.
  \<^item> \<open>Options\<close> (\<open>pkg/cmd/server/options.go\<close>, \<open>workspaces.go\<close>), \<open>Authorization\<close> (\<open>authorization.go\<close>).
  \<^item> \<open>Server\<close> (\<open>pkg/apiserver/apiserver.go\<close>, \<open>Config\<close> of \<open>options.go\<close>, \<open>pkg/version\<close>): the components
    put together; \<open>Server_Life\<close>: everything that can happen to a running server, as a step relation.
  \<^item> \<open>Requests\<close>: a request from the mux (\<open>install\<close> of the handlers, the health paths) to the transport of
    a workspace and back; \<open>Server_Documents\<close>, \<open>Server_OpenAPI\<close>: the discovery and the OpenAPI documents of
    a whole server through everything that happens to it.
  \<^item> \<open>Flags\<close> (\<open>AddFlags\<close>), \<open>Command\<close> (\<open>cmd/spillway/main.go\<close>, \<open>NewCommandStartSpillway\<close>, \<open>Run\<close> of
    \<open>options.go\<close>): from the arguments to a server; \<open>Sample_Server\<close>: a concrete server for the witnesses.
  \<^item> \<open>Bystander\<close> (\<open>test/bench/bystander.go\<close>): the unrelated load the benchmarks measure.

  \<^bold>\<open>How code became definitions.\<close> A struct is a record of the same fields, a function or method a
  definition of the same name where HOL has none (with a prefix otherwise: \<open>cache_Owns\<close>,
  \<open>openapi_owns\<close>), a loop a structural recursion over what it ranges over, an error a constructor of an
  error type and a fallible result \<open>Err\<close> or \<open>Ok\<close>. Pointers that are shared and mutated live in a store
  (\<open>Router\<close>); generations, revisions and ages are 64 bit words where the code's wrap. Go ranges over maps
  in no fixed order: the order taken is an argument, or the loop writes each key once. Code outside the
  repository -- clients, codecs, admission plugins, the elector, the generic server -- is an argument, over
  a world type it may change at will; what is relied on of it is a named predicate in the statement
  (\<open>store_laws\<close> of the APIService client, \<open>document_laws\<close> of the discovery managers, \<open>authorizer_laws\<close>,
  \<open>mux_laws\<close>, \<open>keyed_answers\<close> of kcp's group lists, \<open>enumerates\<close> of a range over a finite map), each met by
  a concrete function in a witness.

  \<^bold>\<open>Interfaces.\<close> \<open>keyed_cache\<close> is the contract of a value kept with the key it was built from
  (interpreted by the document cache, the conversion policy and the merged view), \<open>api_surface\<close> that of
  a view whose groups are backed (interpreted by the router, used by discovery and OpenAPI); \<open>context_loop\<close>
  that of a loop which returns only when told to (interpreted by the cache's and by those that only wait
  for a ticker); \<open>Breaker\<close>
  states what the transport relies on of a circuit.

  \<^bold>\<open>What the lemmas show.\<close> Per component: the invariant and that every operation keeps it, what each
  operation does on every branch, and its agreement with a specification (\<open>merge_spec\<close> for the router,
  \<open>settled\<close> for the registrar, \<open>applies\<close> for a reload, \<open>gauge_spec\<close> for the gauge, \<open>nested_resource\<close> for
  aggregated discovery). State machines with interleavings: the breaker under concurrent requests
  (\<open>Breaker\<close>), readers, refreshes and replacements of the router (\<open>Router\<close>), a whole server
  (\<open>Server_Life\<close>). The whole server rests on one invariant, \<open>server_inv\<close>, which every step keeps:
  the shape of its workspaces, the freshness of the merged view, and that what was noted of an earlier
  view is still true while the key of the view reads the same (\<open>same_key_same_view\<close>). From it follow
  where requests end and what they are answered (\<open>Requests\<close>), what discovery lists
  (\<open>Server_Documents\<close>) and what the OpenAPI documents describe (\<open>Server_OpenAPI\<close>). Lemmas that are no
  property record where the code falls short of its comments: \<open>early_change_withdraws\<close>,
  \<open>subresource_rule_is_missed\<close>, \<open>uninspected_is_unchecked\<close>, \<open>index_is_the_filtered_union\<close>,
  \<open>failed_build_resets_the_gauge\<close>, \<open>replaced_set_keeps_old_documents\<close>.

  \<^bold>\<open>Loops and bounds.\<close> No definition needs fuel. A loop that runs until its context ends (\<open>Run\<close> of the
  cache, \<open>cred_loop\<close>, \<open>manager_loop\<close>, \<open>bystander_watch\<close>) is an option-valued partial function over the cases
  its select takes; the termination property of \<open>Workspace_Manager\<close> says when it returns, and that what it leaves is what its
  first turns leave (\<open>Run_turns\<close>, \<open>cred_run\<close>, \<open>manager_run\<close>), which is what the steps of a server and the
  other theorems speak of. The counters that key the merged view wrap at 2 ^ 64; the theorems about it
  bound the steps (2 ^ 64 for the router's, 2 ^ 60 for a server's, each of which takes at most three of
  the router's).

  \<^bold>\<open>Granularity.\<close> A step of \<open>Server_Life\<close> is one turn of one goroutine; the launches of a start are one
  step, a refresh and what follows it are two. A request is one turn in \<open>Requests\<close>, and shown to be a run
  of steps, which may be interleaved with any others. Left out are data races inside a turn, a
  replacement between the two loads of a reader's key, and what apimachinery does with a request handed
  over. What a workspace is asked in between -- for admission, namespaces, OpenAPI documents -- goes over
  the same transport as what is forwarded, with its breaker, metrics and the credentials in force
  (\<open>workspace_transport\<close>), and owners are checked against its own cache. The admission chain is a
  function over everything outside; that it may ask the conversion policy (\<open>Conversion\<close>) is left out.

  \<^bold>\<open>Not modelled.\<close> \<open>scheme.go\<close>, whose every call is apimachinery's: it registers types and computes
  nothing of its own; log lines, help texts and histogram buckets; the encoding of an answer on the wire; the
  deadline of a context other than as the error it ends with. What cobra, pflag, clientcmd, client-go, the
  generic server and its recommended options, the informers and the elector do is a parameter.
\<close>

section \<open>The whole server\<close>

text \<open>
  C1. From the options to any later moment: a server configured from options that resolve, created and
  started, keeps serving what it should through every reload, refresh, election, request and outside
  change, in whatever order they come (fewer than 2 ^ 60 of them, the range of its counters). What is
  routed is what is running, every routed workspace has been read, so readiness once reached is never
  lost; a request for a group goes to the first workspace in order that serves it, which is running and
  configured for that group; and the health check of a group fails exactly when nobody serves it or the
  circuit to the workspace that does is open.
\<close>

theorem server_keeps_serving:
  assumes "options_Config self_signed read_file unmarshal v fresh0 apply_to clients al auth o1 = Ok (sc, ex)"
    and "new_server ex st0 mx documents x = Ok m0"
    and "server_reach libs ex m0 n s" and "sv_phase s = Serving" and "n < 2 ^ 60"
  shows "let m = sv_manager s; st = mg_store m; r = mg_router m in
    manager_ok m \<and> discovery_synced st r = None \<and>
    (\<forall>g. fst (servingFor st r g) = first_serving st (routed m) g) \<and>
    (\<forall>g a. fst (servingFor st r g) = Some a \<longrightarrow>
       a \<in> mg_live m \<and> g \<in> ServedGroups (ws_cache (st a)) \<and> Matches (Some (ws_groups (st a))) g) \<and>
    (\<forall>g. fst (group_check st r g) =
       (case first_serving st (routed m) g of
          None \<Rightarrow> Some (NobodyServes g)
        | Some a \<Rightarrow> if breaker_open (wp_breaker (ws_proxy (st a))) then Some (CircuitIsOpen (ws_name (st a)))
                    else None))"
proof -
  note inv = reached_invariants[OF assms]
  show ?thesis
    unfolding Let_def
    using inv(2) ready_once_ok[OF inv(2)] serving_is_first(1)[OF inv(1,4)] serving_is_live[OF inv(1,4,2)]
      group_check_tells[OF inv(1,3,2)]
    by (simp add: discovery_synced_def)
qed

theorem server_keeps_serving_witness:
  "\<forall>st0. \<exists>m0 s. new_server sample_extra st0 no_metrics no_documents () = Ok m0 \<and>
     server_reach sample_server_libs sample_extra m0 2 s \<and> sv_phase s = Serving \<and>
     discovery_synced (mg_store (sv_manager s)) (mg_router (sv_manager s)) = None \<and>
     fst (servingFor (mg_store (sv_manager s)) (mg_router (sv_manager s)) ''a.b.c'') = Some 0 \<and>
     0 \<in> mg_live (sv_manager s)"
proof
  fix st0 :: "unit server_store"
  obtain m0 where new: "new_server sample_extra st0 no_metrics no_documents () = Ok m0"
    by (simp add: new_server_def extraConfig_def)
  from sample_start[OF new] obtain s where s: "server_reach sample_server_libs sample_extra m0 2 s"
    "sv_phase s = Serving" "first_serving (mg_store (sv_manager s)) (routed (sv_manager s)) ''a.b.c'' = Some 0" .
  have "(2::nat) < 2 ^ 60" by simp
  note keeps = server_keeps_serving[OF sample_config_resolves new s(1,2) this, unfolded Let_def]
  then have "fst (servingFor (mg_store (sv_manager s)) (mg_router (sv_manager s)) ''a.b.c'') = Some 0"
    using s(3) by simp
  moreover from this keeps have "0 \<in> mg_live (sv_manager s)" by blast
  moreover from keeps have "discovery_synced (mg_store (sv_manager s)) (mg_router (sv_manager s)) = None" by blast
  ultimately show "\<exists>m0 s. new_server sample_extra st0 no_metrics no_documents () = Ok m0 \<and>
     server_reach sample_server_libs sample_extra m0 2 s \<and> sv_phase s = Serving \<and>
     discovery_synced (mg_store (sv_manager s)) (mg_router (sv_manager s)) = None \<and>
     fst (servingFor (mg_store (sv_manager s)) (mg_router (sv_manager s)) ''a.b.c'') = Some 0 \<and>
     0 \<in> mg_live (sv_manager s)"
    using new s(1,2) by blast
qed

end
